(* ===== verification/Prelude.thy ===== *)
theory Prelude
  imports Main "HOL-Library.Word"
begin

text \<open>
  What every component shares: the machine integers of the Rust code, \<open>Result\<close> as a sum
  type with \<open>Inl\<close> for the error, the checked and saturating integer operations of the
  standard library, and the ordered map that stands for \<open>BTreeMap\<close>, with its interface as a
  locale.  The named collections gather the facts the component proofs rewrite with.
\<close>

section \<open>Collections of facts\<close>

named_theorems result_simps \<open>rewriting of fallible computations\<close>
named_theorems machine_simps \<open>unfolding of the machine-integer operations\<close>
named_theorems codec_simps \<open>round trips of encoders and decoders\<close>

section \<open>Machine integers\<close>

type_synonym u8 = "8 word"
type_synonym u16 = "16 word"
type_synonym u32 = "32 word"
type_synonym u64 = "64 word"

definition checked_add :: "'a::len word \<Rightarrow> 'a word \<Rightarrow> 'a word option" where
  "checked_add a b = (if unat a + unat b < 2 ^ LENGTH('a) then Some (a + b) else None)"

definition saturating_add :: "'a::len word \<Rightarrow> 'a word \<Rightarrow> 'a word" where
  "saturating_add a b = (if unat a + unat b < 2 ^ LENGTH('a) then a + b else - 1)"

definition saturating_sub :: "'a::len word \<Rightarrow> 'a word \<Rightarrow> 'a word" where
  "saturating_sub a b = (if b \<le> a then a - b else 0)"

definition saturating_mul :: "'a::len word \<Rightarrow> 'a word \<Rightarrow> 'a word" where
  "saturating_mul a b = (if unat a * unat b < 2 ^ LENGTH('a) then a * b else - 1)"

lemma unat_less: "unat a < 2 ^ LENGTH('a)" for a :: "'a::len word"
  using unsigned_less [of a] by simp

lemma unat_max_word: "unat (- 1 :: 'a::len word) = 2 ^ LENGTH('a) - 1"
proof -
  have "unat (- 1 + 1 :: 'a word) = 0" by simp
  then show ?thesis
    using unat_plus_if' [of "- 1 :: 'a word" 1] unat_less [of "- 1 :: 'a word"]
    by (auto split: if_splits)
qed

lemma checked_add_Some [machine_simps]:
  "checked_add a b = Some c \<longleftrightarrow> unat a + unat b < 2 ^ LENGTH('a) \<and> c = a + b"
  for a b c :: "'a::len word"
  by (auto simp: checked_add_def)

lemma unat_checked_add:
  "checked_add a b = Some c \<Longrightarrow> unat c = unat a + unat b"
  for a b c :: "'a::len word"
  by (auto simp: checked_add_def unat_word_ariths split: if_splits)

lemma unat_saturating_add:
  "unat (saturating_add a b) = min (unat a + unat b) (2 ^ LENGTH('a) - 1)"
  for a b :: "'a::len word"
  by (auto simp: saturating_add_def unat_word_ariths unat_max_word min_def)

lemma unat_saturating_sub: "unat (saturating_sub a b) = unat a - unat b"
  by (auto simp: saturating_sub_def unat_sub word_le_nat_alt)

lemma saturating_add_ge: "a \<le> saturating_add a b" "b \<le> saturating_add a b"
  by (auto simp: word_le_nat_alt unat_saturating_add)
     (use unat_less [of a] unat_less [of b] in linarith)+

text \<open>Natural numbers evaluate in unary, so the bounds are evaluated over the integers.\<close>

lemma saturating_add_code [code]:
  "saturating_add a b = (if uint a + uint b < 2 ^ LENGTH('a) then a + b else - 1)" for a b :: "'a::len word"
proof -
  have "unat a + unat b < 2 ^ LENGTH('a) \<longleftrightarrow> uint a + uint b < 2 ^ LENGTH('a)"
    unfolding uint_nat by (simp add: nat_int_comparison(2))
  then show ?thesis by (simp add: saturating_add_def)
qed

lemma checked_add_code [code]:
  "checked_add a b = (if uint a + uint b < 2 ^ LENGTH('a) then Some (a + b) else None)" for a b :: "'a::len word"
proof -
  have "unat a + unat b < 2 ^ LENGTH('a) \<longleftrightarrow> uint a + uint b < 2 ^ LENGTH('a)"
    unfolding uint_nat by (simp add: nat_int_comparison(2))
  then show ?thesis by (simp add: checked_add_def)
qed

lemma saturating_mul_code [code]:
  "saturating_mul a b = (if uint a * uint b < 2 ^ LENGTH('a) then a * b else - 1)" for a b :: "'a::len word"
proof -
  have "unat a * unat b < 2 ^ LENGTH('a) \<longleftrightarrow> uint a * uint b < 2 ^ LENGTH('a)"
    unfolding uint_nat by (simp add: nat_int_comparison(2))
  then show ?thesis by (simp add: saturating_mul_def)
qed

section \<open>Fallible computations\<close>

text \<open>
  A Rust \<open>Result<T, E>\<close> is \<open>'e + 't\<close>; the \<open>?\<close> operator is \<open>rbind\<close>.
\<close>

definition rbind :: "'e + 'a \<Rightarrow> ('a \<Rightarrow> 'e + 'b) \<Rightarrow> 'e + 'b" where
  "rbind r f = (case r of Inl e \<Rightarrow> Inl e | Inr x \<Rightarrow> f x)"

definition rmap :: "('a \<Rightarrow> 'b) \<Rightarrow> 'e + 'a \<Rightarrow> 'e + 'b" where
  "rmap f r = (case r of Inl e \<Rightarrow> Inl e | Inr x \<Rightarrow> Inr (f x))"

definition map_err :: "('e \<Rightarrow> 'f) \<Rightarrow> 'e + 'a \<Rightarrow> 'f + 'a" where
  "map_err f r = (case r of Inl e \<Rightarrow> Inl (f e) | Inr x \<Rightarrow> Inr x)"

definition ok_or :: "'e \<Rightarrow> 'a option \<Rightarrow> 'e + 'a" where
  "ok_or e x = (case x of None \<Rightarrow> Inl e | Some v \<Rightarrow> Inr v)"

definition result_ok :: "'e + 'a \<Rightarrow> 'a option" where
  "result_ok r = (case r of Inl _ \<Rightarrow> None | Inr x \<Rightarrow> Some x)"

definition is_ok :: "'e + 'a \<Rightarrow> bool" where
  "is_ok r = (case r of Inl _ \<Rightarrow> False | Inr _ \<Rightarrow> True)"

text \<open>\<open>Option::unwrap_or\<close> and \<open>Option::or_else\<close>.\<close>

definition unwrap_or :: "'a \<Rightarrow> 'a option \<Rightarrow> 'a" where
  "unwrap_or d x = (case x of Some v \<Rightarrow> v | None \<Rightarrow> d)"

definition or_else :: "'a option \<Rightarrow> 'a option \<Rightarrow> 'a option" where
  "or_else a b = (case a of Some x \<Rightarrow> Some x | None \<Rightarrow> b)"

lemma or_else_simps [simp]: "or_else None b = b" "or_else a None = a" "or_else (Some x) b = Some x"
  by (simp_all add: or_else_def split: option.splits)

text \<open>\<open>Option<Result<T, E>>::transpose\<close> after a \<open>map\<close>.\<close>

definition traverse_opt :: "('a \<Rightarrow> 'e + 'b) \<Rightarrow> 'a option \<Rightarrow> 'e + 'b option" where
  "traverse_opt f x = (case x of None \<Rightarrow> Inr None | Some v \<Rightarrow> rmap Some (f v))"

text \<open>\<open>iter().map(f).collect::<Result<Vec<_>, _>>()\<close>: the first error wins.\<close>

fun traverse_list :: "('a \<Rightarrow> 'e + 'b) \<Rightarrow> 'a list \<Rightarrow> 'e + 'b list" where
  "traverse_list f [] = Inr []"
| "traverse_list f (x # xs) = rbind (f x) (\<lambda>y. rbind (traverse_list f xs) (\<lambda>ys. Inr (y # ys)))"

lemma rbind_simps [simp]:
  "rbind (Inl e) f = Inl e" "rbind (Inr x) f = f x"
  by (simp_all add: rbind_def)

lemma rmap_simps [simp]:
  "rmap f (Inl e) = Inl e" "rmap f (Inr x) = Inr (f x)"
  by (simp_all add: rmap_def)

lemma map_err_simps [simp]:
  "map_err f (Inl e) = Inl (f e)" "map_err f (Inr x) = Inr x"
  by (simp_all add: map_err_def)

lemma ok_or_simps [simp]:
  "ok_or e None = Inl e" "ok_or e (Some v) = Inr v"
  by (simp_all add: ok_or_def)

lemma result_ok_simps [simp]:
  "result_ok (Inl e) = None" "result_ok (Inr x) = Some x"
  by (simp_all add: result_ok_def)

lemma is_ok_simps [simp]: "\<not> is_ok (Inl e)" "is_ok (Inr x)"
  by (simp_all add: is_ok_def)

lemma traverse_opt_simps [simp]:
  "traverse_opt f None = Inr None" "traverse_opt f (Some v) = rmap Some (f v)"
  by (simp_all add: traverse_opt_def)

lemma rbind_cong [fundef_cong]:
  "r = r' \<Longrightarrow> (\<And>x. r' = Inr x \<Longrightarrow> f x = f' x) \<Longrightarrow> rbind r f = rbind r' f'"
  by (cases r') auto

lemma rbind_eq_Inr [result_simps]: "rbind r f = Inr y \<longleftrightarrow> (\<exists>x. r = Inr x \<and> f x = Inr y)"
  by (cases r) auto

lemma rmap_eq_Inr [result_simps]: "rmap f r = Inr y \<longleftrightarrow> (\<exists>x. r = Inr x \<and> y = f x)"
  by (cases r) auto

lemma map_err_eq_Inr [result_simps]: "map_err f r = Inr y \<longleftrightarrow> r = Inr y"
  by (cases r) auto

lemma ok_or_eq_Inr [result_simps]: "ok_or e x = Inr y \<longleftrightarrow> x = Some y"
  by (cases x) auto

lemma traverse_list_length: "traverse_list f xs = Inr ys \<Longrightarrow> length ys = length xs"
  by (induction xs arbitrary: ys) (auto simp: result_simps)

lemma traverse_list_id:
  "(\<And>x. x \<in> set xs \<Longrightarrow> f (g x) = Inr x) \<Longrightarrow> traverse_list f (map g xs) = Inr xs"
  by (induction xs) auto

lemma traverse_list_map: "traverse_list f (map g xs) = traverse_list (f \<circ> g) xs"
  by (induction xs) auto

section \<open>Ordered maps\<close>

text \<open>
  \<open>BTreeMap<K, V>\<close>: the entries in strictly ascending key order.  The interface is the map
  contract the manager and the storage layer rely on; the association list below provides it.
\<close>

type_synonym ('k, 'v) btree = "('k \<times> 'v) list"

fun bt_insert :: "'k::linorder \<Rightarrow> 'v \<Rightarrow> ('k, 'v) btree \<Rightarrow> ('k, 'v) btree" where
  "bt_insert k v [] = [(k, v)]"
| "bt_insert k v ((k', v') # m) =
     (if k < k' then (k, v) # (k', v') # m
      else if k = k' then (k, v) # m
      else (k', v') # bt_insert k v m)"

definition bt_get :: "('k, 'v) btree \<Rightarrow> 'k \<Rightarrow> 'v option" where
  "bt_get m k = map_of m k"

definition bt_values :: "('k, 'v) btree \<Rightarrow> 'v list" where
  "bt_values m = map snd m"

definition bt_remove :: "'k \<Rightarrow> ('k, 'v) btree \<Rightarrow> ('k, 'v) btree" where
  "bt_remove k m = filter (\<lambda>e. fst e \<noteq> k) m"

definition bt_ordered :: "('k::linorder, 'v) btree \<Rightarrow> bool" where
  "bt_ordered m = sorted_wrt (<) (map fst m)"

locale ordered_map =
  fixes empty :: 'm
    and insert :: "'k::linorder \<Rightarrow> 'v \<Rightarrow> 'm \<Rightarrow> 'm"
    and lookup :: "'m \<Rightarrow> 'k \<Rightarrow> 'v option"
    and entries :: "'m \<Rightarrow> ('k \<times> 'v) list"
    and invar :: "'m \<Rightarrow> bool"
  assumes lookup_empty: "lookup empty k = None"
    and lookup_insert: "lookup (insert k v m) k' = (if k' = k then Some v else lookup m k')"
    and invar_empty: "invar empty"
    and invar_insert: "invar m \<Longrightarrow> invar (insert k v m)"
    and entries_sorted: "invar m \<Longrightarrow> sorted_wrt (<) (map fst (entries m))"
    and entries_lookup: "invar m \<Longrightarrow> (k, v) \<in> set (entries m) \<longleftrightarrow> lookup m k = Some v"
begin

definition insert_all :: "('k \<times> 'v) list \<Rightarrow> 'm \<Rightarrow> 'm" where
  "insert_all kvs m = fold (\<lambda>(k, v). insert k v) kvs m"

lemma insert_all_invar: "invar m \<Longrightarrow> invar (insert_all kvs m)"
  unfolding insert_all_def by (induction kvs arbitrary: m) (auto intro: invar_insert)

lemma lookup_insert_same [simp]: "lookup (insert k v m) k = Some v"
  by (simp add: lookup_insert)

lemma lookup_insert_other: "k' \<noteq> k \<Longrightarrow> lookup (insert k v m) k' = lookup m k'"
  by (simp add: lookup_insert)

lemma entries_distinct: "invar m \<Longrightarrow> distinct (map fst (entries m))"
  using entries_sorted [of m] by (induction "entries m" rule: rev_induct)
    (auto simp: strict_sorted_iff)

end

lemma bt_get_insert: "bt_get (bt_insert k v m) k' = (if k' = k then Some v else bt_get m k')"
  by (induction k v m rule: bt_insert.induct) (auto simp: bt_get_def)

lemma set_bt_insert_keys: "fst ` set (bt_insert k v m) = insert k (fst ` set m)"
  by (induction k v m rule: bt_insert.induct) auto

lemma bt_ordered_insert: "bt_ordered m \<Longrightarrow> bt_ordered (bt_insert k v m)"
  unfolding bt_ordered_def
proof (induction k v m rule: bt_insert.induct)
  case (2 k v k' v' m)
  have keys: "set (map fst (bt_insert k v m)) = insert k (fst ` set m)"
    by (simp add: set_bt_insert_keys)
  show ?case
    using 2 keys by (auto simp: set_bt_insert_keys)
qed simp

lemma bt_entries_get:
  "bt_ordered m \<Longrightarrow> (k, v) \<in> set m \<longleftrightarrow> bt_get m k = Some v"
  unfolding bt_ordered_def bt_get_def
  by (rule sym, rule map_of_eq_Some_iff) (simp add: strict_sorted_iff)

interpretation btree_map: ordered_map "[]" bt_insert bt_get id bt_ordered
  by unfold_locales
     (auto simp: bt_get_insert bt_ordered_insert bt_entries_get,
      auto simp: bt_get_def bt_ordered_def)

section \<open>Codecs\<close>

text \<open>
  An encoder that may refuse a value, with the decoder that undoes it; a total encoder is the
  special case that refuses nothing.
\<close>

locale partial_codec =
  fixes enc :: "'a \<Rightarrow> 'e + 'b"
    and dec :: "'b \<Rightarrow> 'f + 'a"
  assumes dec_enc: "enc x = Inr y \<Longrightarrow> dec y = Inr x"
begin

lemma enc_inject: "enc x = Inr y \<Longrightarrow> enc x' = Inr y \<Longrightarrow> x = x'"
  using dec_enc [of x y] dec_enc [of x' y] by simp

lemma traverse_opt_dec_enc: "traverse_opt enc x = Inr y \<Longrightarrow> traverse_opt dec y = Inr x"
  by (cases x) (auto simp: result_simps dest: dec_enc)

lemma traverse_list_dec_enc: "traverse_list enc xs = Inr ys \<Longrightarrow> traverse_list dec ys = Inr xs"
  by (induction xs arbitrary: ys) (auto simp: result_simps dest: dec_enc)

end

locale codec =
  fixes to_wire :: "'a \<Rightarrow> 'b"
    and of_wire :: "'b \<Rightarrow> 'f + 'a"
  assumes of_to_wire [simp]: "of_wire (to_wire x) = Inr x"
begin

sublocale partial_codec "\<lambda>x. Inr (to_wire x) :: unit + 'b" of_wire
  by unfold_locales auto

lemma to_wire_inject [simp]: "to_wire x = to_wire y \<longleftrightarrow> x = y"
  by (metis of_to_wire sum.inject(2))

lemma traverse_wire [simp]: "traverse_opt of_wire (map_option to_wire x) = Inr x"
  by (cases x) auto

end

end
