(* ===== verification/Text.thy ===== *)
theory Text
  imports Prelude
begin

text \<open>
  The string operations of the Rust standard library the parsers use.  A \<open>&str\<close> is the list of
  its UTF-8 bytes, so \<open>length\<close> is \<open>str::len\<close> and every literal reads as in the source.  A
  pattern that is valid UTF-8 matches at byte level exactly where it matches at character level,
  because UTF-8 is self-synchronising; operations that look at characters (white space, control
  characters) recognise the multi-byte encodings explicitly.
\<close>

section \<open>Bytes and ASCII classes\<close>

definition byte :: "char \<Rightarrow> nat" where
  "byte c = of_char c"

definition is_ascii_digit :: "char \<Rightarrow> bool" where
  "is_ascii_digit c \<longleftrightarrow> 48 \<le> byte c \<and> byte c \<le> 57"

definition is_ascii_alphabetic :: "char \<Rightarrow> bool" where
  "is_ascii_alphabetic c \<longleftrightarrow> 65 \<le> byte c \<and> byte c \<le> 90 \<or> 97 \<le> byte c \<and> byte c \<le> 122"

definition is_ascii_alphanumeric :: "char \<Rightarrow> bool" where
  "is_ascii_alphanumeric c \<longleftrightarrow> is_ascii_digit c \<or> is_ascii_alphabetic c"

definition is_ascii_hexdigit :: "char \<Rightarrow> bool" where
  "is_ascii_hexdigit c \<longleftrightarrow>
     is_ascii_digit c \<or> 65 \<le> byte c \<and> byte c \<le> 70 \<or> 97 \<le> byte c \<and> byte c \<le> 102"

definition ascii_lower :: "char \<Rightarrow> char" where
  "ascii_lower c = (if 65 \<le> byte c \<and> byte c \<le> 90 then char_of (byte c + 32) else c)"

definition to_ascii_lowercase :: "string \<Rightarrow> string" where
  "to_ascii_lowercase s = map ascii_lower s"

definition eq_ignore_ascii_case :: "string \<Rightarrow> string \<Rightarrow> bool" where
  "eq_ignore_ascii_case a b \<longleftrightarrow> to_ascii_lowercase a = to_ascii_lowercase b"

lemma byte_less [simp]: "byte c < 256"
  by (simp add: byte_def)

lemma byte_inj [simp]: "byte c = byte d \<longleftrightarrow> c = d"
  by (simp add: byte_def)

lemma byte_char_of [simp]: "byte (char_of n) = n mod 256" for n :: nat
  by (simp add: byte_def)

lemma char_of_byte [simp]: "char_of (byte c) = c"
  by (simp add: byte_def)

lemma ascii_lower_idem [simp]: "ascii_lower (ascii_lower c) = ascii_lower c"
  by (auto simp: ascii_lower_def)

lemma to_ascii_lowercase_idem [simp]:
  "to_ascii_lowercase (to_ascii_lowercase s) = to_ascii_lowercase s"
  by (simp add: to_ascii_lowercase_def)

lemma length_to_ascii_lowercase [simp]: "length (to_ascii_lowercase s) = length s"
  by (simp add: to_ascii_lowercase_def)

lemma eq_ignore_ascii_case_refl [simp]: "eq_ignore_ascii_case s s"
  by (simp add: eq_ignore_ascii_case_def)

section \<open>Prefixes, suffixes and searching\<close>

fun strip_prefix :: "'a list \<Rightarrow> 'a list \<Rightarrow> 'a list option" where
  "strip_prefix [] s = Some s"
| "strip_prefix (p # ps) [] = None"
| "strip_prefix (p # ps) (c # cs) = (if p = c then strip_prefix ps cs else None)"

definition starts_with :: "'a list \<Rightarrow> 'a list \<Rightarrow> bool" where
  "starts_with p s \<longleftrightarrow> strip_prefix p s \<noteq> None"

definition strip_suffix :: "'a list \<Rightarrow> 'a list \<Rightarrow> 'a list option" where
  "strip_suffix p s = map_option rev (strip_prefix (rev p) (rev s))"

definition ends_with :: "'a list \<Rightarrow> 'a list \<Rightarrow> bool" where
  "ends_with p s \<longleftrightarrow> strip_suffix p s \<noteq> None"

text \<open>\<open>str::find\<close>: the byte index of the first match.\<close>

fun str_find :: "'a list \<Rightarrow> 'a list \<Rightarrow> nat option" where
  "str_find p [] = (if p = [] then Some 0 else None)"
| "str_find p (c # cs) =
     (if starts_with p (c # cs) then Some 0 else map_option Suc (str_find p cs))"

text \<open>\<open>str::split_once\<close> and \<open>str::split\<close> with a one-character pattern.\<close>

fun split_once :: "'a \<Rightarrow> 'a list \<Rightarrow> ('a list \<times> 'a list) option" where
  "split_once d [] = None"
| "split_once d (c # cs) =
     (if c = d then Some ([], cs)
      else map_option (\<lambda>(a, b). (c # a, b)) (split_once d cs))"

fun split_on :: "'a \<Rightarrow> 'a list \<Rightarrow> 'a list list" where
  "split_on d [] = [[]]"
| "split_on d (c # cs) =
     (if c = d then [] # split_on d cs
      else (case split_on d cs of [] \<Rightarrow> [[c]] | w # ws \<Rightarrow> (c # w) # ws))"

text \<open>\<open>str::rfind\<close> followed by slicing: what is after the last occurrence.\<close>

fun after_last :: "'a \<Rightarrow> 'a list \<Rightarrow> 'a list option" where
  "after_last d [] = None"
| "after_last d (c # cs) =
     (case after_last d cs of Some t \<Rightarrow> Some t | None \<Rightarrow> if c = d then Some cs else None)"

lemma strip_prefix_Some: "strip_prefix p s = Some t \<longleftrightarrow> s = p @ t"
  by (induction p s rule: strip_prefix.induct) auto

lemma strip_prefix_append [simp]: "strip_prefix p (p @ t) = Some t"
  by (simp add: strip_prefix_Some)

lemma starts_with_iff: "starts_with p s \<longleftrightarrow> (\<exists>t. s = p @ t)"
  by (auto simp: starts_with_def strip_prefix_Some)

lemma strip_suffix_Some: "strip_suffix p s = Some t \<longleftrightarrow> s = t @ p"
  by (auto simp: strip_suffix_def strip_prefix_Some)
     (metis rev_append rev_rev_ident)+

lemma ends_with_iff: "ends_with p s \<longleftrightarrow> (\<exists>t. s = t @ p)"
  by (auto simp: ends_with_def strip_suffix_Some)

lemma str_find_Some: "str_find p s = Some n \<Longrightarrow> n \<le> length s \<and> starts_with p (drop n s)"
proof (induction p s arbitrary: n rule: str_find.induct)
  case (2 p c cs)
  then show ?case by (auto split: if_splits)
qed (auto simp: starts_with_def split: if_splits)

lemma split_once_Some:
  "split_once d s = Some (a, b) \<longleftrightarrow> s = a @ d # b \<and> d \<notin> set a"
proof (induction d s arbitrary: a b rule: split_once.induct)
  case (2 d c cs)
  then show ?case by (cases a) auto
qed simp

lemma split_once_None: "split_once d s = None \<longleftrightarrow> d \<notin> set s"
  by (induction d s rule: split_once.induct) auto

lemma split_once_append [simp]: "d \<notin> set a \<Longrightarrow> split_once d (a @ d # b) = Some (a, b)"
  by (simp add: split_once_Some)

lemma split_once_length: "split_once d s = Some (a, b) \<Longrightarrow> length a + length b < length s"
  by (auto simp: split_once_Some)

lemma split_on_not_Nil [simp]: "split_on d s \<noteq> []"
  by (induction d s rule: split_on.induct) (auto split: list.splits)

lemma split_on_no_sep: "d \<notin> set s \<Longrightarrow> split_on d s = [s]"
  by (induction d s rule: split_on.induct) auto

lemma split_on_append: "d \<notin> set a \<Longrightarrow> split_on d (a @ d # s) = a # split_on d s"
  by (induction a) auto

section \<open>White space\<close>

text \<open>
  The length of the white-space character (\<open>char::is_whitespace\<close>, the Unicode property
  \<open>White_Space\<close>) at the front of a string, 0 when there is none: the ASCII ones,
  U+0085, U+00A0, U+1680, U+2000 to U+200A, U+2028, U+2029, U+202F, U+205F and U+3000.
\<close>

definition ascii_ws :: "char \<Rightarrow> bool" where
  "ascii_ws c \<longleftrightarrow> 9 \<le> byte c \<and> byte c \<le> 13 \<or> byte c = 32"

definition ws_pair :: "char \<Rightarrow> char \<Rightarrow> bool" where
  "ws_pair c d \<longleftrightarrow> byte c = 194 \<and> (byte d = 133 \<or> byte d = 160)"

definition ws_triple :: "char \<Rightarrow> char \<Rightarrow> char \<Rightarrow> bool" where
  "ws_triple c d e \<longleftrightarrow>
     byte c = 225 \<and> byte d = 154 \<and> byte e = 128 \<or>
     byte c = 226 \<and> byte d = 128 \<and>
       (128 \<le> byte e \<and> byte e \<le> 138 \<or> byte e = 168 \<or> byte e = 169 \<or> byte e = 175) \<or>
     byte c = 226 \<and> byte d = 129 \<and> byte e = 159 \<or>
     byte c = 227 \<and> byte d = 128 \<and> byte e = 128"

fun ws_len :: "string \<Rightarrow> nat" where
  "ws_len (c # d # e # s) =
     (if ascii_ws c then 1 else if ws_pair c d then 2 else if ws_triple c d e then 3 else 0)"
| "ws_len [c, d] = (if ascii_ws c then 1 else if ws_pair c d then 2 else 0)"
| "ws_len [c] = (if ascii_ws c then 1 else 0)"
| "ws_len [] = 0"

text \<open>The same at the end of a string, given reversed.\<close>

fun ws_len_rev :: "string \<Rightarrow> nat" where
  "ws_len_rev (e # d # c # s) =
     (if ascii_ws e then 1 else if ws_pair d e then 2 else if ws_triple c d e then 3 else 0)"
| "ws_len_rev [d, c] = (if ascii_ws d then 1 else if ws_pair c d then 2 else 0)"
| "ws_len_rev [c] = (if ascii_ws c then 1 else 0)"
| "ws_len_rev [] = 0"

lemma ws_len_le: "ws_len s \<le> length s"
  by (induction s rule: ws_len.induct) auto

lemma ws_len_rev_le: "ws_len_rev s \<le> length s"
  by (induction s rule: ws_len_rev.induct) auto

function drop_ws :: "(string \<Rightarrow> nat) \<Rightarrow> string \<Rightarrow> string" where
  "drop_ws len s = (if len s = 0 \<or> s = [] then s else drop_ws len (drop (len s) s))"
  by pat_completeness auto
termination
  by (relation "measure (\<lambda>(len, s). length s)") auto

declare drop_ws.simps [simp del]

definition trim_start :: "string \<Rightarrow> string" where
  "trim_start s = drop_ws ws_len s"

definition trim_end :: "string \<Rightarrow> string" where
  "trim_end s = rev (drop_ws ws_len_rev (rev s))"

definition trim :: "string \<Rightarrow> string" where
  "trim s = trim_end (trim_start s)"

text \<open>\<open>s.find(char::is_whitespace)\<close>, or the length when there is no match.\<close>

fun ws_index :: "string \<Rightarrow> nat" where
  "ws_index [] = 0"
| "ws_index (c # s) = (if ws_len (c # s) > 0 then 0 else Suc (ws_index s))"

definition contains_ws :: "string \<Rightarrow> bool" where
  "contains_ws s \<longleftrightarrow> ws_index s < length s"

lemma drop_ws_fix: "len s = 0 \<Longrightarrow> drop_ws len s = s"
  by (simp add: drop_ws.simps)

lemma drop_ws_stop: "len (drop_ws len s) = 0 \<or> drop_ws len s = []"
proof (induction len s rule: drop_ws.induct)
  case (1 len s)
  then show ?case by (cases "len s = 0 \<or> s = []") (auto simp: drop_ws.simps [of len s])
qed

lemma drop_ws_suffix: "\<exists>p. s = p @ drop_ws len s"
proof (induction len s rule: drop_ws.induct)
  case (1 len s)
  show ?case
  proof (cases "len s = 0 \<or> s = []")
    case True
    then show ?thesis by (simp add: drop_ws.simps [of len s])
  next
    case False
    with 1 obtain p where "drop (len s) s = p @ drop_ws len (drop (len s) s)" by blast
    then have "s = (take (len s) s @ p) @ drop_ws len (drop (len s) s)"
      by (metis append.assoc append_take_drop_id)
    with False show ?thesis by (metis drop_ws.simps)
  qed
qed

lemma drop_ws_idem [simp]: "drop_ws len (drop_ws len s) = drop_ws len s"
  using drop_ws_stop [of len s] by (auto simp: drop_ws.simps [of len "drop_ws len s"])

lemma length_drop_ws: "length (drop_ws len s) \<le> length s"
  using drop_ws_suffix [of s len] by (metis le_add2 length_append)

lemma length_trim_start [simp]: "length (trim_start s) \<le> length s"
  by (simp add: trim_start_def length_drop_ws)

lemma length_trim_end [simp]: "length (trim_end s) \<le> length s"
  using length_drop_ws [of ws_len_rev "rev s"] by (simp add: trim_end_def)

lemma length_trim: "length (trim s) \<le> length s"
  by (simp add: trim_def order.trans [OF length_trim_end length_trim_start])

lemma trim_Nil [simp]: "trim_start [] = []" "trim_end [] = []" "trim [] = []"
  by (simp_all add: trim_def trim_start_def trim_end_def drop_ws.simps)

lemma trim_fix: "ws_len s = 0 \<Longrightarrow> ws_len_rev (rev s) = 0 \<Longrightarrow> trim s = s"
  by (simp add: trim_def trim_start_def trim_end_def drop_ws_fix)

definition plain_char :: "char \<Rightarrow> bool" where
  "plain_char c \<longleftrightarrow> 32 < byte c \<and> byte c < 128"

lemma plain_not_ws:
  "list_all plain_char s \<Longrightarrow> ws_len s = 0" "list_all plain_char s \<Longrightarrow> ws_len_rev s = 0"
  by (induction s rule: ws_len.induct; auto simp: plain_char_def ascii_ws_def ws_pair_def ws_triple_def)
     (induction s rule: ws_len_rev.induct; auto simp: plain_char_def ascii_ws_def ws_pair_def ws_triple_def)

lemma trim_plain: "list_all plain_char s \<Longrightarrow> trim s = s"
  by (simp add: trim_fix plain_not_ws)

lemma ascii_ws_ends:
  "ascii_ws c \<Longrightarrow> ws_len (c # s) = 1" "ascii_ws c \<Longrightarrow> ws_len_rev (c # s) = 1"
  by (cases s; cases "tl s"; auto)+

lemma plain_front: "plain_char c \<Longrightarrow> ws_len (c # s) = 0" "plain_char c \<Longrightarrow> ws_len_rev (c # s) = 0"
  by (cases s; cases "tl s"; auto simp: plain_char_def ascii_ws_def ws_pair_def ws_triple_def)+

lemma trim_start_plain: "plain_char c \<Longrightarrow> trim_start (c # s) = c # s"
  by (simp add: trim_start_def drop_ws_fix plain_front)

lemma trim_end_plain: "plain_char c \<Longrightarrow> trim_end (s @ [c]) = s @ [c]"
  by (simp add: trim_end_def drop_ws_fix plain_front)

lemma trim_plain_ends: "plain_char c \<Longrightarrow> plain_char d \<Longrightarrow> trim (c # s @ [d]) = c # s @ [d]"
  using trim_end_plain [of d "c # s"] by (simp add: trim_def trim_start_plain)

lemma trim_plain_single: "plain_char c \<Longrightarrow> trim [c] = [c]"
  by (rule trim_plain) simp

lemma trim_newline: "list_all plain_char s \<Longrightarrow> trim (s @ [CHR 0x0A]) = s"
proof (cases "s = []")
  case True
  then show ?thesis
    by (simp add: trim_def trim_start_def trim_end_def drop_ws.simps [of ws_len] drop_ws.simps [of ws_len_rev]
        ascii_ws_def byte_def)
next
  case False
  assume plain: "list_all plain_char s"
  have nl: "ascii_ws (CHR 0x0A)" by (simp add: ascii_ws_def byte_def)
  have "ws_len (s @ [CHR 0x0A]) = 0"
    using plain False by (cases s rule: ws_len.cases)
      (auto simp: plain_char_def ascii_ws_def ws_pair_def ws_triple_def byte_def)
  then have "trim_start (s @ [CHR 0x0A]) = s @ [CHR 0x0A]" by (simp add: trim_start_def drop_ws_fix)
  moreover have "drop_ws ws_len_rev (CHR 0x0A # rev s) = rev s"
    using plain by (subst drop_ws.simps) (simp add: ascii_ws_ends [OF nl] drop_ws_fix plain_not_ws)
  ultimately show ?thesis by (simp add: trim_def trim_end_def)
qed

lemma ws_index_le: "ws_index s \<le> length s"
  by (induction s) auto

lemma ws_index_plain: "list_all plain_char s \<Longrightarrow> ws_index (s @ t) = length s + ws_index t"
  by (induction s) (auto simp: plain_front)

lemma contains_ws_plain: "list_all plain_char s \<Longrightarrow> \<not> contains_ws s"
  using ws_index_plain [of s "[]"] by (simp add: contains_ws_def)

lemma str_find_append: "c \<notin> set s \<Longrightarrow> str_find [c] (s @ c # t) = Some (length s)"
  by (induction s) (auto simp: starts_with_def)

section \<open>Lines\<close>

text \<open>\<open>str::lines\<close>: a final newline ends the last line, and \<open>CRLF\<close> counts as one.\<close>

definition strip_cr :: "string \<Rightarrow> string" where
  "strip_cr s = (case strip_suffix [CHR 0x0D] s of Some t \<Rightarrow> t | None \<Rightarrow> s)"

fun lines_from :: "string list \<Rightarrow> string list" where
  "lines_from [] = []"
| "lines_from [l] = (if l = [] then [] else [l])"
| "lines_from (l # ls) = strip_cr l # lines_from ls"

definition lines :: "string \<Rightarrow> string list" where
  "lines s = lines_from (split_on (CHR 0x0A) s)"

definition unlines :: "string list \<Rightarrow> string" where
  "unlines ls = concat (map (\<lambda>l. l @ [CHR 0x0A]) ls)"

lemma split_on_unlines:
  "list_all (\<lambda>l. CHR 0x0A \<notin> set l) ls \<Longrightarrow> split_on (CHR 0x0A) (unlines ls) = ls @ [[]]"
  by (induction ls) (simp_all add: unlines_def split_on_append)

lemma lines_from_snoc: "list_all (\<lambda>l. strip_cr l = l) ls \<Longrightarrow> lines_from (ls @ [[]]) = ls"
proof (induction ls)
  case (Cons l ls)
  then show ?case by (cases ls) auto
qed simp

lemma lines_unlines:
  "list_all (\<lambda>l. CHR 0x0A \<notin> set l \<and> strip_cr l = l) ls \<Longrightarrow> lines (unlines ls) = ls"
  by (simp add: lines_def split_on_unlines lines_from_snoc list_all_iff)

lemma strip_cr_snoc: "c \<noteq> CHR 0x0D \<Longrightarrow> strip_cr (s @ [c]) = s @ [c]"
  by (simp add: strip_cr_def strip_suffix_def)

section \<open>Numbers\<close>

definition digit_val :: "char \<Rightarrow> nat" where
  "digit_val c = byte c - 48"

definition decimal :: "string \<Rightarrow> nat" where
  "decimal s = foldl (\<lambda>n c. 10 * n + digit_val c) 0 s"

definition all_digits :: "string \<Rightarrow> bool" where
  "all_digits s \<longleftrightarrow> s \<noteq> [] \<and> list_all is_ascii_digit s"

text \<open>
  \<open>str::parse::<uN>()\<close>: an optional plus sign, at least one digit, and a value below
  \<open>2^N\<close>.
\<close>

definition strip_plus :: "string \<Rightarrow> string" where
  "strip_plus s = (case s of [] \<Rightarrow> [] | c # t \<Rightarrow> if c = CHR ''+'' then t else s)"

definition parse_uint :: "string \<Rightarrow> 'a::len word option" where
  "parse_uint s =
     (let d = strip_plus s in
      if all_digits d \<and> decimal d < 2 ^ LENGTH('a) then Some (of_nat (decimal d)) else None)"

text \<open>\<open>to_string\<close> of an unsigned integer.\<close>

fun show_nat :: "nat \<Rightarrow> string" where
  "show_nat n = (if n < 10 then [char_of (48 + n)] else show_nat (n div 10) @ [char_of (48 + n mod 10)])"

declare show_nat.simps [simp del]

definition show_word :: "'a::len word \<Rightarrow> string" where
  "show_word w = show_nat (unat w)"

lemma decimal_append: "decimal (s @ [c]) = 10 * decimal s + digit_val c"
  by (simp add: decimal_def)

lemma decimal_append_all: "decimal (a @ b) = decimal a * 10 ^ length b + decimal b"
proof (induction b rule: rev_induct)
  case (snoc c b)
  have "decimal (a @ b @ [c]) = 10 * decimal (a @ b) + digit_val c"
    using decimal_append [of "a @ b" c] by simp
  with snoc show ?case by (simp add: decimal_append algebra_simps)
qed (simp add: decimal_def)

lemma show_nat_digits: "all_digits (show_nat n)"
proof (induction n rule: show_nat.induct)
  case (1 n)
  then show ?case
    by (subst show_nat.simps) (auto simp: all_digits_def is_ascii_digit_def)
qed

lemma decimal_show_nat [simp]: "decimal (show_nat n) = n"
proof (induction n rule: show_nat.induct)
  case (1 n)
  show ?case
  proof (cases "n < 10")
    case True
    then show ?thesis by (simp add: show_nat.simps [of n] decimal_def digit_val_def)
  next
    case False
    with 1 have "decimal (show_nat (n div 10)) = n div 10" by simp
    then show ?thesis
      using False by (simp add: show_nat.simps [of n] decimal_append digit_val_def)
  qed
qed

lemma strip_plus_digits [simp]: "all_digits s \<Longrightarrow> strip_plus s = s"
  by (cases s) (auto simp: strip_plus_def all_digits_def is_ascii_digit_def byte_def)

lemma parse_show_word [simp, codec_simps]: "parse_uint (show_word w) = Some w"
  by (simp add: parse_uint_def show_word_def show_nat_digits unat_less)

lemma parse_uint_Some:
  "parse_uint s = Some w \<Longrightarrow> all_digits (strip_plus s) \<and> unat w = decimal (strip_plus s)"
  for w :: "'a::len word"
  by (auto simp: parse_uint_def Let_def unat_of_nat split: if_splits)

end
