(* ===== verification/Download.thy ===== *)
theory Download
  imports Text "HOL-Library.Sublist"
begin

text \<open>
  The download domain of \<open>crates/gunda-core/src/download\<close>: identifiers, the lifecycle states and
  their transition table, progress, failures, destinations, request context and the
  \<open>DownloadJob\<close> aggregate with its mutators.  A timestamp (\<open>OffsetDateTime\<close>) is its number of
  nanoseconds since the epoch; a \<open>Url\<close> is its serialisation; an \<open>i64\<close> is an \<open>int\<close> whose range
  the code that produces it checks.
\<close>

type_synonym timestamp = int
type_synonym url = string
type_synonym path = string

section \<open>Identifiers\<close>

datatype download_id = DownloadId (id_value: int)

datatype invalid_download_id = InvalidDownloadId (invalid_id_value: int)

definition download_id_new :: "int \<Rightarrow> invalid_download_id + download_id" where
  "download_id_new value =
     (if value > 0 then Inr (DownloadId value) else Inl (InvalidDownloadId value))"

instantiation download_id :: linorder
begin

definition less_eq_download_id :: "download_id \<Rightarrow> download_id \<Rightarrow> bool" where
  "less_eq_download_id a b \<longleftrightarrow> id_value a \<le> id_value b"

definition less_download_id :: "download_id \<Rightarrow> download_id \<Rightarrow> bool" where
  "less_download_id a b \<longleftrightarrow> id_value a < id_value b"

instance
  by standard (auto simp: less_eq_download_id_def less_download_id_def download_id.expand)

end

section \<open>Lifecycle states\<close>

datatype download_state =
    Queued | Inspecting | Downloading | Paused | Finalizing | Completed | Failed | Cancelled
  | Interrupted

fun can_transition_to :: "download_state \<Rightarrow> download_state \<Rightarrow> bool" where
  "can_transition_to Queued next = (next = Inspecting \<or> next = Paused \<or> next = Cancelled)"
| "can_transition_to Inspecting next =
     (next = Downloading \<or> next = Paused \<or> next = Failed \<or> next = Interrupted \<or> next = Cancelled)"
| "can_transition_to Downloading next =
     (next = Paused \<or> next = Finalizing \<or> next = Failed \<or> next = Interrupted \<or> next = Cancelled)"
| "can_transition_to Paused next = (next = Queued \<or> next = Cancelled)"
| "can_transition_to Finalizing next = (next = Completed \<or> next = Failed \<or> next = Interrupted)"
| "can_transition_to Failed next = (next = Queued \<or> next = Cancelled)"
| "can_transition_to Interrupted next = (next = Queued \<or> next = Cancelled)"
| "can_transition_to _ next = False"

datatype invalid_transition = InvalidTransition (it_from: download_state) (it_to: download_state)

definition ensure_can_transition_to ::
  "download_state \<Rightarrow> download_state \<Rightarrow> invalid_transition + unit" where
  "ensure_can_transition_to s next =
     (if can_transition_to s next then Inr () else Inl (InvalidTransition s next))"

fun is_terminal :: "download_state \<Rightarrow> bool" where
  "is_terminal Completed = True"
| "is_terminal Cancelled = True"
| "is_terminal _ = False"

fun can_restart :: "download_state \<Rightarrow> bool" where
  "can_restart Queued = True"
| "can_restart Paused = True"
| "can_restart Interrupted = True"
| "can_restart Failed = True"
| "can_restart Cancelled = True"
| "can_restart Completed = True"
| "can_restart _ = False"

fun requires_recovery_after_restart :: "download_state \<Rightarrow> bool" where
  "requires_recovery_after_restart Inspecting = True"
| "requires_recovery_after_restart Downloading = True"
| "requires_recovery_after_restart Finalizing = True"
| "requires_recovery_after_restart _ = False"

section \<open>Progress\<close>

record progress =
  downloaded_bytes :: u64
  total_bytes :: "u64 option"

datatype invalid_progress = InvalidProgress (ip_downloaded: u64) (ip_total: u64)

definition progress_default :: progress where
  "progress_default = \<lparr>downloaded_bytes = 0, total_bytes = None\<rparr>"

definition progress_new :: "u64 \<Rightarrow> u64 option \<Rightarrow> invalid_progress + progress" where
  "progress_new downloaded tot =
     (case tot of
        Some t \<Rightarrow>
          if downloaded > t then Inl (InvalidProgress downloaded t)
          else Inr \<lparr>downloaded_bytes = downloaded, total_bytes = tot\<rparr>
      | None \<Rightarrow> Inr \<lparr>downloaded_bytes = downloaded, total_bytes = tot\<rparr>)"

definition with_downloaded_bytes :: "progress \<Rightarrow> u64 \<Rightarrow> invalid_progress + progress" where
  "with_downloaded_bytes p downloaded = progress_new downloaded (total_bytes p)"

definition with_total_bytes :: "progress \<Rightarrow> u64 option \<Rightarrow> invalid_progress + progress" where
  "with_total_bytes p tot = progress_new (downloaded_bytes p) tot"

definition has_reached_known_total :: "progress \<Rightarrow> bool" where
  "has_reached_known_total p =
     (case total_bytes p of Some t \<Rightarrow> downloaded_bytes p = t | None \<Rightarrow> False)"

text \<open>What every constructed progress satisfies: bytes never exceed a known total.\<close>

definition progress_wf :: "progress \<Rightarrow> bool" where
  "progress_wf p = (case total_bytes p of Some t \<Rightarrow> downloaded_bytes p \<le> t | None \<Rightarrow> True)"

section \<open>Failures, resources, destinations\<close>

datatype failure_kind =
    FkNetwork | FkAuthentication | FkRemoteRejected | FkInvalidResponse | FkUnsupportedResource
  | FkPermissionDenied | FkDiskFull | FkIntegrity | FkStorage | FkInternal

record download_failure =
  failure_kind :: failure_kind
  failure_message :: string
  failure_retryable :: bool

datatype resource_kind = KindUnknown | KindFile | KindHls | KindDash

record resource_descriptor =
  resource_kind :: resource_kind
  resource_display_name :: "string option"
  resource_content_type :: "string option"

datatype conflict_policy = Rename | Overwrite | FailIfExists

record destination =
  dest_directory :: path
  dest_filename :: "string option"
  dest_policy :: conflict_policy

datatype resolved_destination = ResolvedDestination (final_path: path)

datatype origin = Desktop | Cli | Browser (page_url: url) (page_title: "string option")

section \<open>Request context\<close>

datatype header_sensitivity = Public | Sensitive

record request_header =
  header_name :: string
  header_value :: string
  header_sensitivity :: header_sensitivity

definition is_sensitive :: "request_header \<Rightarrow> bool" where
  "is_sensitive h = (case header_sensitivity h of Sensitive \<Rightarrow> True | Public \<Rightarrow> False)"

text \<open>The fields \<open>Debug\<close> hands to \<open>debug_struct\<close>, with the value it displays.\<close>

definition show_sensitivity :: "header_sensitivity \<Rightarrow> string" where
  "show_sensitivity s = (case s of Public \<Rightarrow> ''Public'' | Sensitive \<Rightarrow> ''Sensitive'')"

definition header_debug :: "request_header \<Rightarrow> (string \<times> string) list" where
  "header_debug h =
     (let displayed_value =
        (case header_sensitivity h of
           Public \<Rightarrow> header_value h
         | Sensitive \<Rightarrow> ''[REDACTED]'')
      in [(''name'', header_name h), (''value'', displayed_value),
          (''sensitivity'', show_sensitivity (header_sensitivity h))])"

datatype execution_selection = ExecutionSelection (selection_str: string)

definition selection_max_len :: nat where
  "selection_max_len = 128"

definition selection_byte :: "char \<Rightarrow> bool" where
  "selection_byte c \<longleftrightarrow> is_ascii_alphanumeric c \<or> c \<in> set ''-_.:;,=''"

definition selection_new :: "string \<Rightarrow> unit + execution_selection" where
  "selection_new value =
     (if value = [] \<or> length value > selection_max_len then Inl ()
      else if \<not> list_all selection_byte value then Inl ()
      else Inr (ExecutionSelection value))"

record request_context =
  req_url :: url
  req_headers :: "request_header list"
  req_selection :: "execution_selection option"

definition request_new :: "url \<Rightarrow> request_header list \<Rightarrow> request_context" where
  "request_new u hs = \<lparr>req_url = u, req_headers = hs, req_selection = None\<rparr>"

definition with_selection :: "request_context \<Rightarrow> execution_selection \<Rightarrow> request_context" where
  "with_selection r sel = r\<lparr>req_selection := Some sel\<rparr>"

definition has_sensitive_headers :: "request_context \<Rightarrow> bool" where
  "has_sensitive_headers r = list_ex is_sensitive (req_headers r)"

section \<open>The aggregate\<close>

record new_download =
  nd_request :: request_context
  nd_destination :: destination
  nd_origin :: origin

record job_snapshot =
  snap_id :: download_id
  snap_download :: new_download
  snap_resolved :: "resolved_destination option"
  snap_resource :: "resource_descriptor option"
  snap_state :: download_state
  snap_progress :: progress
  snap_failure :: "download_failure option"
  snap_created_at :: timestamp
  snap_updated_at :: timestamp

record download_job =
  job_id :: download_id
  job_request :: request_context
  job_origin :: origin
  job_destination :: destination
  job_resolved :: "resolved_destination option"
  job_resource :: "resource_descriptor option"
  job_state :: download_state
  job_progress :: progress
  job_failure :: "download_failure option"
  job_created_at :: timestamp
  job_updated_at :: timestamp

definition job_new :: "download_id \<Rightarrow> new_download \<Rightarrow> timestamp \<Rightarrow> download_job" where
  "job_new i d created_at =
     \<lparr>job_id = i, job_request = nd_request d, job_origin = nd_origin d,
      job_destination = nd_destination d, job_resolved = None, job_resource = None,
      job_state = Queued, job_progress = progress_default, job_failure = None,
      job_created_at = created_at, job_updated_at = created_at\<rparr>"

definition job_restore :: "job_snapshot \<Rightarrow> download_job" where
  "job_restore s =
     \<lparr>job_id = snap_id s, job_request = nd_request (snap_download s),
      job_origin = nd_origin (snap_download s), job_destination = nd_destination (snap_download s),
      job_resolved = snap_resolved s, job_resource = snap_resource s, job_state = snap_state s,
      job_progress = snap_progress s, job_failure = snap_failure s,
      job_created_at = snap_created_at s, job_updated_at = snap_updated_at s\<rparr>"

definition job_take_snapshot :: "download_job \<Rightarrow> job_snapshot" where
  "job_take_snapshot j =
     \<lparr>snap_id = job_id j,
      snap_download = \<lparr>nd_request = job_request j, nd_destination = job_destination j,
                       nd_origin = job_origin j\<rparr>,
      snap_resolved = job_resolved j, snap_resource = job_resource j, snap_state = job_state j,
      snap_progress = job_progress j, snap_failure = job_failure j,
      snap_created_at = job_created_at j, snap_updated_at = job_updated_at j\<rparr>"

definition transition_to ::
  "download_job \<Rightarrow> download_state \<Rightarrow> timestamp \<Rightarrow> invalid_transition + download_job" where
  "transition_to j next updated_at =
     rbind (ensure_can_transition_to (job_state j) next)
       (\<lambda>_. Inr (j\<lparr>job_state := next, job_updated_at := updated_at\<rparr>))"

definition job_restart :: "download_job \<Rightarrow> timestamp \<Rightarrow> invalid_transition + download_job" where
  "job_restart j updated_at =
     (if \<not> can_restart (job_state j) then Inl (InvalidTransition (job_state j) Queued)
      else Inr (j\<lparr>job_state := Queued, job_progress := progress_default, job_resource := None,
                  job_resolved := None, job_failure := None, job_updated_at := updated_at\<rparr>))"

definition update_progress :: "download_job \<Rightarrow> progress \<Rightarrow> timestamp \<Rightarrow> download_job" where
  "update_progress j p updated_at = j\<lparr>job_progress := p, job_updated_at := updated_at\<rparr>"

definition set_resource :: "download_job \<Rightarrow> resource_descriptor \<Rightarrow> timestamp \<Rightarrow> download_job" where
  "set_resource j r updated_at = j\<lparr>job_resource := Some r, job_updated_at := updated_at\<rparr>"

definition resolve_destination ::
  "download_job \<Rightarrow> resolved_destination \<Rightarrow> timestamp \<Rightarrow> download_job" where
  "resolve_destination j d updated_at = j\<lparr>job_resolved := Some d, job_updated_at := updated_at\<rparr>"

definition job_fail ::
  "download_job \<Rightarrow> download_failure \<Rightarrow> timestamp \<Rightarrow> invalid_transition + download_job" where
  "job_fail j failure updated_at =
     rbind (ensure_can_transition_to (job_state j) Failed)
       (\<lambda>_. Inr (j\<lparr>job_state := Failed, job_failure := Some failure, job_updated_at := updated_at\<rparr>))"

section \<open>Constructors and validation\<close>

lemma download_id_new_Inr [result_simps]:
  "download_id_new v = Inr i \<longleftrightarrow> 0 < v \<and> i = DownloadId v"
  by (auto simp: download_id_new_def)

lemma progress_new_Inr [result_simps]:
  "progress_new d t = Inr p \<longleftrightarrow> p = \<lparr>downloaded_bytes = d, total_bytes = t\<rparr> \<and> progress_wf p"
  by (auto simp: progress_new_def progress_wf_def split: option.splits)

lemma progress_default_wf [simp]: "progress_wf progress_default"
  by (simp add: progress_default_def progress_wf_def)

lemma progress_new_self: "progress_wf p \<Longrightarrow> progress_new (downloaded_bytes p) (total_bytes p) = Inr p"
  by (simp add: progress_new_Inr)

lemma progress_new_unknown: "progress_new d None = Inr \<lparr>downloaded_bytes = d, total_bytes = None\<rparr>"
  by (simp add: progress_new_def)

lemma ensure_can_transition_to_Inr [result_simps]:
  "ensure_can_transition_to s t = Inr u \<longleftrightarrow> can_transition_to s t"
  by (auto simp: ensure_can_transition_to_def)

lemma selection_new_Inr [result_simps]:
  "selection_new v = Inr sel \<longleftrightarrow>
     v \<noteq> [] \<and> length v \<le> selection_max_len \<and> list_all selection_byte v \<and> sel = ExecutionSelection v"
  by (auto simp: selection_new_def)

lemma transition_to_Inr [result_simps]:
  "transition_to j s t = Inr j' \<longleftrightarrow>
     can_transition_to (job_state j) s \<and> j' = j\<lparr>job_state := s, job_updated_at := t\<rparr>"
  by (auto simp: transition_to_def result_simps)

lemma job_restart_Inr [result_simps]:
  "job_restart j t = Inr j' \<longleftrightarrow>
     can_restart (job_state j) \<and>
     j' = j\<lparr>job_state := Queued, job_progress := progress_default, job_resource := None,
            job_resolved := None, job_failure := None, job_updated_at := t\<rparr>"
  by (auto simp: job_restart_def)

lemma job_fail_Inr [result_simps]:
  "job_fail j f t = Inr j' \<longleftrightarrow>
     can_transition_to (job_state j) Failed \<and>
     j' = j\<lparr>job_state := Failed, job_failure := Some f, job_updated_at := t\<rparr>"
  by (auto simp: job_fail_def result_simps)

lemma restore_take_snapshot [simp, codec_simps]: "job_restore (job_take_snapshot j) = j"
  by (simp add: job_restore_def job_take_snapshot_def)

lemma take_snapshot_restore [simp, codec_simps]: "job_take_snapshot (job_restore s) = s"
  by (simp add: job_restore_def job_take_snapshot_def)

lemma take_snapshot_inject [simp]: "job_take_snapshot i = job_take_snapshot j \<longleftrightarrow> i = j"
  by (metis restore_take_snapshot)

section \<open>Runs of the aggregate\<close>

text \<open>One public mutator of \<open>DownloadJob\<close>; a \<open>DownloadProgress\<close> value is always well formed.\<close>

inductive job_step :: "download_job \<Rightarrow> download_job \<Rightarrow> bool" where
  step_transition: "transition_to j s t = Inr j' \<Longrightarrow> job_step j j'"
| step_restart: "job_restart j t = Inr j' \<Longrightarrow> job_step j j'"
| step_fail: "job_fail j f t = Inr j' \<Longrightarrow> job_step j j'"
| step_progress: "progress_wf p \<Longrightarrow> job_step j (update_progress j p t)"
| step_resource: "job_step j (set_resource j r t)"
| step_destination: "job_step j (resolve_destination j d t)"

inductive_cases job_stepE: "job_step j j'"

lemmas job_mutator_defs = update_progress_def set_resource_def resolve_destination_def

text \<open>What creation fixes for the life of a job.\<close>

definition same_identity :: "download_job \<Rightarrow> download_job \<Rightarrow> bool" where
  "same_identity i j \<longleftrightarrow>
     job_id i = job_id j \<and> job_request i = job_request j \<and> job_origin i = job_origin j \<and>
     job_destination i = job_destination j \<and> job_created_at i = job_created_at j"

definition job_wf :: "download_job \<Rightarrow> bool" where
  "job_wf j \<longleftrightarrow> 0 < id_value (job_id j) \<and> progress_wf (job_progress j)"

lemma same_identity_refl [simp]: "same_identity j j"
  by (simp add: same_identity_def)

lemma same_identity_trans: "same_identity i j \<Longrightarrow> same_identity j k \<Longrightarrow> same_identity i k"
  by (simp add: same_identity_def)

lemma job_step_identity: "job_step i j \<Longrightarrow> same_identity i j"
  by (induction rule: job_step.induct) (auto simp: result_simps same_identity_def job_mutator_defs)

lemma job_step_wf: "job_step i j \<Longrightarrow> job_wf i \<Longrightarrow> job_wf j"
  by (induction rule: job_step.induct) (auto simp: result_simps job_wf_def job_mutator_defs)

definition state_step :: "download_state \<Rightarrow> download_state \<Rightarrow> bool" where
  "state_step s t \<longleftrightarrow> s = t \<or> can_transition_to s t \<or> can_restart s \<and> t = Queued"

lemma job_step_state: "job_step i j \<Longrightarrow> state_step (job_state i) (job_state j)"
  by (induction rule: job_step.induct) (auto simp: result_simps state_step_def job_mutator_defs)

definition job_run :: "download_job list \<Rightarrow> bool" where
  "job_run js = successively job_step js"

lemma job_run_states: "job_run js \<Longrightarrow> successively state_step (map job_state js)"
  by (auto simp: job_run_def successively_map intro: successively_mono job_step_state)

lemma job_run_wf: "job_run (j # js) \<Longrightarrow> job_wf j \<Longrightarrow> list_all (\<lambda>k. job_wf k \<and> same_identity j k) js"
proof (induction js arbitrary: j)
  case (Cons k js)
  then have k: "job_wf k" "same_identity j k" and run: "job_run (k # js)"
    by (auto simp: job_run_def job_step_wf job_step_identity)
  from Cons.IH [OF run k(1)] have "list_all (\<lambda>l. job_wf l \<and> same_identity k l) js" .
  with k show ?case by (auto simp: list_all_iff intro: same_identity_trans)
qed simp

text \<open>The states a run must have gone through to be where it is.\<close>

fun milestones :: "download_state \<Rightarrow> download_state list" where
  "milestones Inspecting = [Inspecting]"
| "milestones Downloading = [Inspecting, Downloading]"
| "milestones Finalizing = [Inspecting, Downloading, Finalizing]"
| "milestones Completed = [Inspecting, Downloading, Finalizing, Completed]"
| "milestones _ = []"

lemma milestones_step:
  "state_step s t \<Longrightarrow> milestones t = milestones s \<or> milestones t = milestones s @ [t] \<or> milestones t = []"
  by (cases s; cases t) (auto simp: state_step_def)

lemma path_milestones:
  "successively state_step (s # ss) \<Longrightarrow> milestones s = [] \<Longrightarrow>
     subseq (milestones (last (s # ss))) (s # ss)"
proof (induction ss rule: rev_induct)
  case (snoc t ss)
  let ?p = "s # ss"
  from snoc.prems have path: "successively state_step ?p" and step: "state_step (last ?p) t"
    by (auto simp: successively_append_iff simp flip: append_Cons)
  from snoc.IH [OF path snoc.prems(2)] have IH: "subseq (milestones (last ?p)) ?p" .
  from milestones_step [OF step] consider
      "milestones t = milestones (last ?p)" | "milestones t = milestones (last ?p) @ [t]"
    | "milestones t = []" by blast
  then have "subseq (milestones t) (?p @ [t])"
  proof cases
    case 1
    with IH show ?thesis by (metis list_emb_append2 list_emb_prefix append_Nil2)
  next
    case 2
    with IH show ?thesis by (metis list_emb_append_mono subseq_order.refl)
  qed simp
  then show ?case by simp
qed simp

end
