(* ===== verification/Action.thy ===== *)
theory Action
  imports Prelude
begin

text \<open>
  Stateful fallible code: an action maps a state to a result and the new state.  The state is
  kept when a step fails, as Rust's early return keeps what was already mutated.  An invariant of
  the state is carried through a whole operation by the rules collected in \<open>keeps_intros\<close>.
\<close>

type_synonym ('s, 'e, 'a) act = "'s \<Rightarrow> ('e + 'a) \<times> 's"

definition ret :: "'a \<Rightarrow> ('s, 'e, 'a) act" where
  "ret x s = (Inr x, s)"

definition throw :: "'e \<Rightarrow> ('s, 'e, 'a) act" where
  "throw e s = (Inl e, s)"

definition act_bind :: "('s, 'e, 'a) act \<Rightarrow> ('a \<Rightarrow> ('s, 'e, 'b) act) \<Rightarrow> ('s, 'e, 'b) act" where
  "act_bind m f s = (case m s of (Inl e, s') \<Rightarrow> (Inl e, s') | (Inr x, s') \<Rightarrow> f x s')"

definition lift_result :: "'e + 'a \<Rightarrow> ('s, 'e, 'a) act" where
  "lift_result r s = (r, s)"

definition act_map_err :: "('e \<Rightarrow> 'f) \<Rightarrow> ('s, 'e, 'a) act \<Rightarrow> ('s, 'f, 'a) act" where
  "act_map_err f m s = (case m s of (r, s') \<Rightarrow> (map_err f r, s'))"

definition get_state :: "('s, 'e, 's) act" where
  "get_state s = (Inr s, s)"

definition modify_state :: "('s \<Rightarrow> 's) \<Rightarrow> ('s, 'e, unit) act" where
  "modify_state f s = (Inr (), f s)"

fun act_for :: "'a list \<Rightarrow> ('a \<Rightarrow> ('s, 'e, unit) act) \<Rightarrow> ('s, 'e, unit) act" where
  "act_for [] f = ret ()"
| "act_for (x # xs) f = act_bind (f x) (\<lambda>_. act_for xs f)"

named_theorems act_simps \<open>unfolding of actions on a given state\<close>

lemma ret_apply [act_simps]: "ret x s = (Inr x, s)" by (simp add: ret_def)
lemma throw_apply [act_simps]: "throw e s = (Inl e, s)" by (simp add: throw_def)
lemma lift_result_apply [act_simps]: "lift_result r s = (r, s)" by (simp add: lift_result_def)
lemma get_state_apply [act_simps]: "get_state s = (Inr s, s)" by (simp add: get_state_def)
lemma modify_state_apply [act_simps]: "modify_state f s = (Inr (), f s)"
  by (simp add: modify_state_def)

lemma act_bind_Inr: "m s = (Inr x, s') \<Longrightarrow> act_bind m f s = f x s'"
  by (simp add: act_bind_def)

lemma act_bind_Inl: "m s = (Inl e, s') \<Longrightarrow> act_bind m f s = (Inl e, s')"
  by (simp add: act_bind_def)

lemma act_bind_ok [act_simps]:
  "act_bind m f s = (Inr y, t) \<longleftrightarrow> (\<exists>x s'. m s = (Inr x, s') \<and> f x s' = (Inr y, t))"
  by (auto simp: act_bind_def split: prod.splits sum.splits)

lemma act_bind_split:
  "act_bind m f s = (r, t) \<longleftrightarrow>
     (\<exists>e. m s = (Inl e, t) \<and> r = Inl e) \<or> (\<exists>x s'. m s = (Inr x, s') \<and> f x s' = (r, t))"
  by (auto simp: act_bind_def split: prod.splits sum.splits)

lemma act_map_err_ok [act_simps]: "act_map_err f m s = (Inr y, t) \<longleftrightarrow> m s = (Inr y, t)"
  by (auto simp: act_map_err_def result_simps split: prod.splits)

lemma act_map_err_split:
  "act_map_err f m s = (r, t) \<longleftrightarrow> (\<exists>r'. m s = (r', t) \<and> r = map_err f r')"
  by (auto simp: act_map_err_def split: prod.splits)

section \<open>Invariants of actions\<close>

definition keeps :: "('s \<Rightarrow> bool) \<Rightarrow> ('s, 'e, 'a) act \<Rightarrow> bool" where
  "keeps P m \<longleftrightarrow> (\<forall>s. P s \<longrightarrow> P (snd (m s)))"

named_theorems keeps_intros \<open>introduction rules for preserved invariants\<close>

lemma keepsI: "(\<And>s. P s \<Longrightarrow> P (snd (m s))) \<Longrightarrow> keeps P m"
  by (simp add: keeps_def)

lemma keepsD: "keeps P m \<Longrightarrow> P s \<Longrightarrow> m s = (r, t) \<Longrightarrow> P t"
  by (metis keeps_def snd_conv)

lemma keeps_ret [keeps_intros]: "keeps P (ret x)"
  by (simp add: keeps_def ret_def)

lemma keeps_throw [keeps_intros]: "keeps P (throw e)"
  by (simp add: keeps_def throw_def)

lemma keeps_lift_result [keeps_intros]: "keeps P (lift_result r)"
  by (simp add: keeps_def lift_result_def)

lemma keeps_get_state [keeps_intros]: "keeps P get_state"
  by (simp add: keeps_def get_state_def)

lemma keeps_modify_state: "(\<And>s. P s \<Longrightarrow> P (f s)) \<Longrightarrow> keeps P (modify_state f)"
  by (simp add: keeps_def modify_state_def)

lemma keeps_bind [keeps_intros]:
  "keeps P m \<Longrightarrow> (\<And>x. keeps P (f x)) \<Longrightarrow> keeps P (act_bind m f)"
  by (auto simp: keeps_def act_bind_def split: prod.splits sum.splits)

lemma keeps_map_err [keeps_intros]: "keeps P m \<Longrightarrow> keeps P (act_map_err g m)"
  by (auto simp: keeps_def act_map_err_def split: prod.splits)

lemma keeps_if [keeps_intros]:
  "(b \<Longrightarrow> keeps P m) \<Longrightarrow> (\<not> b \<Longrightarrow> keeps P n) \<Longrightarrow> keeps P (if b then m else n)"
  by simp

lemma keeps_case_option [keeps_intros]:
  "(x = None \<Longrightarrow> keeps P m) \<Longrightarrow> (\<And>y. x = Some y \<Longrightarrow> keeps P (f y)) \<Longrightarrow>
     keeps P (case x of None \<Rightarrow> m | Some y \<Rightarrow> f y)"
  by (cases x) auto

lemma keeps_case_sum [keeps_intros]:
  "(\<And>e. x = Inl e \<Longrightarrow> keeps P (f e)) \<Longrightarrow> (\<And>y. x = Inr y \<Longrightarrow> keeps P (g y)) \<Longrightarrow>
     keeps P (case x of Inl e \<Rightarrow> f e | Inr y \<Rightarrow> g y)"
  by (cases x) auto

lemma keeps_case_prod [keeps_intros]:
  "(\<And>a b. x = (a, b) \<Longrightarrow> keeps P (f a b)) \<Longrightarrow> keeps P (case x of (a, b) \<Rightarrow> f a b)"
  by (cases x) auto

lemma keeps_for [keeps_intros]: "(\<And>x. keeps P (f x)) \<Longrightarrow> keeps P (act_for xs f)"
  by (induction xs) (auto intro: keeps_intros)

section \<open>Pre- and postconditions\<close>

text \<open>\<open>triple P m Q E\<close>: from a state with \<open>P\<close>, \<open>m\<close> ends with a result in \<open>Q\<close> or an error in \<open>E\<close>.\<close>

definition triple ::
  "('s \<Rightarrow> bool) \<Rightarrow> ('s, 'e, 'a) act \<Rightarrow> ('a \<Rightarrow> 's \<Rightarrow> bool) \<Rightarrow> ('e \<Rightarrow> 's \<Rightarrow> bool) \<Rightarrow> bool" where
  "triple P m Q E \<longleftrightarrow>
     (\<forall>s. P s \<longrightarrow> (case m s of (Inl e, t) \<Rightarrow> E e t | (Inr x, t) \<Rightarrow> Q x t))"

named_theorems triple_intros \<open>rules of pre- and postconditions\<close>

lemma tripleI:
  "(\<And>s x t. P s \<Longrightarrow> m s = (Inr x, t) \<Longrightarrow> Q x t) \<Longrightarrow>
   (\<And>s e t. P s \<Longrightarrow> m s = (Inl e, t) \<Longrightarrow> E e t) \<Longrightarrow> triple P m Q E"
  by (auto simp: triple_def split: prod.splits sum.splits)

lemma tripleD:
  assumes "triple P m Q E" "P s" "m s = (r, t)"
  shows "case r of Inl e \<Rightarrow> E e t | Inr x \<Rightarrow> Q x t"
  using assms by (fastforce simp: triple_def)

lemma tripleD_Inr: "triple P m Q E \<Longrightarrow> P s \<Longrightarrow> m s = (Inr x, t) \<Longrightarrow> Q x t"
  by (drule (2) tripleD) simp

lemma tripleD_Inl: "triple P m Q E \<Longrightarrow> P s \<Longrightarrow> m s = (Inl e, t) \<Longrightarrow> E e t"
  by (drule (2) tripleD) simp

lemma triple_pre: "triple P' m Q E \<Longrightarrow> (\<And>s. P s \<Longrightarrow> P' s) \<Longrightarrow> triple P m Q E"
  by (auto simp: triple_def)

lemma triple_post:
  "triple P m Q' E' \<Longrightarrow> (\<And>x s. Q' x s \<Longrightarrow> Q x s) \<Longrightarrow> (\<And>e s. E' e s \<Longrightarrow> E e s) \<Longrightarrow> triple P m Q E"
  by (fastforce simp: triple_def split: prod.splits sum.splits)

lemma triple_bind [triple_intros]:
  "triple P m R E \<Longrightarrow> (\<And>x. triple (R x) (f x) Q E) \<Longrightarrow> triple P (act_bind m f) Q E"
  by (fastforce simp: triple_def act_bind_def split: prod.splits sum.splits)

lemma triple_ret [triple_intros]: "(\<And>s. P s \<Longrightarrow> Q x s) \<Longrightarrow> triple P (ret x) Q E"
  by (simp add: triple_def ret_def)

lemma triple_throw [triple_intros]: "(\<And>s. P s \<Longrightarrow> E e s) \<Longrightarrow> triple P (throw e) Q E"
  by (simp add: triple_def throw_def)

lemma triple_lift_result [triple_intros]:
  "(\<And>x s. r = Inr x \<Longrightarrow> P s \<Longrightarrow> Q x s) \<Longrightarrow> (\<And>e s. r = Inl e \<Longrightarrow> P s \<Longrightarrow> E e s) \<Longrightarrow>
     triple P (lift_result r) Q E"
  by (cases r) (auto simp: triple_def lift_result_def)

lemma triple_map_err [triple_intros]:
  "triple P m Q (\<lambda>e. E (f e)) \<Longrightarrow> triple P (act_map_err f m) Q E"
  by (fastforce simp: triple_def act_map_err_def map_err_def split: prod.splits sum.splits)

lemma triple_map_err_const: "triple P m Q (\<lambda>_. E) \<Longrightarrow> triple P (act_map_err f m) Q (\<lambda>_. E)"
  by (rule triple_map_err)

lemma triple_if [triple_intros]:
  "(b \<Longrightarrow> triple P m Q E) \<Longrightarrow> (\<not> b \<Longrightarrow> triple P n Q E) \<Longrightarrow> triple P (if b then m else n) Q E"
  by simp

lemma triple_case_option [triple_intros]:
  "(x = None \<Longrightarrow> triple P m Q E) \<Longrightarrow> (\<And>y. x = Some y \<Longrightarrow> triple P (f y) Q E) \<Longrightarrow>
     triple P (case x of None \<Rightarrow> m | Some y \<Rightarrow> f y) Q E"
  by (cases x) auto

lemma triple_case_sum [triple_intros]:
  "(\<And>e. x = Inl e \<Longrightarrow> triple P (f e) Q E) \<Longrightarrow> (\<And>y. x = Inr y \<Longrightarrow> triple P (g y) Q E) \<Longrightarrow>
     triple P (case x of Inl e \<Rightarrow> f e | Inr y \<Rightarrow> g y) Q E"
  by (cases x) auto

lemma triple_for [triple_intros]:
  "(\<And>x. x \<in> set xs \<Longrightarrow> triple P (f x) (\<lambda>_. P) E) \<Longrightarrow> triple P (act_for xs f) (\<lambda>_. P) E"
proof (induction xs)
  case (Cons x xs)
  then show ?case
    by (auto intro!: triple_bind [where R = "\<lambda>_. P"])
qed (simp add: triple_def ret_def)

lemma triple_fact: "(F \<Longrightarrow> triple P m Q E) \<Longrightarrow> triple (\<lambda>s. P s \<and> F) m Q E"
  by (auto simp: triple_def)

lemma triple_modify [triple_intros]: "(\<And>s. P s \<Longrightarrow> Q () (f s)) \<Longrightarrow> triple P (modify_state f) Q E"
  by (simp add: triple_def modify_state_def)

lemma triple_get_bind [triple_intros]:
  "(\<And>w. triple (\<lambda>s. P s \<and> s = w) (f w) Q E) \<Longrightarrow> triple P (act_bind get_state f) Q E"
  by (simp add: triple_def act_bind_def get_state_def)

lemma keeps_triple: "keeps P m \<longleftrightarrow> triple P m (\<lambda>_. P) (\<lambda>_. P)"
  unfolding keeps_def triple_def
  by (rule all_cong1, case_tac "m s") (auto split: sum.splits)

end
