(* ===== verification/Application.thy ===== *)
theory Application
  imports Download Action
begin

text \<open>
  The application contracts of \<open>crates/gunda-core/src/application\<close>: commands, events, errors, the
  repository and executor interfaces and the cancellation handle.  A trait is a record of its
  methods; what the manager relies on about a repository is the locale
  \<open>download_repository\<close>, which the storage theory interprets.
\<close>

section \<open>Commands\<close>

datatype command =
    CmdCreate new_download
  | CmdPause download_id
  | CmdResume download_id
  | CmdCancel download_id
  | CmdRetry download_id
  | CmdRestart download_id
  | CmdRemove download_id bool

datatype command_kind = CkCreate | CkPause | CkResume | CkCancel | CkRetry | CkRestart | CkRemove

fun cmd_kind :: "command \<Rightarrow> command_kind" where
  "cmd_kind (CmdCreate _) = CkCreate"
| "cmd_kind (CmdPause _) = CkPause"
| "cmd_kind (CmdResume _) = CkResume"
| "cmd_kind (CmdCancel _) = CkCancel"
| "cmd_kind (CmdRetry _) = CkRetry"
| "cmd_kind (CmdRestart _) = CkRestart"
| "cmd_kind (CmdRemove _ _) = CkRemove"

fun command_target_id :: "command \<Rightarrow> download_id option" where
  "command_target_id (CmdCreate _) = None"
| "command_target_id (CmdPause i) = Some i"
| "command_target_id (CmdResume i) = Some i"
| "command_target_id (CmdCancel i) = Some i"
| "command_target_id (CmdRetry i) = Some i"
| "command_target_id (CmdRestart i) = Some i"
| "command_target_id (CmdRemove i _) = Some i"

definition show_int :: "int \<Rightarrow> string" where
  "show_int i = (if i < 0 then CHR ''-'' # show_nat (nat (- i)) else show_nat (nat i))"

definition debug_id :: "download_id \<Rightarrow> string" where
  "debug_id i = ''DownloadId('' @ show_int (id_value i) @ '')''"

definition show_bool :: "bool \<Rightarrow> string" where
  "show_bool b = (if b then ''true'' else ''false'')"

fun command_debug :: "command \<Rightarrow> string" where
  "command_debug (CmdCreate _) = ''Create''"
| "command_debug (CmdPause i) = ''Pause('' @ debug_id i @ '')''"
| "command_debug (CmdResume i) = ''Resume('' @ debug_id i @ '')''"
| "command_debug (CmdCancel i) = ''Cancel('' @ debug_id i @ '')''"
| "command_debug (CmdRetry i) = ''Retry('' @ debug_id i @ '')''"
| "command_debug (CmdRestart i) = ''Restart('' @ debug_id i @ '')''"
| "command_debug (CmdRemove i d) =
     ''Remove { id: '' @ debug_id i @ '', delete_partial_data: '' @ show_bool d @ '' }''"

section \<open>Events\<close>

datatype event =
    EvCreated download_id
  | EvStateChanged download_id download_state download_state
  | EvProgressChanged download_id progress
  | EvCompleted download_id resolved_destination
  | EvFailed download_id download_failure
  | EvRemoved download_id

datatype event_kind =
  EkCreated | EkStateChanged | EkProgressChanged | EkCompleted | EkFailed | EkRemoved

fun ev_kind :: "event \<Rightarrow> event_kind" where
  "ev_kind (EvCreated _) = EkCreated"
| "ev_kind (EvStateChanged _ _ _) = EkStateChanged"
| "ev_kind (EvProgressChanged _ _) = EkProgressChanged"
| "ev_kind (EvCompleted _ _) = EkCompleted"
| "ev_kind (EvFailed _ _) = EkFailed"
| "ev_kind (EvRemoved _) = EkRemoved"

fun event_download_id :: "event \<Rightarrow> download_id" where
  "event_download_id (EvCreated i) = i"
| "event_download_id (EvStateChanged i _ _) = i"
| "event_download_id (EvProgressChanged i _) = i"
| "event_download_id (EvCompleted i _) = i"
| "event_download_id (EvFailed i _) = i"
| "event_download_id (EvRemoved i) = i"

section \<open>Errors\<close>

datatype repository_error_kind =
    RkUnavailable | RkInvalidData | RkConstraintViolation | RkSensitiveDataUnsupported
  | RkInternal | RkNotFound

datatype repository_error =
  RepositoryError (re_kind: repository_error_kind) (re_message: string)

datatype manager_error =
    MeNotFound download_id
  | MeInvalidOperation download_id command_kind download_state
  | MeRepository repository_error
  | MeInvalidExecutionState download_id download_state
  | MeCompletionNotPersisted download_id resolved_destination u64 bool repository_error

fun manager_error_display :: "manager_error \<Rightarrow> string" where
  "manager_error_display (MeNotFound _) = ''download does not exist''"
| "manager_error_display (MeInvalidOperation _ _ _) =
     ''operation is not supported in the current download state''"
| "manager_error_display (MeRepository _) = ''download persistence operation failed''"
| "manager_error_display (MeInvalidExecutionState _ _) =
     ''download must be queued before execution''"
| "manager_error_display (MeCompletionNotPersisted _ _ _ _ _) =
     ''output was published but completion was not persisted''"

section \<open>Cancellation\<close>

datatype control_request = ReqPause | ReqCancel

record cancellation =
  requested :: "control_request option"
  pause_supported :: bool

definition cancellation_new :: cancellation where
  "cancellation_new = \<lparr>requested = None, pause_supported = False\<rparr>"

definition request_cancel :: "cancellation \<Rightarrow> cancellation" where
  "request_cancel c = c\<lparr>requested := Some ReqCancel\<rparr>"

definition request_pause :: "cancellation \<Rightarrow> bool \<times> cancellation" where
  "request_pause c =
     (if \<not> pause_supported c then (False, c)
      else if requested c = None then (True, c\<lparr>requested := Some ReqPause\<rparr>)
      else (False, c))"

definition set_pause_supported :: "bool \<Rightarrow> cancellation \<Rightarrow> cancellation" where
  "set_pause_supported b c = c\<lparr>pause_supported := b\<rparr>"

definition request_kind :: "cancellation \<Rightarrow> control_request option" where
  "request_kind c = requested c"

definition is_requested :: "cancellation \<Rightarrow> bool" where
  "is_requested c = (request_kind c \<noteq> None)"

text \<open>What another holder of the handle can do to it between two reads of the manager.\<close>

datatype control_op = OpCancel | OpPause

fun control_apply :: "control_op \<Rightarrow> cancellation \<Rightarrow> cancellation" where
  "control_apply OpCancel c = request_cancel c"
| "control_apply OpPause c = snd (request_pause c)"

lemma cancel_request_sticks:
  "requested c = Some ReqCancel \<Longrightarrow> requested (fold control_apply ops c) = Some ReqCancel"
proof (induction ops arbitrary: c)
  case (Cons a ops)
  then have "requested (control_apply a c) = Some ReqCancel"
    by (cases a) (auto simp: request_cancel_def request_pause_def)
  then show ?case by (simp add: Cons.IH)
qed simp

lemma request_never_withdrawn:
  "requested c \<noteq> None \<Longrightarrow> requested (fold control_apply ops c) \<noteq> None"
proof (induction ops arbitrary: c)
  case (Cons a ops)
  then have "requested (control_apply a c) \<noteq> None"
    by (cases a) (auto simp: request_cancel_def request_pause_def)
  then show ?case by (simp only: fold_simps comp_apply Cons.IH) (rule Cons.IH)
qed simp

lemma pause_needs_support:
  "\<not> pause_supported c \<Longrightarrow> requested c = None \<Longrightarrow>
     requested (fold control_apply ops c) \<noteq> Some ReqPause"
proof (induction ops arbitrary: c)
  case (Cons a ops)
  show ?case
  proof (cases a)
    case OpCancel
    then have "requested (fold control_apply ops (control_apply a c)) = Some ReqCancel"
      by (intro cancel_request_sticks) (simp add: request_cancel_def)
    then show ?thesis by simp
  next
    case OpPause
    with Cons show ?thesis by (simp add: request_pause_def)
  qed
qed simp

section \<open>Repository and executor interfaces\<close>

record 'r repository_ops =
  repo_create :: "'r \<Rightarrow> new_download \<Rightarrow> timestamp \<Rightarrow> (repository_error + download_job) \<times> 'r"
  repo_find_by_id :: "'r \<Rightarrow> download_id \<Rightarrow> (repository_error + download_job option) \<times> 'r"
  repo_list :: "'r \<Rightarrow> (repository_error + download_job list) \<times> 'r"
  repo_save :: "'r \<Rightarrow> download_job \<Rightarrow> (repository_error + download_job) \<times> 'r"

record execution_input =
  in_id :: download_id
  in_request :: request_context
  in_destination :: destination
  in_progress :: progress
  in_resource :: "resource_descriptor option"
  in_resolved :: "resolved_destination option"

record execution_output =
  out_destination :: resolved_destination
  out_written :: u64
  out_cleanup_pending :: bool

record staged_transfer =
  staged_written :: u64
  staged_finalize :: "download_failure + execution_output"

datatype transfer_outcome = Finished staged_transfer | Stopped u64

text \<open>
  A transfer as the manager observes it: what the progress channel received before each checkpoint
  tick (\<open>None\<close> when nothing new was reported), what it received after the last tick, and the result.
\<close>

record transfer_run =
  run_ticks :: "u64 option list"
  run_last :: "u64 option"
  run_result :: "download_failure + transfer_outcome"

record prepared_transfer =
  prep_resource :: resource_descriptor
  prep_total_bytes :: "u64 option"
  prep_total_is_estimated :: bool
  prep_starting_bytes :: u64
  prep_supports_pause :: bool
  prep_may_rewind :: bool
  prep_destination :: resolved_destination
  prep_run :: transfer_run

record execution_report =
  rep_event :: event
  rep_cleanup_pending :: bool

type_synonym executor = "execution_input \<Rightarrow> download_failure + prepared_transfer"

text \<open>
  What the trait documents and the manager relies on: a failed operation leaves the stored jobs as
  they were, a successful \<open>save\<close> replaces exactly one existing job and never its creation metadata,
  \<open>create\<close> assigns a fresh identifier, and \<open>list\<close> returns every job in ascending order.
\<close>

locale download_repository =
  fixes R :: "'r repository_ops"
    and stored :: "'r \<Rightarrow> download_id \<Rightarrow> download_job option"
    and valid :: "'r \<Rightarrow> bool"
    and admissible :: "new_download \<Rightarrow> bool"
  assumes stored_key: "valid r \<Longrightarrow> stored r i = Some j \<Longrightarrow> job_id j = i \<and> job_wf j"
    and save_error: "valid r \<Longrightarrow> repo_save R r j = (Inl e, r') \<Longrightarrow> valid r' \<and> stored r' = stored r"
    and save_ok: "valid r \<Longrightarrow> job_wf j \<Longrightarrow> repo_save R r j = (Inr p, r') \<Longrightarrow>
      valid r' \<and> stored r' = (stored r)(job_id j \<mapsto> p) \<and>
      (\<exists>old. stored r (job_id j) = Some old \<and>
         p = j\<lparr>job_created_at := job_created_at old, job_updated_at := job_updated_at p\<rparr> \<and>
         job_request old = job_request j \<and> job_origin old = job_origin j \<and>
         job_destination old = job_destination j)"
    and create_error: "valid r \<Longrightarrow> admissible d \<Longrightarrow> repo_create R r d t = (Inl e, r') \<Longrightarrow>
      valid r' \<and> stored r' = stored r"
    and create_ok: "valid r \<Longrightarrow> admissible d \<Longrightarrow> repo_create R r d t = (Inr j, r') \<Longrightarrow>
      valid r' \<and> stored r (job_id j) = None \<and> stored r' = (stored r)(job_id j \<mapsto> j) \<and>
      (\<exists>u. j = job_new (job_id j) d u)"
    and list_state: "valid r \<Longrightarrow> repo_list R r = (res, r') \<Longrightarrow> valid r' \<and> stored r' = stored r"
    and list_ok: "valid r \<Longrightarrow> repo_list R r = (Inr js, r') \<Longrightarrow>
      sorted_wrt (<) (map job_id js) \<and> (\<forall>j. j \<in> set js \<longleftrightarrow> stored r (job_id j) = Some j)"
    and find_state: "valid r \<Longrightarrow> repo_find_by_id R r i = (found_res, r') \<Longrightarrow>
      valid r' \<and> stored r' = stored r"
    and find_ok: "valid r \<Longrightarrow> repo_find_by_id R r i = (Inr found, r') \<Longrightarrow> found = stored r i"
begin

lemma save_keeps_other:
  "valid r \<Longrightarrow> job_wf j \<Longrightarrow> repo_save R r j = (res, r') \<Longrightarrow> i \<noteq> job_id j \<Longrightarrow> stored r' i = stored r i"
  using save_error [of r j _ r'] save_ok [of r j _ r'] by (cases res) fastforce+

lemma save_valid: "valid r \<Longrightarrow> job_wf j \<Longrightarrow> repo_save R r j = (res, r') \<Longrightarrow> valid r'"
  using save_error [of r j _ r'] save_ok [of r j _ r'] by (cases res) fastforce+

lemma create_valid: "valid r \<Longrightarrow> admissible d \<Longrightarrow> repo_create R r d t = (res, r') \<Longrightarrow> valid r'"
  using create_error [of r d t _ r'] create_ok [of r d t _ r'] by (cases res) fastforce+

text \<open>A job that keeps its stored creation metadata comes back with its update time normalised only.\<close>

lemma save_roundtrip:
  assumes "valid r" "job_wf j" "repo_save R r j = (Inr p, r')" "stored r (job_id j) = Some old"
    "job_created_at j = job_created_at old"
  shows "p = j\<lparr>job_updated_at := job_updated_at p\<rparr>"
  using save_ok [OF assms(1-3)] assms(4,5) by (cases p; cases j) auto

end

end
