(* ===== verification/Manager.thy ===== *)
theory Manager
  imports Application
begin

text \<open>
  \<open>DownloadManager\<close> of \<open>crates/gunda-core/src/application/manager.rs\<close> over an arbitrary repository:
  the registry of jobs, the idle commands, and the execution of a queued job through inspection,
  transfer with checkpoints, publication and completion.  An execution does not hold the write lock
  between its saves, so other calls of the manager and requests on its cancellation handle may
  happen wherever \<open>yield_point\<close> stands; the environment says which ones do.
\<close>

section \<open>State and environment\<close>

record 'r manager =
  mgr_repo :: 'r
  mgr_jobs :: "(download_id, download_job) btree"
  mgr_clock :: nat
  mgr_points :: nat
  mgr_cancel :: cancellation
  mgr_observed :: "(event \<times> download_job) list"

text \<open>Calls another client of the same manager can make.\<close>

datatype manager_call =
    CallCreate new_download
  | CallIdle command_kind download_id

fun call_target :: "manager_call \<Rightarrow> download_id option" where
  "call_target (CallCreate _) = None"
| "call_target (CallIdle _ i) = Some i"

record 'r manager_env =
  env_repo :: "'r repository_ops"
  env_now :: "nat \<Rightarrow> timestamp"
  env_control :: "nat \<Rightarrow> control_op list"
  env_calls :: "nat \<Rightarrow> manager_call list"

definition invalid_repository_data :: "string \<Rightarrow> repository_error" where
  "invalid_repository_data m = RepositoryError RkInvalidData m"

definition now_utc :: "'r manager_env \<Rightarrow> ('r manager, 'e, timestamp) act" where
  "now_utc env w = (Inr (env_now env (mgr_clock w)), w\<lparr>mgr_clock := Suc (mgr_clock w)\<rparr>)"

definition with_repo ::
  "('r \<Rightarrow> (repository_error + 'a) \<times> 'r) \<Rightarrow> ('r manager, repository_error, 'a) act" where
  "with_repo f w = (case f (mgr_repo w) of (res, r) \<Rightarrow> (res, w\<lparr>mgr_repo := r\<rparr>))"

definition observe :: "event \<Rightarrow> download_job \<Rightarrow> ('r manager, 'e, unit) act" where
  "observe ev j = modify_state (\<lambda>w. w\<lparr>mgr_observed := mgr_observed w @ [(ev, j)]\<rparr>)"

definition manager_job :: "'r manager \<Rightarrow> download_id \<Rightarrow> download_job option" where
  "manager_job w i = bt_get (mgr_jobs w) i"

definition manager_jobs :: "'r manager \<Rightarrow> download_job list" where
  "manager_jobs w = bt_values (mgr_jobs w)"

definition manager_len :: "'r manager \<Rightarrow> nat" where
  "manager_len w = length (mgr_jobs w)"

definition manager_is_empty :: "'r manager \<Rightarrow> bool" where
  "manager_is_empty w = (mgr_jobs w = [])"

definition job_or :: "'e \<Rightarrow> download_id \<Rightarrow> ('r manager, 'e, download_job) act" where
  "job_or e i = act_bind get_state (\<lambda>w. lift_result (ok_or e (manager_job w i)))"

section \<open>Saving and the idle commands\<close>

definition save_job_locked ::
  "'r manager_env \<Rightarrow> download_job \<Rightarrow> ('r manager, repository_error, download_job) act" where
  "save_job_locked env candidate =
     act_bind (with_repo (\<lambda>r. repo_save (env_repo env) r candidate)) (\<lambda>persisted.
     let expected = (job_take_snapshot candidate)\<lparr>snap_updated_at := job_updated_at persisted\<rparr> in
     if job_take_snapshot persisted \<noteq> expected then
       throw (invalid_repository_data ''repository returned an inconsistent updated download'')
     else
       act_bind (modify_state (\<lambda>w. w\<lparr>mgr_jobs := bt_insert (job_id candidate) persisted (mgr_jobs w)\<rparr>))
         (\<lambda>_. ret persisted))"

definition manager_create ::
  "'r manager_env \<Rightarrow> new_download \<Rightarrow> ('r manager, repository_error, event) act" where
  "manager_create env d =
     act_bind (now_utc env) (\<lambda>created_at.
     act_bind (with_repo (\<lambda>r. repo_create (env_repo env) r d created_at)) (\<lambda>job.
     act_bind get_state (\<lambda>w.
     if bt_get (mgr_jobs w) (job_id job) \<noteq> None then
       throw (invalid_repository_data ''repository returned an existing download ID'')
     else
       act_bind (modify_state (\<lambda>w. w\<lparr>mgr_jobs := bt_insert (job_id job) job (mgr_jobs w)\<rparr>))
         (\<lambda>_. ret (EvCreated (job_id job))))))"

definition idle_target :: "command_kind \<Rightarrow> download_job \<Rightarrow> download_state option" where
  "idle_target command current =
     (if command = CkPause \<and> job_state current = Queued then Some Paused
      else if command = CkResume \<and> (job_state current = Paused \<or> job_state current = Interrupted)
      then Some Queued
      else if command = CkRetry \<and> job_state current = Failed \<and>
        (case job_failure current of Some f \<Rightarrow> failure_retryable f | None \<Rightarrow> False)
      then Some Queued
      else if command = CkRestart \<and> can_restart (job_state current) then Some Queued
      else if command = CkCancel \<and> (job_state current = Queued \<or> job_state current = Paused)
      then Some Cancelled
      else None)"

definition change_idle_state ::
  "'r manager_env \<Rightarrow> download_id \<Rightarrow> command_kind \<Rightarrow> ('r manager, manager_error, event) act" where
  "change_idle_state env i command =
     act_bind (job_or (MeNotFound i) i) (\<lambda>current.
     let previous = job_state current in
     case idle_target command current of
       None \<Rightarrow> throw (MeInvalidOperation i command previous)
     | Some next \<Rightarrow>
         act_bind (now_utc env) (\<lambda>updated_at.
         act_bind (lift_result (map_err (\<lambda>_. MeInvalidOperation i command previous)
                     (if command = CkRestart then job_restart current updated_at
                      else transition_to current next updated_at))) (\<lambda>candidate.
         act_bind (act_map_err MeRepository (save_job_locked env candidate)) (\<lambda>_.
         ret (EvStateChanged i previous next)))))"

definition manager_pause where "manager_pause env i = change_idle_state env i CkPause"
definition manager_resume where "manager_resume env i = change_idle_state env i CkResume"
definition manager_retry where "manager_retry env i = change_idle_state env i CkRetry"
definition manager_restart where "manager_restart env i = change_idle_state env i CkRestart"
definition manager_cancel where "manager_cancel env i = change_idle_state env i CkCancel"

text \<open>A call of another client: its result goes to that client.\<close>

fun run_call :: "'r manager_env \<Rightarrow> manager_call \<Rightarrow> 'r manager \<Rightarrow> 'r manager" where
  "run_call env (CallCreate d) w = snd (manager_create env d w)"
| "run_call env (CallIdle command i) w = snd (change_idle_state env i command w)"

definition yield_point :: "'r manager_env \<Rightarrow> ('r manager, 'e, unit) act" where
  "yield_point env = modify_state (\<lambda>w.
     let n = mgr_points w;
         w = w\<lparr>mgr_points := Suc n, mgr_cancel := fold control_apply (env_control env n) (mgr_cancel w)\<rparr>
     in fold (run_call env) (env_calls env n) w)"

definition commit_job ::
  "'r manager_env \<Rightarrow> download_job \<Rightarrow> ('r manager, repository_error, download_job) act" where
  "commit_job env candidate = act_bind (yield_point env) (\<lambda>_. save_job_locked env candidate)"

definition read_request ::
  "'r manager_env \<Rightarrow> ('r manager, 'e, control_request option) act" where
  "read_request env =
     act_bind (yield_point env) (\<lambda>_. act_bind get_state (\<lambda>w. ret (request_kind (mgr_cancel w))))"

section \<open>Start\<close>

fun load_jobs ::
  "download_job list \<Rightarrow> (download_id, download_job) btree \<Rightarrow>
     repository_error + (download_id, download_job) btree" where
  "load_jobs [] m = Inr m"
| "load_jobs (j # js) m =
     (if bt_get m (job_id j) \<noteq> None then
        Inl (invalid_repository_data ''repository returned duplicate download IDs'')
      else load_jobs js (bt_insert (job_id j) j m))"

definition interrupt_job ::
  "'r manager_env \<Rightarrow> timestamp \<Rightarrow> download_job \<Rightarrow> ('r manager, repository_error, unit) act" where
  "interrupt_job env recovered_at job =
     (let updated_at = max recovered_at (job_updated_at job) in
     act_bind (lift_result (map_err
         (\<lambda>_. invalid_repository_data ''persisted execution state cannot become interrupted'')
         (transition_to job Interrupted updated_at))) (\<lambda>job.
     act_bind (commit_job env job) (\<lambda>_. ret ())))"

definition manager_start :: "'r manager_env \<Rightarrow> ('r manager, repository_error, unit) act" where
  "manager_start env =
     act_bind (with_repo (repo_list (env_repo env))) (\<lambda>persisted_jobs.
     act_bind (lift_result (load_jobs persisted_jobs [])) (\<lambda>jobs.
     act_bind (modify_state (\<lambda>w. w\<lparr>mgr_jobs := jobs\<rparr>)) (\<lambda>_.
     let interrupted_jobs =
       filter (\<lambda>job. requires_recovery_after_restart (job_state job)) (bt_values jobs) in
     act_bind (now_utc env) (\<lambda>recovered_at.
     act_for interrupted_jobs (interrupt_job (env\<lparr>env_calls := \<lambda>_. []\<rparr>) recovered_at)))))"

section \<open>Progress of an execution\<close>

definition validated_execution_progress ::
  "download_job \<Rightarrow> u64 \<Rightarrow> repository_error + progress" where
  "validated_execution_progress job written =
     (if written < downloaded_bytes (job_progress job) then
        Inl (invalid_repository_data ''executor progress moved backwards'')
      else map_err (\<lambda>_. invalid_repository_data ''executor returned invalid progress'')
             (progress_new written (total_bytes (job_progress job))))"

definition execution_progress ::
  "download_job \<Rightarrow> u64 \<Rightarrow> bool \<Rightarrow> repository_error + progress" where
  "execution_progress job written total_is_estimated =
     (if written < downloaded_bytes (job_progress job) then
        Inl (invalid_repository_data ''executor progress moved backwards'')
      else
        let tot =
          (if total_is_estimated then
             Some (max (case total_bytes (job_progress job) of Some t \<Rightarrow> t | None \<Rightarrow> 0) written)
           else total_bytes (job_progress job))
        in map_err (\<lambda>_. invalid_repository_data ''executor returned invalid progress'')
             (progress_new written tot))"

definition stopped_execution_progress ::
  "download_job \<Rightarrow> u64 \<Rightarrow> bool \<Rightarrow> bool \<Rightarrow> repository_error + progress" where
  "stopped_execution_progress job written total_is_estimated may_rewind =
     (if \<not> may_rewind then execution_progress job written total_is_estimated
      else
        let tot =
          (if total_is_estimated then
             map_option (\<lambda>t. max t written) (total_bytes (job_progress job))
           else total_bytes (job_progress job))
        in map_err (\<lambda>_. invalid_repository_data ''executor returned invalid stopped progress'')
             (progress_new written tot))"

definition execution_transition ::
  "'r manager_env \<Rightarrow> download_job \<Rightarrow> download_state \<Rightarrow>
     ('r manager, repository_error, download_job) act" where
  "execution_transition env job next =
     act_bind (now_utc env) (\<lambda>t.
     lift_result (map_err
       (\<lambda>_. invalid_repository_data ''execution requested an invalid lifecycle transition'')
       (transition_to job next t)))"

definition checkpoint_progress ::
  "'r manager_env \<Rightarrow> download_job \<Rightarrow> u64 \<Rightarrow> bool \<Rightarrow>
     ('r manager, repository_error, download_job) act" where
  "checkpoint_progress env job written total_is_estimated =
     act_bind (lift_result (execution_progress job written total_is_estimated)) (\<lambda>progress.
     if progress = job_progress job then ret job
     else
       act_bind (now_utc env) (\<lambda>t.
       act_bind (commit_job env (update_progress job progress t)) (\<lambda>job.
       act_bind (observe (EvProgressChanged (job_id job) (job_progress job)) job) (\<lambda>_.
       ret job))))"

section \<open>The ends of an execution\<close>

definition confirm_published_output ::
  "'r manager_env \<Rightarrow> download_id \<Rightarrow> execution_output \<Rightarrow> ('r manager, repository_error, event) act" where
  "confirm_published_output env i out =
     act_bind (job_or (RepositoryError RkNotFound ''published download does not exist'') i) (\<lambda>job.
     if job_state job \<noteq> Finalizing \<or> downloaded_bytes (job_progress job) \<noteq> out_written out then
       throw (invalid_repository_data ''published output does not match the finalizing job'')
     else
       act_bind (now_utc env) (\<lambda>updated_at.
       act_bind (lift_result (map_err
           (\<lambda>_. invalid_repository_data ''published job cannot be completed'')
           (transition_to (resolve_destination job (out_destination out) updated_at) Completed
              updated_at))) (\<lambda>job.
       act_bind (commit_job env job) (\<lambda>_.
       ret (EvCompleted i (out_destination out))))))"

definition record_execution_failure ::
  "'r manager_env \<Rightarrow> download_id \<Rightarrow> download_failure \<Rightarrow>
     ('r manager, manager_error, execution_report) act" where
  "record_execution_failure env i failure =
     act_bind (job_or (MeNotFound i) i) (\<lambda>job.
     act_bind (now_utc env) (\<lambda>t.
     act_bind (lift_result (map_err
         (\<lambda>_. MeRepository (invalid_repository_data
            ''execution failure cannot be applied to the current state''))
         (job_fail job failure t))) (\<lambda>job.
     act_bind (act_map_err MeRepository (commit_job env job)) (\<lambda>_.
     ret \<lparr>rep_event = EvFailed i failure, rep_cleanup_pending = False\<rparr>))))"

fun request_state :: "control_request \<Rightarrow> download_state" where
  "request_state ReqPause = Paused"
| "request_state ReqCancel = Cancelled"

definition stop_progress ::
  "'r manager_env \<Rightarrow> download_job \<Rightarrow> u64 option \<Rightarrow> bool \<Rightarrow> bool \<Rightarrow>
     ('r manager, repository_error, download_job) act" where
  "stop_progress env job written total_is_estimated may_rewind =
     (case written of
        None \<Rightarrow> ret job
      | Some n \<Rightarrow>
          act_bind (lift_result (stopped_execution_progress job n total_is_estimated may_rewind))
            (\<lambda>progress.
          act_bind (now_utc env) (\<lambda>t. ret (update_progress job progress t))))"

definition record_execution_stop ::
  "'r manager_env \<Rightarrow> download_job \<Rightarrow> u64 option \<Rightarrow> control_request \<Rightarrow> bool \<Rightarrow> bool \<Rightarrow>
     ('r manager, manager_error, execution_report) act" where
  "record_execution_stop env job written request total_is_estimated may_rewind =
     (let i = job_id job; previous = job_state job; state = request_state request in
     act_bind (job_or (MeNotFound i) i) (\<lambda>persisted_before.
     act_bind (act_map_err MeRepository (stop_progress env job written total_is_estimated may_rewind))
       (\<lambda>job.
     act_bind (act_map_err MeRepository (execution_transition env job state)) (\<lambda>job.
     act_bind (act_map_err MeRepository (commit_job env job)) (\<lambda>persisted.
     act_bind (if job_progress persisted \<noteq> job_progress persisted_before
               then observe (EvProgressChanged i (job_progress persisted)) persisted
               else ret ()) (\<lambda>_.
     ret \<lparr>rep_event = EvStateChanged i previous state, rep_cleanup_pending = False\<rparr>))))))"

section \<open>Execution\<close>

text \<open>
  The transfer loop: one checkpoint per tick, each with the count last reported; it returns the
  job as checkpointed and the last reported count.
\<close>

fun transfer_loop ::
  "'r manager_env \<Rightarrow> bool \<Rightarrow> u64 option list \<Rightarrow> u64 \<Rightarrow> download_job \<Rightarrow>
     ('r manager, repository_error, download_job \<times> u64) act" where
  "transfer_loop env est [] reported job = ret (job, reported)"
| "transfer_loop env est (tick # ticks) reported job =
     (let reported = (case tick of Some n \<Rightarrow> n | None \<Rightarrow> reported) in
     act_bind (yield_point env) (\<lambda>_.
     act_bind (checkpoint_progress env job reported est) (\<lambda>job.
     transfer_loop env est ticks reported job)))"

definition completion_error ::
  "download_id \<Rightarrow> execution_output \<Rightarrow> repository_error \<Rightarrow> manager_error" where
  "completion_error i out e =
     MeCompletionNotPersisted i (out_destination out) (out_written out) (out_cleanup_pending out) e"

definition execute_publication ::
  "'r manager_env \<Rightarrow> download_id \<Rightarrow> staged_transfer \<Rightarrow>
     ('r manager, manager_error, execution_report) act" where
  "execute_publication env i staged =
     act_bind (yield_point env) (\<lambda>_.
     case staged_finalize staged of
       Inl failure \<Rightarrow> record_execution_failure env i failure
     | Inr out \<Rightarrow>
         if out_written out \<noteq> staged_written staged then
           throw (completion_error i out
             (invalid_repository_data ''executor returned inconsistent published output''))
         else
           act_bind (act_map_err (completion_error i out) (confirm_published_output env i out)) (\<lambda>ev.
           ret \<lparr>rep_event = ev, rep_cleanup_pending = out_cleanup_pending out\<rparr>))"

definition staged_progress ::
  "download_job \<Rightarrow> u64 \<Rightarrow> u64 option \<Rightarrow> bool \<Rightarrow> u64 \<Rightarrow> repository_error + progress" where
  "staged_progress job reported tot total_is_estimated written =
     (if written < reported then
        Inl (invalid_repository_data ''executor returned fewer bytes than previously reported'')
      else
        rbind (if total_is_estimated then
                 map_err (\<lambda>_. invalid_repository_data ''estimated progress is invalid'')
                   (progress_new written (Some written))
               else validated_execution_progress job written) (\<lambda>progress.
        if \<not> total_is_estimated \<and> (case tot of Some t \<Rightarrow> written \<noteq> t | None \<Rightarrow> False) then
          Inl (invalid_repository_data ''executor returned an incomplete staged transfer'')
        else Inr progress))"

definition execute_staged ::
  "'r manager_env \<Rightarrow> download_id \<Rightarrow> download_job \<Rightarrow> u64 \<Rightarrow> u64 option \<Rightarrow> bool \<Rightarrow> staged_transfer \<Rightarrow>
     ('r manager, manager_error, execution_report) act" where
  "execute_staged env i job reported tot total_is_estimated staged =
     (let written = staged_written staged in
     act_bind (lift_result (map_err MeRepository
                 (staged_progress job reported tot total_is_estimated written))) (\<lambda>progress.
     act_bind (read_request env) (\<lambda>request.
     case request of
       Some req \<Rightarrow> record_execution_stop env job (Some written) req total_is_estimated False
     | None \<Rightarrow>
         let progress_changed = (progress \<noteq> job_progress job) in
         act_bind (now_utc env) (\<lambda>t.
         act_bind (act_map_err MeRepository
                     (execution_transition env (update_progress job progress t) Finalizing)) (\<lambda>job.
         act_bind (act_map_err MeRepository (commit_job env job)) (\<lambda>job.
         act_bind (observe (EvStateChanged i Downloading Finalizing) job) (\<lambda>_.
         act_bind (if progress_changed then observe (EvProgressChanged i (job_progress job)) job
                   else ret ()) (\<lambda>_.
         execute_publication env i staged))))))))"

definition execute_stopped ::
  "'r manager_env \<Rightarrow> download_job \<Rightarrow> u64 \<Rightarrow> bool \<Rightarrow> bool \<Rightarrow> u64 \<Rightarrow>
     ('r manager, manager_error, execution_report) act" where
  "execute_stopped env job reported total_is_estimated may_rewind written =
     act_bind (read_request env) (\<lambda>request.
     case request of
       None \<Rightarrow> throw (MeRepository
         (invalid_repository_data ''executor stopped without a control request''))
     | Some req \<Rightarrow>
         if written < reported \<and> \<not> may_rewind then
           throw (MeRepository
             (invalid_repository_data ''executor returned inconsistent stopped progress''))
         else record_execution_stop env job (Some written) req total_is_estimated may_rewind)"

definition execute_transfer ::
  "'r manager_env \<Rightarrow> download_id \<Rightarrow> download_job \<Rightarrow> prepared_transfer \<Rightarrow>
     ('r manager, manager_error, execution_report) act" where
  "execute_transfer env i job prepared =
     (let run = prep_run prepared; est = prep_total_is_estimated prepared in
     act_bind (act_map_err MeRepository
       (transfer_loop env est (run_ticks run) (prep_starting_bytes prepared) job)) (\<lambda>(job, reported).
     let reported = (case run_last run of Some n \<Rightarrow> n | None \<Rightarrow> reported) in
     act_bind (lift_result (map_err MeRepository (execution_progress job reported est))) (\<lambda>_.
     case run_result run of
       Inr (Finished staged) \<Rightarrow>
         execute_staged env i job reported (prep_total_bytes prepared) est staged
     | Inr (Stopped written) \<Rightarrow>
         execute_stopped env job reported est (prep_may_rewind prepared) written
     | Inl failure \<Rightarrow>
         act_bind (act_map_err MeRepository (checkpoint_progress env job reported est)) (\<lambda>_.
         record_execution_failure env i failure))))"

definition execute_prepared ::
  "'r manager_env \<Rightarrow> download_id \<Rightarrow> download_job \<Rightarrow> prepared_transfer \<Rightarrow>
     ('r manager, manager_error, execution_report) act" where
  "execute_prepared env i job prepared =
     (let est = prep_total_is_estimated prepared in
     act_bind (modify_state (\<lambda>w.
       w\<lparr>mgr_cancel := set_pause_supported (prep_supports_pause prepared) (mgr_cancel w)\<rparr>)) (\<lambda>_.
     act_bind (lift_result (map_err
         (\<lambda>_. MeRepository (invalid_repository_data ''execution progress is invalid''))
         (progress_new (prep_starting_bytes prepared) (prep_total_bytes prepared)))) (\<lambda>initial.
     act_bind (now_utc env) (\<lambda>inspected_at.
     let job = resolve_destination (update_progress (set_resource job (prep_resource prepared)
                 inspected_at) initial inspected_at) (prep_destination prepared) inspected_at in
     act_bind (read_request env) (\<lambda>request.
     case request of
       Some req \<Rightarrow> record_execution_stop env job None req est False
     | None \<Rightarrow>
         act_bind (act_map_err MeRepository (execution_transition env job Downloading)) (\<lambda>job.
         act_bind (act_map_err MeRepository (commit_job env job)) (\<lambda>job.
         act_bind (observe (EvStateChanged i Inspecting Downloading) job) (\<lambda>_.
         execute_transfer env i job prepared))))))))"

definition execution_input_of :: "download_id \<Rightarrow> download_job \<Rightarrow> execution_input" where
  "execution_input_of i job =
     \<lparr>in_id = i, in_request = job_request job, in_destination = job_destination job,
      in_progress = job_progress job, in_resource = job_resource job,
      in_resolved = job_resolved job\<rparr>"

text \<open>\<open>cancellation.stopped()\<close> is polled before the preparation.\<close>

definition execute_inspection ::
  "'r manager_env \<Rightarrow> executor \<Rightarrow> download_id \<Rightarrow> download_job \<Rightarrow>
     ('r manager, manager_error, execution_report) act" where
  "execute_inspection env exec i job =
     act_bind (read_request env) (\<lambda>stopped.
     case stopped of
       Some req \<Rightarrow> record_execution_stop env job None req False False
     | None \<Rightarrow>
         (case exec (execution_input_of i job) of
            Inr prepared \<Rightarrow> execute_prepared env i job prepared
          | Inl failure \<Rightarrow> record_execution_failure env i failure))"

definition execute_inner ::
  "'r manager_env \<Rightarrow> executor \<Rightarrow> download_id \<Rightarrow> ('r manager, manager_error, execution_report) act" where
  "execute_inner env exec i =
     act_bind (job_or (MeNotFound i) i) (\<lambda>job.
     if job_state job \<noteq> Queued then throw (MeInvalidExecutionState i (job_state job))
     else
       act_bind (read_request env) (\<lambda>request.
       case request of
         Some req \<Rightarrow> record_execution_stop env job None req False False
       | None \<Rightarrow>
           act_bind (act_map_err MeRepository (execution_transition env job Inspecting)) (\<lambda>job.
           act_bind (act_map_err MeRepository (commit_job env job)) (\<lambda>job.
           execute_inspection env exec i job))))"

definition execute_controlled_with_updates ::
  "'r manager_env \<Rightarrow> executor \<Rightarrow> cancellation \<Rightarrow> download_id \<Rightarrow>
     ('r manager, manager_error, execution_report) act" where
  "execute_controlled_with_updates env exec handle i =
     act_bind (modify_state (\<lambda>w. w\<lparr>mgr_cancel := handle, mgr_observed := []\<rparr>)) (\<lambda>_.
     execute_inner env exec i)"

text \<open>\<open>execute\<close> and \<open>execute_with_progress\<close> keep the handle to themselves.\<close>

definition execute ::
  "'r manager_env \<Rightarrow> executor \<Rightarrow> download_id \<Rightarrow> ('r manager, manager_error, execution_report) act" where
  "execute env exec i =
     execute_controlled_with_updates (env\<lparr>env_control := \<lambda>_. []\<rparr>) exec cancellation_new i"

text \<open>What \<open>execute_with_progress\<close> and \<open>execute_controlled\<close> pass on to their observer.\<close>

definition progress_updates :: "'r manager \<Rightarrow> event list" where
  "progress_updates w = filter (\<lambda>ev. ev_kind ev = EkProgressChanged) (map fst (mgr_observed w))"

end
