(* ===== verification/Manager_Correct.thy ===== *)
theory Manager_Correct
  imports Manager
begin

text \<open>
  Correctness of the manager over any repository that keeps its contract: the registry and the
  store agree after every operation, whatever other clients do meanwhile; what an execution
  persists is reached by the public mutators of the job; and a report states what is stored.
\<close>

section \<open>The registry\<close>

definition coherent :: "('r \<Rightarrow> download_id \<Rightarrow> download_job option) \<Rightarrow> ('r \<Rightarrow> bool) \<Rightarrow> 'r manager \<Rightarrow> bool" where
  "coherent stored valid w \<longleftrightarrow>
     valid (mgr_repo w) \<and> bt_ordered (mgr_jobs w) \<and> bt_get (mgr_jobs w) = stored (mgr_repo w)"

text \<open>
  The client of a repository: what an execution of job \<open>i\<close> knows.  \<open>Hist r old\<close> says how the
  repository came to hold \<open>old\<close>, and \<open>Near old j\<close> how far the job in hand is from it.
\<close>

definition kept ::
  "('r \<Rightarrow> download_id \<Rightarrow> download_job option) \<Rightarrow> ('r \<Rightarrow> bool) \<Rightarrow> ('r \<Rightarrow> download_job \<Rightarrow> bool) \<Rightarrow>
     download_id \<Rightarrow> 'r manager \<Rightarrow> bool" where
  "kept stored valid Hist i w \<longleftrightarrow>
     coherent stored valid w \<and> (\<exists>old. stored (mgr_repo w) i = Some old \<and> Hist (mgr_repo w) old)"

definition tracks ::
  "('r \<Rightarrow> download_id \<Rightarrow> download_job option) \<Rightarrow> ('r \<Rightarrow> bool) \<Rightarrow> ('r \<Rightarrow> download_job \<Rightarrow> bool) \<Rightarrow>
     (download_job \<Rightarrow> download_job \<Rightarrow> bool) \<Rightarrow> download_id \<Rightarrow> download_job \<Rightarrow> 'r manager \<Rightarrow> bool" where
  "tracks stored valid Hist Near i j w \<longleftrightarrow>
     coherent stored valid w \<and> job_id j = i \<and> job_wf j \<and>
     (\<exists>old. stored (mgr_repo w) i = Some old \<and> Hist (mgr_repo w) old \<and> Near old j)"

lemma registry_fields [simp]:
  "coherent stored valid (w\<lparr>mgr_points := n\<rparr>) = coherent stored valid w"
  "coherent stored valid (w\<lparr>mgr_clock := n\<rparr>) = coherent stored valid w"
  "coherent stored valid (w\<lparr>mgr_cancel := c\<rparr>) = coherent stored valid w"
  "coherent stored valid (w\<lparr>mgr_observed := obs\<rparr>) = coherent stored valid w"
  by (simp_all add: coherent_def)

lemma tracks_fields [simp]:
  "tracks stored valid Hist Near i j (w\<lparr>mgr_points := n\<rparr>) = tracks stored valid Hist Near i j w"
  "tracks stored valid Hist Near i j (w\<lparr>mgr_clock := n\<rparr>) = tracks stored valid Hist Near i j w"
  "tracks stored valid Hist Near i j (w\<lparr>mgr_cancel := c\<rparr>) = tracks stored valid Hist Near i j w"
  "tracks stored valid Hist Near i j (w\<lparr>mgr_observed := obs\<rparr>) = tracks stored valid Hist Near i j w"
  by (simp_all add: tracks_def)

lemma kept_fields [simp]:
  "kept stored valid Hist i (w\<lparr>mgr_points := n\<rparr>) = kept stored valid Hist i w"
  "kept stored valid Hist i (w\<lparr>mgr_clock := n\<rparr>) = kept stored valid Hist i w"
  "kept stored valid Hist i (w\<lparr>mgr_cancel := c\<rparr>) = kept stored valid Hist i w"
  "kept stored valid Hist i (w\<lparr>mgr_observed := obs\<rparr>) = kept stored valid Hist i w"
  by (simp_all add: kept_def)

text \<open>Whether what a report says is what the store holds.\<close>

fun event_true :: "(download_id \<Rightarrow> download_job option) \<Rightarrow> event \<Rightarrow> bool" where
  "event_true m (EvCreated i) \<longleftrightarrow> m i \<noteq> None"
| "event_true m (EvStateChanged i _ s) \<longleftrightarrow> map_option job_state (m i) = Some s"
| "event_true m (EvProgressChanged i p) \<longleftrightarrow> map_option job_progress (m i) = Some p"
| "event_true m (EvCompleted i d) \<longleftrightarrow>
     (\<exists>j. m i = Some j \<and> job_state j = Completed \<and> job_resolved j = Some d)"
| "event_true m (EvFailed i f) \<longleftrightarrow>
     (\<exists>j. m i = Some j \<and> job_state j = Failed \<and> job_failure j = Some f)"
| "event_true m (EvRemoved i) \<longleftrightarrow> m i = None"

lemma map_eqI: "(\<And>i j. f i = Some j \<longleftrightarrow> g i = Some j) \<Longrightarrow> f = g"
  by (rule ext) (metis not_None_eq)

section \<open>Jobs\<close>

lemma job_wf_mutators [simp]:
  "job_wf (j\<lparr>job_updated_at := t\<rparr>) = job_wf j"
  "job_wf (set_resource j r t) = job_wf j"
  "job_wf (resolve_destination j d t) = job_wf j"
  "progress_wf p \<Longrightarrow> 0 < id_value (job_id j) \<Longrightarrow> job_wf (update_progress j p t)"
  by (auto simp: job_wf_def job_mutator_defs)

lemma job_id_mutators [simp]:
  "job_id (set_resource j r t) = job_id j" "job_id (resolve_destination j d t) = job_id j"
  "job_id (update_progress j p t) = job_id j"
  by (simp_all add: job_mutator_defs)

lemma job_step_touch: "job_wf j \<Longrightarrow> job_step j (j\<lparr>job_updated_at := t\<rparr>)"
  using job_step.step_progress [of "job_progress j" j t]
  by (simp add: job_wf_def update_progress_def)

lemma job_step_transition:
  "can_transition_to (job_state j) s \<Longrightarrow> job_step j (j\<lparr>job_state := s, job_updated_at := t\<rparr>)"
  by (rule step_transition) (simp add: transition_to_Inr)

lemma touched_identity: "p = j\<lparr>job_updated_at := t\<rparr> \<Longrightarrow> same_identity j p"
  by (simp add: same_identity_def)

lemma touched_fields:
  assumes "p = j\<lparr>job_updated_at := t\<rparr>"
  shows "job_state p = job_state j \<and> job_progress p = job_progress j \<and>
    job_resolved p = job_resolved j \<and> job_failure p = job_failure j \<and> job_id p = job_id j"
  using assms by simp

lemma snapshot_expected:
  "job_take_snapshot p = (job_take_snapshot j)\<lparr>snap_updated_at := t\<rparr> \<longleftrightarrow> p = j\<lparr>job_updated_at := t\<rparr>"
proof -
  have "(job_take_snapshot j)\<lparr>snap_updated_at := t\<rparr> = job_take_snapshot (j\<lparr>job_updated_at := t\<rparr>)"
    by (simp add: job_take_snapshot_def)
  then show ?thesis by simp
qed

lemma progress_new_wf: "progress_new d t = Inr p \<Longrightarrow> progress_wf p"
  by (auto simp: progress_new_Inr)

lemma execution_progress_wf: "execution_progress j n est = Inr p \<Longrightarrow> progress_wf p"
  by (auto simp: execution_progress_def map_err_eq_Inr Let_def split: if_splits dest: progress_new_wf)

lemma stopped_progress_wf: "stopped_execution_progress j n est rewind = Inr p \<Longrightarrow> progress_wf p"
  by (auto simp: stopped_execution_progress_def map_err_eq_Inr Let_def
      split: if_splits dest: progress_new_wf execution_progress_wf)

lemma staged_progress_wf: "staged_progress j reported tot est n = Inr p \<Longrightarrow> progress_wf p"
  by (auto simp: staged_progress_def validated_execution_progress_def map_err_eq_Inr rbind_eq_Inr
      split: if_splits dest: progress_new_wf)

text \<open>What a successful idle command has stored.\<close>

definition idle_outcome :: "command_kind \<Rightarrow> download_job \<Rightarrow> download_state \<Rightarrow> download_job \<Rightarrow> bool" where
  "idle_outcome command current next p \<longleftrightarrow>
     idle_target command current = Some next \<and>
     (\<exists>t. (if command = CkRestart then job_restart current t else transition_to current next t) = Inr p)"

lemma idle_outcome_idle:
  "idle_outcome command current next p \<Longrightarrow> \<not> requires_recovery_after_restart (job_state current)"
  by (cases "job_state current") (auto simp: idle_outcome_def idle_target_def split: if_splits)

lemma idle_outcome_step:
  "idle_outcome command current next p \<Longrightarrow> job_step current p \<and> job_state p = next"
  by (auto simp: idle_outcome_def result_simps idle_target_def split: if_splits
      intro: job_step.intros)

section \<open>A repository that keeps a journal\<close>

text \<open>
  Any repository, with a journal of the jobs it has saved, in order.  The journal is only written,
  so what the manager does over it is what it does over the repository.
\<close>

definition journalled :: "'r repository_ops \<Rightarrow> ('r \<times> download_job list) repository_ops" where
  "journalled R =
     \<lparr>repo_create = (\<lambda>(r, log) d t. case repo_create R r d t of (res, r') \<Rightarrow> (res, (r', log))),
      repo_find_by_id = (\<lambda>(r, log) i. case repo_find_by_id R r i of (res, r') \<Rightarrow> (res, (r', log))),
      repo_list = (\<lambda>(r, log). case repo_list R r of (res, r') \<Rightarrow> (res, (r', log))),
      repo_save = (\<lambda>(r, log) j. case repo_save R r j of
         (Inl e, r') \<Rightarrow> (Inl e, (r', log))
       | (Inr p, r') \<Rightarrow> (Inr p, (r', log @ [p])))\<rparr>"

lemma journalled_ops:
  "repo_create (journalled R) s d t = (res, s') \<longleftrightarrow>
     repo_create R (fst s) d t = (res, fst s') \<and> snd s' = snd s"
  "repo_find_by_id (journalled R) s i = (found, s') \<longleftrightarrow>
     repo_find_by_id R (fst s) i = (found, fst s') \<and> snd s' = snd s"
  "repo_list (journalled R) s = (js, s') \<longleftrightarrow> repo_list R (fst s) = (js, fst s') \<and> snd s' = snd s"
  "repo_save (journalled R) s j = (Inr p, s') \<longleftrightarrow>
     repo_save R (fst s) j = (Inr p, fst s') \<and> snd s' = snd s @ [p]"
  "repo_save (journalled R) s j = (Inl e, s') \<longleftrightarrow>
     repo_save R (fst s) j = (Inl e, fst s') \<and> snd s' = snd s"
  by (cases s; cases s'; auto simp: journalled_def split: prod.splits sum.splits)+

context download_repository
begin

lemma journalled_contract:
  "download_repository (journalled R) (\<lambda>s. stored (fst s)) (\<lambda>s. valid (fst s)) admissible"
proof
  fix s i j assume "valid (fst s)" "stored (fst s) i = Some j"
  then show "job_id j = i \<and> job_wf j" by (rule stored_key)
next
  fix s s' j e assume "valid (fst s)" "repo_save (journalled R) s j = (Inl e, s')"
  then show "valid (fst s') \<and> stored (fst s') = stored (fst s)"
    using save_error [of "fst s" j e "fst s'"] by (simp add: journalled_ops)
next
  fix s s' j p assume "valid (fst s)" "job_wf j" "repo_save (journalled R) s j = (Inr p, s')"
  then show "valid (fst s') \<and> stored (fst s') = (stored (fst s))(job_id j \<mapsto> p) \<and>
      (\<exists>old. stored (fst s) (job_id j) = Some old \<and>
         p = j\<lparr>job_created_at := job_created_at old, job_updated_at := job_updated_at p\<rparr> \<and>
         job_request old = job_request j \<and> job_origin old = job_origin j \<and>
         job_destination old = job_destination j)"
    using save_ok [of "fst s" j p "fst s'"] by (simp add: journalled_ops)
next
  fix s s' d t e
  assume "valid (fst s)" "admissible d" "repo_create (journalled R) s d t = (Inl e, s')"
  then show "valid (fst s') \<and> stored (fst s') = stored (fst s)"
    using create_error [of "fst s" d t e "fst s'"] by (simp add: journalled_ops)
next
  fix s s' d t j
  assume "valid (fst s)" "admissible d" "repo_create (journalled R) s d t = (Inr j, s')"
  then show "valid (fst s') \<and> stored (fst s) (job_id j) = None \<and>
      stored (fst s') = (stored (fst s))(job_id j \<mapsto> j) \<and> (\<exists>u. j = job_new (job_id j) d u)"
    using create_ok [of "fst s" d t j "fst s'"] by (simp add: journalled_ops)
next
  fix s s' res assume "valid (fst s)" "repo_list (journalled R) s = (res, s')"
  then show "valid (fst s') \<and> stored (fst s') = stored (fst s)"
    using list_state [of "fst s" res "fst s'"] by (simp add: journalled_ops)
next
  fix s s' js assume "valid (fst s)" "repo_list (journalled R) s = (Inr js, s')"
  then show "sorted_wrt (<) (map job_id js) \<and> (\<forall>j. j \<in> set js \<longleftrightarrow> stored (fst s) (job_id j) = Some j)"
    using list_ok [of "fst s" js "fst s'"] by (simp add: journalled_ops)
next
  fix s s' i res assume "valid (fst s)" "repo_find_by_id (journalled R) s i = (res, s')"
  then show "valid (fst s') \<and> stored (fst s') = stored (fst s)"
    using find_state [of "fst s" i res "fst s'"] by (simp add: journalled_ops)
next
  fix s s' i found assume "valid (fst s)" "repo_find_by_id (journalled R) s i = (Inr found, s')"
  then show "found = stored (fst s) i" using find_ok [of "fst s" i found "fst s'"] by (simp add: journalled_ops)
qed

end

section \<open>Progress across checkpoints\<close>

lemma save_job_locked_result:
  "save_job_locked env j w = (Inr p, w') \<Longrightarrow> p = j\<lparr>job_updated_at := job_updated_at p\<rparr>"
  by (auto simp: save_job_locked_def act_simps Let_def throw_def snapshot_expected split: if_splits)

lemma observed_keeps [keeps_intros]:
  "keeps (\<lambda>w. mgr_observed w = obs) (now_utc env)"
  "keeps (\<lambda>w. mgr_observed w = obs) (with_repo f)"
  "keeps (\<lambda>w. mgr_observed w = obs) (modify_state (\<lambda>w. w\<lparr>mgr_jobs := jobs w\<rparr>))"
  by (simp_all add: keeps_def now_utc_def with_repo_def modify_state_def split: prod.splits)

lemma save_keeps_observed [keeps_intros]: "keeps (\<lambda>w. mgr_observed w = obs) (save_job_locked env j)"
  unfolding save_job_locked_def Let_def by (intro keeps_intros)

lemma run_call_keeps_observed [simp]: "mgr_observed (run_call env c w) = mgr_observed w"
proof (cases c)
  case (CallCreate d)
  have "keeps (\<lambda>v. mgr_observed v = mgr_observed w) (manager_create env d)"
    unfolding manager_create_def by (intro keeps_intros)
  with CallCreate show ?thesis by (simp add: keeps_def)
next
  case (CallIdle command i)
  have "keeps (\<lambda>v. mgr_observed v = mgr_observed w) (change_idle_state env i command)"
    unfolding change_idle_state_def job_or_def Let_def by (intro keeps_intros)
  with CallIdle show ?thesis by (simp add: keeps_def)
qed

lemma run_calls_keep_observed [simp]: "mgr_observed (fold (run_call env) cs w) = mgr_observed w"
  by (induction cs arbitrary: w) simp_all

lemma yield_keeps_observed [keeps_intros]: "keeps (\<lambda>w. mgr_observed w = obs) (yield_point env)"
  by (simp add: keeps_def yield_point_def modify_state_def Let_def)

lemma commit_job_observed:
  "commit_job env j w = (Inr p, w') \<Longrightarrow>
     mgr_observed w' = mgr_observed w \<and> p = j\<lparr>job_updated_at := job_updated_at p\<rparr>"
  using keepsD [of "\<lambda>v. mgr_observed v = mgr_observed w" "commit_job env j" w "Inr p" w']
  by (auto simp: commit_job_def act_simps intro!: keeps_intros dest: save_job_locked_result)

text \<open>What the observer of a run from job \<open>j\<close> to job \<open>k\<close> was told.\<close>

definition observed_between :: "download_job \<Rightarrow> (event \<times> download_job) list \<Rightarrow> download_job \<Rightarrow> bool" where
  "observed_between j obs k \<longleftrightarrow>
     sorted (map (\<lambda>l. downloaded_bytes (job_progress l)) (j # map snd obs @ [k])) \<and>
     list_all (\<lambda>(ev, l). ev = EvProgressChanged (job_id j) (job_progress l) \<and> progress_wf (job_progress l))
       obs \<and>
     job_id k = job_id j"

lemma sorted_join:
  fixes y :: "'a :: linorder"
  assumes "sorted (x # xs @ [y])" "sorted (y # ys @ [z])"
  shows "sorted (x # (xs @ ys) @ [z])"
proof -
  have "a \<le> b" if "a \<in> set (x # xs)" "b \<in> set (ys @ [z])" for a b
  proof (rule order_trans)
    show "a \<le> y" using that(1) assms(1) by (auto simp: sorted_append)
    show "y \<le> b" using that(2) assms(2) by auto
  qed
  moreover have "sorted (x # xs)" "sorted (ys @ [z])"
    using assms by (auto simp: sorted_append)
  ultimately have "sorted ((x # xs) @ (ys @ [z]))"
    unfolding sorted_append by blast
  then show ?thesis by simp
qed

lemma observed_between_trans:
  "observed_between j obs k \<Longrightarrow> observed_between k obs' l \<Longrightarrow> observed_between j (obs @ obs') l"
  using sorted_join [of "downloaded_bytes (job_progress j)"
      "map (\<lambda>l. downloaded_bytes (job_progress l)) (map snd obs)" "downloaded_bytes (job_progress k)"
      "map (\<lambda>l. downloaded_bytes (job_progress l)) (map snd obs')" "downloaded_bytes (job_progress l)"]
  by (simp add: observed_between_def del: sorted_wrt.simps)

text \<open>The journal only grows, and a save that succeeds appends what was saved.\<close>

abbreviation grown :: "download_job list \<Rightarrow> ('r \<times> download_job list) manager \<Rightarrow> bool" where
  "grown log \<equiv> \<lambda>w. prefix log (snd (mgr_repo w))"

lemma journal_keeps_fields [keeps_intros]:
  "keeps (grown log) (now_utc env)"
  "keeps (grown log) (modify_state (\<lambda>w. w\<lparr>mgr_jobs := jobs w\<rparr>))"
  by (simp_all add: keeps_def now_utc_def modify_state_def)

lemma journal_keeps:
  assumes "env_repo env = journalled R"
  shows "keeps (grown log) (with_repo (\<lambda>r. repo_save (env_repo env) r j))"
    "keeps (grown log) (with_repo (\<lambda>r. repo_create (env_repo env) r d t))"
  by (auto simp: keeps_def with_repo_def assms journalled_def split: prod.splits sum.splits)

lemma journal_keeps_save:
  assumes "env_repo env = journalled R"
  shows "keeps (grown log) (save_job_locked env j)"
  unfolding save_job_locked_def Let_def by (intro keeps_intros journal_keeps [OF assms])

lemma run_call_grows:
  assumes "env_repo env = journalled R" "grown log w"
  shows "grown log (run_call env c w)"
proof (cases c)
  case (CallCreate d)
  have "keeps (grown log) (manager_create env d)"
    unfolding manager_create_def by (intro keeps_intros journal_keeps [OF assms(1)])
  with CallCreate assms(2) show ?thesis by (simp add: keeps_def)
next
  case (CallIdle command i)
  have "keeps (grown log) (change_idle_state env i command)"
    unfolding change_idle_state_def job_or_def Let_def
    by (intro keeps_intros journal_keeps_save [OF assms(1)])
  with CallIdle assms(2) show ?thesis by (simp add: keeps_def)
qed

lemma run_calls_grow:
  "env_repo env = journalled R \<Longrightarrow> grown log w \<Longrightarrow> grown log (fold (run_call env) cs w)"
  by (induction cs arbitrary: w) (simp_all add: run_call_grows)

lemma yield_grows: "env_repo env = journalled R \<Longrightarrow> keeps (grown log) (yield_point env)"
  by (simp add: keeps_def yield_point_def modify_state_def Let_def run_calls_grow)

lemma save_job_locked_journal:
  "env_repo env = journalled R \<Longrightarrow> save_job_locked env j w = (Inr p, w') \<Longrightarrow>
     snd (mgr_repo w') = snd (mgr_repo w) @ [p]"
  by (auto simp: save_job_locked_def act_simps Let_def throw_def with_repo_def journalled_ops
      split: if_splits prod.splits)

lemma commit_job_journal:
  assumes "env_repo env = journalled R" "commit_job env j w = (res, w')"
  shows "\<exists>saved. snd (mgr_repo w') = snd (mgr_repo w) @ saved \<and>
    (case res of Inr p \<Rightarrow> subseq [p] saved | Inl _ \<Rightarrow> True)"
proof -
  obtain u w1 where y: "yield_point env w = (Inr u :: repository_error + unit, w1)"
    and s: "save_job_locked env j w1 = (res, w')"
    using assms(2) by (auto simp: commit_job_def act_bind_def yield_point_def modify_state_def)
  have "grown (snd (mgr_repo w)) w1" by (rule keepsD [OF yield_grows [OF assms(1)] _ y]) simp
  then obtain calls where calls: "snd (mgr_repo w1) = snd (mgr_repo w) @ calls" by (rule prefixE)
  show ?thesis
  proof (cases res)
    case (Inl e)
    have "grown (snd (mgr_repo w1)) w'" by (rule keepsD [OF journal_keeps_save [OF assms(1)] _ s]) simp
    then show ?thesis using Inl calls by (auto elim!: prefixE)
  next
    case (Inr p)
    with save_job_locked_journal [OF assms(1)] s calls show ?thesis
      by (intro exI [of _ "calls @ [p]"]) auto
  qed
qed

text \<open>Every report of a checkpoint carries a job that was saved, whatever comes of the checkpoint.\<close>

definition observed_run ::
  "download_job \<Rightarrow> ('r \<times> download_job list) manager \<Rightarrow> ('r \<times> download_job list) manager \<Rightarrow>
     download_job option \<Rightarrow> bool" where
  "observed_run j w w' res \<longleftrightarrow>
     (\<exists>obs saved. mgr_observed w' = mgr_observed w @ obs \<and> snd (mgr_repo w') = snd (mgr_repo w) @ saved \<and>
        subseq (map snd obs) saved \<and>
        (case res of Some k \<Rightarrow> observed_between j obs k | None \<Rightarrow> \<exists>k. observed_between j obs k))"

lemma observed_run_trans:
  assumes "observed_run j w w1 (Some k)" "observed_run k w1 w2 res"
  shows "observed_run j w w2 res"
proof -
  from assms obtain obs saved obs' saved' where
    "mgr_observed w1 = mgr_observed w @ obs" "snd (mgr_repo w1) = snd (mgr_repo w) @ saved"
    "subseq (map snd obs) saved" "observed_between j obs k"
    "mgr_observed w2 = mgr_observed w1 @ obs'" "snd (mgr_repo w2) = snd (mgr_repo w1) @ saved'"
    "subseq (map snd obs') saved'"
    "case res of Some l \<Rightarrow> observed_between k obs' l | None \<Rightarrow> \<exists>l. observed_between k obs' l"
    by (auto simp: observed_run_def)
  then show ?thesis
    unfolding observed_run_def
    by (intro exI [of _ "obs @ obs'"] exI [of _ "saved @ saved'"])
       (auto intro: list_emb_append_mono observed_between_trans split: option.splits)
qed

lemma observed_run_silent:
  assumes "mgr_observed w' = mgr_observed w" "grown (snd (mgr_repo w)) w'"
  shows "observed_run j w w' (Some j)" "observed_run j w w' None"
proof -
  from assms(2) obtain saved where "snd (mgr_repo w') = snd (mgr_repo w) @ saved" by (rule prefixE)
  with assms(1) show "observed_run j w w' (Some j)" "observed_run j w w' None"
    unfolding observed_run_def
    by (auto intro!: exI [of _ "[]"] exI [of _ j] simp: observed_between_def)
qed

lemma checkpoint_progress_observed:
  assumes "env_repo env = journalled R" "checkpoint_progress env j n est w = (res, w')"
  shows "observed_run j w w' (case res of Inr k \<Rightarrow> Some k | Inl _ \<Rightarrow> None)"
proof -
  consider (refused) e where "execution_progress j n est = Inl e" "res = Inl e" "w' = w"
    | (same) "execution_progress j n est = Inr (job_progress j)" "res = Inr j" "w' = w"
    | (changed) p t w1 where "execution_progress j n est = Inr p"
        "act_bind (commit_job env (update_progress j p t)) (\<lambda>k.
           act_bind (observe (EvProgressChanged (job_id k) (job_progress k)) k) (\<lambda>_. ret k)) w1 = (res, w')"
        "mgr_observed w1 = mgr_observed w" "mgr_repo w1 = mgr_repo w"
    using assms(2)
    by (cases "execution_progress j n est"; cases "execution_progress j n est = Inr (job_progress j)")
       (auto simp: checkpoint_progress_def act_bind_def lift_result_def now_utc_def ret_def)
  then show ?thesis
  proof cases
    case changed
    obtain cres w2 where c: "commit_job env (update_progress j p t) w1 = (cres, w2)" by fastforce
    obtain saved where saved: "snd (mgr_repo w2) = snd (mgr_repo w) @ saved"
      "case cres of Inr p \<Rightarrow> subseq [p] saved | Inl _ \<Rightarrow> True"
      using commit_job_journal [OF assms(1) c] changed(4) by auto
    have obs: "mgr_observed w2 = mgr_observed w"
      using keepsD [of "\<lambda>v. mgr_observed v = mgr_observed w1" "commit_job env (update_progress j p t)" w1 cres w2]
        c changed(3) by (auto simp: commit_job_def intro!: keeps_intros)
    show ?thesis
    proof (cases cres)
      case (Inl e)
      with c changed(2) have "res = Inl e" "w' = w2" by (auto simp: act_bind_def)
      with obs saved show ?thesis by (simp add: observed_run_silent)
    next
      case (Inr k)
      with c changed(2) have res: "res = Inr k"
        "w' = w2\<lparr>mgr_observed := mgr_observed w2 @ [(EvProgressChanged (job_id k) (job_progress k), k)]\<rparr>"
        by (auto simp: act_bind_def observe_def modify_state_def ret_def)
      have k: "job_id k = job_id j" "job_progress k = p"
        using commit_job_observed c Inr by (fastforce dest: touched_fields simp: update_progress_def)+
      from changed(1) have "downloaded_bytes (job_progress j) \<le> downloaded_bytes p" "progress_wf p"
        by (auto simp: execution_progress_def Let_def progress_new_Inr map_err_eq_Inr split: if_splits)
      with k obs saved Inr res show ?thesis
        unfolding observed_run_def
        by (intro exI [of _ "[(EvProgressChanged (job_id k) (job_progress k), k)]"] exI [of _ saved])
           (simp add: observed_between_def)
    qed
  qed (simp_all add: observed_run_silent)
qed

lemma transfer_loop_observed:
  assumes "env_repo env = journalled R"
  shows "transfer_loop env est ticks n j w = (res, w') \<Longrightarrow>
     observed_run j w w' (case res of Inr (k, _) \<Rightarrow> Some k | Inl _ \<Rightarrow> None)"
proof (induction ticks arbitrary: n j w)
  case Nil
  then show ?case by (auto simp: ret_def observed_run_silent)
next
  case (Cons tick ticks)
  let ?n = "case tick of Some n \<Rightarrow> n | None \<Rightarrow> n"
  obtain u w1 where y: "yield_point env w = (Inr u :: repository_error + unit, w1)"
    by (auto simp: yield_point_def modify_state_def)
  obtain cres w2 where c: "checkpoint_progress env j ?n est w1 = (cres, w2)" by fastforce
  have "mgr_observed w1 = mgr_observed w"
    by (rule keepsD [OF yield_keeps_observed [of "mgr_observed w"] refl y])
  moreover have "grown (snd (mgr_repo w)) w1" by (rule keepsD [OF yield_grows [OF assms] _ y]) simp
  ultimately have quiet: "observed_run j w w1 (Some j)" by (rule observed_run_silent)
  note step = observed_run_trans [OF quiet checkpoint_progress_observed [OF assms c]]
  show ?case
  proof (cases cres)
    case (Inl e)
    with Cons.prems y c step show ?thesis by (auto simp: act_bind_def Let_def)
  next
    case (Inr k)
    with Cons.prems y c have "transfer_loop env est ticks ?n k w2 = (res, w')"
      by (simp add: act_bind_def Let_def)
    from Cons.IH [OF this] step Inr show ?thesis by (auto intro: observed_run_trans)
  qed
qed

section \<open>A save through the repository contract\<close>

context download_repository
begin

lemma save_job_locked_cases:
  assumes "coherent stored valid w" "job_wf j" "env_repo env = R" "stored (mgr_repo w) (job_id j) = Some old"
    "same_identity old j" "save_job_locked env j w = (res, w')"
  shows "coherent stored valid w' \<and> repo_save R (mgr_repo w) j = (res, mgr_repo w') \<and>
    (case res of
       Inl e \<Rightarrow> stored (mgr_repo w') = stored (mgr_repo w)
     | Inr p \<Rightarrow> p = j\<lparr>job_updated_at := job_updated_at p\<rparr> \<and>
         stored (mgr_repo w') = (stored (mgr_repo w))(job_id j \<mapsto> p))"
proof -
  obtain sres r where s: "repo_save R (mgr_repo w) j = (sres, r)" by fastforce
  have v: "valid (mgr_repo w)" using assms(1) by (simp add: coherent_def)
  show ?thesis
  proof (cases sres)
    case (Inl e)
    with assms(3,6) s have "res = Inl e" "w' = w\<lparr>mgr_repo := r\<rparr>"
      by (auto simp: save_job_locked_def act_bind_def with_repo_def)
    moreover have "valid r \<and> stored r = stored (mgr_repo w)"
      using save_error [OF v] s Inl by blast
    ultimately show ?thesis using assms(1) s Inl by (simp add: coherent_def)
  next
    case (Inr p)
    have s': "repo_save R (mgr_repo w) j = (Inr p, r)" using s Inr by simp
    note ok = save_ok [OF v assms(2) s']
    have "p = j\<lparr>job_updated_at := job_updated_at p\<rparr>"
      using save_roundtrip [OF v assms(2) s' assms(4)] assms(5) by (simp add: same_identity_def)
    moreover from this have "job_take_snapshot p =
        (job_take_snapshot j)\<lparr>snap_updated_at := job_updated_at p\<rparr>"
      by (simp only: snapshot_expected)
    ultimately have "res = Inr p" "w' = w\<lparr>mgr_repo := r, mgr_jobs := bt_insert (job_id j) p (mgr_jobs w)\<rparr>"
      "p = j\<lparr>job_updated_at := job_updated_at p\<rparr>"
      using assms(3,6) s Inr
      by (auto simp: save_job_locked_def act_bind_def with_repo_def modify_state_def ret_def Let_def)
    with ok assms(1) s' show ?thesis
      by (auto simp: coherent_def bt_ordered_insert bt_get_insert fun_eq_iff)
  qed
qed

end

section \<open>Executions against a relation on jobs\<close>

text \<open>
  An execution alternates between work on the job in hand that keeps its state, one lifecycle edge,
  and a save.  \<open>Same\<close> relates the stored job to the one in hand before the edge and \<open>Edge\<close> after it;
  \<open>Hist i j0 r old\<close> is what is known of the saves that led from \<open>j0\<close> to the stored \<open>old\<close>.
  \<open>call_ok i c\<close> says that call \<open>c\<close> of another client cannot break them for the running execution
  of job \<open>i\<close>.
\<close>

definition quiet_step :: "download_job \<Rightarrow> download_job \<Rightarrow> bool" where
  "quiet_step j k \<longleftrightarrow> job_step j k \<and> job_state k = job_state j"

definition execution_edge :: "download_state \<Rightarrow> download_state \<Rightarrow> bool" where
  "execution_edge s t \<longleftrightarrow> can_transition_to s t \<and> t \<noteq> Queued"

lemma quiet_steps:
  "progress_wf p \<Longrightarrow> quiet_step j (update_progress j p t)"
  "quiet_step j (set_resource j r t)"
  "quiet_step j (resolve_destination j d t)"
  by (auto simp: quiet_step_def intro: job_step.intros) (simp_all add: job_mutator_defs)

locale tracked_runs = download_repository R stored valid admissible
  for R :: "'r repository_ops"
    and stored :: "'r \<Rightarrow> download_id \<Rightarrow> download_job option"
    and valid :: "'r \<Rightarrow> bool"
    and admissible :: "new_download \<Rightarrow> bool" +
  fixes Hist :: "download_id \<Rightarrow> download_job \<Rightarrow> 'r \<Rightarrow> download_job \<Rightarrow> bool"
    and Same :: "download_job \<Rightarrow> download_job \<Rightarrow> bool"
    and Edge :: "download_job \<Rightarrow> download_job \<Rightarrow> bool"
    and call_ok :: "download_id \<Rightarrow> manager_call \<Rightarrow> bool"
  assumes same_refl: "Same j j"
    and same_quiet: "Same j k \<Longrightarrow> quiet_step k l \<Longrightarrow> Same j l"
    and same_edge: "Same j k \<Longrightarrow> job_step k l \<Longrightarrow> execution_edge (job_state k) (job_state l) \<Longrightarrow> Edge j l"
    and same_moved: "Same j k \<Longrightarrow> Edge j k"
    and edge_identity: "Edge j k \<Longrightarrow> same_identity j k"
    and hist_save: "valid r \<Longrightarrow> stored r i = Some old \<Longrightarrow> Hist i j0 r old \<Longrightarrow> Edge old k \<Longrightarrow> job_id k = i \<Longrightarrow>
      repo_save R r k = (Inr p, r') \<Longrightarrow> p = k\<lparr>job_updated_at := job_updated_at p\<rparr> \<Longrightarrow> Hist i j0 r' p"
    and hist_error: "Hist i j0 r old \<Longrightarrow> repo_save R r k = (Inl e, r') \<Longrightarrow> Hist i j0 r' old"
    and hist_elsewhere: "Hist i j0 r old \<Longrightarrow> repo_save R r k = (Inr p, r') \<Longrightarrow>
      p = k\<lparr>job_updated_at := job_updated_at p\<rparr> \<Longrightarrow> job_id k \<noteq> i \<Longrightarrow> Hist i j0 r' old"
    and hist_create: "Hist i j0 r old \<Longrightarrow> repo_create R r d t = (res, r') \<Longrightarrow> Hist i j0 r' old"
    and hist_call: "call_ok i (CallIdle command i) \<Longrightarrow> Hist i j0 r old \<Longrightarrow> job_step old p \<Longrightarrow>
      repo_save R r k = (Inr p, r') \<Longrightarrow> Hist i j0 r' p"
    and near_call: "call_ok i (CallIdle command i) \<Longrightarrow> job_step old p \<Longrightarrow>
      (Same old j \<longrightarrow> Same p j) \<and> (Edge old j \<longrightarrow> Edge p j)"
begin

abbreviation coherent_here :: "'r manager \<Rightarrow> bool" where
  "coherent_here \<equiv> coherent stored valid"

abbreviation kept_here :: "download_id \<Rightarrow> download_job \<Rightarrow> 'r manager \<Rightarrow> bool" where
  "kept_here i j0 \<equiv> kept stored valid (Hist i j0) i"

abbreviation tracks_here :: "download_id \<Rightarrow> download_job \<Rightarrow> download_job \<Rightarrow> 'r manager \<Rightarrow> bool" where
  "tracks_here i j0 \<equiv> tracks stored valid (Hist i j0) Same i"

abbreviation moved_here :: "download_id \<Rightarrow> download_job \<Rightarrow> download_job \<Rightarrow> 'r manager \<Rightarrow> bool" where
  "moved_here i j0 \<equiv> tracks stored valid (Hist i j0) Edge i"

lemma tracks_moved: "tracks_here i j0 j w \<Longrightarrow> moved_here i j0 j w"
  by (auto simp: tracks_def intro: same_moved)

lemma moved_kept: "moved_here i j0 j w \<Longrightarrow> kept_here i j0 w"
  by (auto simp: tracks_def kept_def)

lemma tracks_kept: "tracks_here i j0 j w \<Longrightarrow> kept_here i j0 w"
  by (auto simp: tracks_def kept_def)

lemma tracks_step:
  "tracks_here i j0 j w \<Longrightarrow> quiet_step j k \<Longrightarrow> tracks_here i j0 k w"
  by (auto simp: tracks_def quiet_step_def job_step_wf dest: job_step_identity
      intro: same_quiet [unfolded quiet_step_def])
     (auto simp: same_identity_def dest: job_step_identity)

lemma tracks_edge:
  "tracks_here i j0 j w \<Longrightarrow> job_step j k \<Longrightarrow> execution_edge (job_state j) (job_state k) \<Longrightarrow> moved_here i j0 k w"
  by (auto simp: tracks_def job_step_wf dest: job_step_identity intro: same_edge)
     (auto simp: same_identity_def dest: job_step_identity)

lemma registry_lookup:
  "coherent_here w \<Longrightarrow> manager_job w i = stored (mgr_repo w) i"
  by (simp add: coherent_def manager_job_def)

subsection \<open>Saving\<close>

lemma save_job_locked_triple:
  assumes "env_repo env = R"
  shows "triple (moved_here i j0 j) (save_job_locked env j)
    (\<lambda>p w. tracks_here i j0 p w \<and> stored (mgr_repo w) i = Some p \<and>
       p = j\<lparr>job_updated_at := job_updated_at p\<rparr>)
    (\<lambda>_. kept_here i j0)"
proof (rule tripleI)
  fix w p w' assume a: "moved_here i j0 j w" "save_job_locked env j w = (Inr p, w')"
  then obtain old where old: "coherent_here w" "job_id j = i" "job_wf j" "stored (mgr_repo w) i = Some old"
    "Hist i j0 (mgr_repo w) old" "Edge old j" by (auto simp: tracks_def)
  have "stored (mgr_repo w) (job_id j) = Some old" using old by simp
  from save_job_locked_cases [OF old(1,3) assms this edge_identity [OF old(6)] a(2)]
  have p: "p = j\<lparr>job_updated_at := job_updated_at p\<rparr>" and w': "coherent_here w'"
      "stored (mgr_repo w') = (stored (mgr_repo w))(job_id j \<mapsto> p)"
    and s: "repo_save R (mgr_repo w) j = (Inr p, mgr_repo w')" by auto
  have "valid (mgr_repo w)" using old(1) by (simp add: coherent_def)
  from hist_save [OF this old(4-6,2) s p] have hist: "Hist i j0 (mgr_repo w') p" .
  have step: "job_step j p" by (subst p) (rule job_step_touch [OF old(3)])
  have "job_id p = i" "job_wf p"
    using old(2,3) job_step_identity [OF step] job_step_wf [OF step] by (auto simp: same_identity_def)
  then have "tracks_here i j0 p w' \<and> stored (mgr_repo w') i = Some p"
    using w' old(2) hist same_refl by (simp add: tracks_def)
  with p show "tracks_here i j0 p w' \<and> stored (mgr_repo w') i = Some p \<and>
      p = j\<lparr>job_updated_at := job_updated_at p\<rparr>" by blast
next
  fix w e w' assume a: "moved_here i j0 j w" "save_job_locked env j w = (Inl e, w')"
  then obtain old where old: "coherent_here w" "job_id j = i" "job_wf j" "stored (mgr_repo w) i = Some old"
    "Hist i j0 (mgr_repo w) old" "Edge old j" by (auto simp: tracks_def)
  have "stored (mgr_repo w) (job_id j) = Some old" using old by simp
  from save_job_locked_cases [OF old(1,3) assms this edge_identity [OF old(6)] a(2)]
  show "kept_here i j0 w'" using old(4) hist_error [OF old(5)] by (auto simp: kept_def)
qed

subsection \<open>Calls of other clients\<close>

lemma change_idle_state_cases:
  assumes "coherent_here w" "env_repo env = R" "change_idle_state env i command w = (res, w')"
  shows "coherent_here w' \<and>
    (case res of
       Inl e \<Rightarrow> stored (mgr_repo w') = stored (mgr_repo w) \<and>
         (mgr_repo w' = mgr_repo w \<or> (\<exists>k e. repo_save R (mgr_repo w) k = (Inl e, mgr_repo w')))
     | Inr ev \<Rightarrow> \<exists>current next p k.
         stored (mgr_repo w) i = Some current \<and> idle_outcome command current next p \<and>
         ev = EvStateChanged i (job_state current) next \<and>
         stored (mgr_repo w') = (stored (mgr_repo w))(i \<mapsto> p) \<and>
         repo_save R (mgr_repo w) k = (Inr p, mgr_repo w') \<and> job_id k = i \<and>
         p = k\<lparr>job_updated_at := job_updated_at p\<rparr>)"
proof (cases "stored (mgr_repo w) i")
  case None
  with assms show ?thesis
    by (auto simp: change_idle_state_def job_or_def act_bind_def act_simps registry_lookup Let_def)
next
  case (Some current)
  have current: "job_id current = i" "job_wf current"
    using stored_key [OF _ Some] assms(1) by (simp_all add: coherent_def)
  let ?w = "w\<lparr>mgr_clock := Suc (mgr_clock w)\<rparr>" and ?t = "env_now env (mgr_clock w)"
  let ?cand = "\<lambda>next. if command = CkRestart then job_restart current ?t else transition_to current next ?t"
  have coh: "coherent_here ?w" using assms(1) by (simp add: coherent_def)
  have job: "job_or (MeNotFound i) i w = (Inr current, w)"
    using Some assms(1) by (simp add: job_or_def act_bind_def act_simps registry_lookup)
  consider (no_target) "idle_target command current = None"
    | (refused) "next" e where "idle_target command current = Some next" "?cand next = Inl e"
    | (saved) "next" c where "idle_target command current = Some next" "?cand next = Inr c"
    by (metis not_None_eq sumE)
  then show ?thesis
  proof cases
    case no_target
    with job assms(1,3) show ?thesis
      by (auto simp: change_idle_state_def act_bind_def throw_def Let_def)
  next
    case refused
    with job assms(1,3) coh show ?thesis
      by (auto simp: change_idle_state_def act_bind_def now_utc_def lift_result_def Let_def)
  next
    case saved
    have out: "idle_outcome command current next c"
      using saved by (metis idle_outcome_def)
    have step: "job_step current c" using idle_outcome_step [OF out] by simp
    have ids: "job_id c = i" "job_wf c" "same_identity current c"
      using current job_step_identity [OF step] job_step_wf [OF step]
      by (auto simp: same_identity_def)
    obtain sres w1 where s: "save_job_locked env c ?w = (sres, w1)" by fastforce
    have res: "res = map_err MeRepository (rmap (\<lambda>_. EvStateChanged i (job_state current) next) sres)"
      "w' = w1"
      using saved job assms(3) s
      by (cases sres; simp add: change_idle_state_def act_bind_def now_utc_def lift_result_def
          Let_def act_map_err_def ret_def)+
    have "stored (mgr_repo ?w) (job_id c) = Some current" using Some ids by simp
    from save_job_locked_cases [OF coh ids(2) assms(2) this ids(3) s]
    have sv: "coherent_here w1" "repo_save R (mgr_repo w) c = (sres, mgr_repo w1)"
        "case sres of Inl e \<Rightarrow> stored (mgr_repo w1) = stored (mgr_repo w)
        | Inr p \<Rightarrow> p = c\<lparr>job_updated_at := job_updated_at p\<rparr> \<and>
            stored (mgr_repo w1) = (stored (mgr_repo w))(i \<mapsto> p)"
      using ids(1) by (simp_all split: sum.splits)
    have "idle_outcome command current next p" if "p = c\<lparr>job_updated_at := job_updated_at p\<rparr>" for p
      using out by (subst that) (auto simp: idle_outcome_def result_simps)
    with sv res Some ids(1) show ?thesis by (cases sres) auto
  qed
qed

lemma manager_create_cases:
  assumes "coherent_here w" "env_repo env = R" "admissible d" "manager_create env d w = (res, w')"
  shows "coherent_here w' \<and>
    (case res of
       Inl e \<Rightarrow> stored (mgr_repo w') = stored (mgr_repo w)
     | Inr ev \<Rightarrow> \<exists>i t. stored (mgr_repo w) i = None \<and> ev = EvCreated i \<and>
         stored (mgr_repo w') = (stored (mgr_repo w))(i \<mapsto> job_new i d t)) \<and>
    (\<exists>res' t. repo_create R (mgr_repo w) d t = (res', mgr_repo w'))"
proof -
  have v: "valid (mgr_repo w)" and reg: "bt_get (mgr_jobs w) = stored (mgr_repo w)"
    using assms(1) by (simp_all add: coherent_def)
  obtain cres r where c: "repo_create R (mgr_repo w) d (env_now env (mgr_clock w)) = (cres, r)"
    by fastforce
  show ?thesis
  proof (cases cres)
    case (Inl e)
    with c assms(2,4) have "res = Inl e" "w' = w\<lparr>mgr_clock := Suc (mgr_clock w), mgr_repo := r\<rparr>"
      by (auto simp: manager_create_def act_bind_def now_utc_def with_repo_def)
    with create_error [OF v assms(3)] c Inl assms(1) show ?thesis by (auto simp: coherent_def)
  next
    case (Inr j)
    with c have ok: "valid r \<and> stored (mgr_repo w) (job_id j) = None \<and>
        stored r = (stored (mgr_repo w))(job_id j \<mapsto> j) \<and> (\<exists>u. j = job_new (job_id j) d u)"
      by (intro create_ok [OF v assms(3)]) simp
    with reg c Inr assms(2,4) have "res = Inr (EvCreated (job_id j))"
      "w' = w\<lparr>mgr_clock := Suc (mgr_clock w), mgr_repo := r, mgr_jobs := bt_insert (job_id j) j (mgr_jobs w)\<rparr>"
      by (auto simp: manager_create_def act_bind_def now_utc_def with_repo_def get_state_def
          modify_state_def ret_def)
    moreover obtain u where "j = job_new (job_id j) d u" using ok by blast
    moreover have "\<exists>res' t. repo_create R (mgr_repo w) d t = (res', r)" using c by blast
    ultimately show ?thesis
      using ok assms(1) c
      by (auto simp: coherent_def bt_ordered_insert bt_get_insert fun_eq_iff
          intro!: exI [of _ "job_id j"] exI [of _ u])
  qed
qed

definition call_fine :: "download_id \<Rightarrow> manager_call \<Rightarrow> bool" where
  "call_fine i c \<longleftrightarrow> call_ok i c \<and> (case c of CallCreate d \<Rightarrow> admissible d | _ \<Rightarrow> True)"

definition env_fine :: "'r manager_env \<Rightarrow> download_id \<Rightarrow> bool" where
  "env_fine env i \<longleftrightarrow> env_repo env = R \<and> (\<forall>n. list_all (call_fine i) (env_calls env n))"

lemma run_call_coherent:
  assumes "coherent_here w" "env_repo env = R" "call_fine k c"
  shows "coherent_here (run_call env c w)"
proof (cases c)
  case (CallCreate d)
  then have adm: "admissible d" using assms(3) by (simp add: call_fine_def)
  obtain res w' where m: "manager_create env d w = (res, w')" by fastforce
  from manager_create_cases [OF assms(1,2) adm m] m CallCreate show ?thesis by simp
next
  case (CallIdle command l)
  obtain res w' where m: "change_idle_state env l command w = (res, w')" by fastforce
  from change_idle_state_cases [OF assms(1,2) m] m CallIdle show ?thesis by simp
qed

lemma run_call_effect:
  assumes "coherent_here w" "env_repo env = R" "call_fine i c"
    "stored (mgr_repo w) i = Some old" "Hist i j0 (mgr_repo w) old"
  shows "\<exists>new. stored (mgr_repo (run_call env c w)) i = Some new \<and>
    Hist i j0 (mgr_repo (run_call env c w)) new \<and>
    (\<forall>j. (Same old j \<longrightarrow> Same new j) \<and> (Edge old j \<longrightarrow> Edge new j))"
proof (cases c)
  case (CallCreate d)
  then have adm: "admissible d" using assms(3) by (simp add: call_fine_def)
  obtain res w' where m: "manager_create env d w = (res, w')" by fastforce
  from manager_create_cases [OF assms(1,2) adm m] m CallCreate assms(4) hist_create [OF assms(5)]
  show ?thesis by (cases res) auto
next
  case (CallIdle command l)
  obtain res w' where m: "change_idle_state env l command w = (res, w')" by fastforce
  then have w': "run_call env c w = w'" using CallIdle by simp
  note cases = change_idle_state_cases [OF assms(1,2) m]
  show ?thesis
  proof (cases res)
    case (Inl e)
    with cases w' assms(4,5) show ?thesis by (auto intro: hist_error)
  next
    case (Inr ev)
    with cases obtain current "next" p k where p: "stored (mgr_repo w) l = Some current"
      "idle_outcome command current next p" "stored (mgr_repo w') = (stored (mgr_repo w))(l \<mapsto> p)"
      "repo_save R (mgr_repo w) k = (Inr p, mgr_repo w')" "job_id k = l"
      "p = k\<lparr>job_updated_at := job_updated_at p\<rparr>" by auto
    show ?thesis
    proof (cases "l = i")
      case True
      then have step: "job_step old p" and ok: "call_ok i (CallIdle command i)"
        using p(1,2) assms(3,4) CallIdle idle_outcome_step by (auto simp: call_fine_def)
      show ?thesis
        using p(3) w' True hist_call [OF ok assms(5) step p(4)] near_call [OF ok step] by auto
    next
      case False
      then show ?thesis
        using p(3) w' assms(4) hist_elsewhere [OF assms(5) p(4,6)] p(5) by auto
    qed
  qed
qed

lemma run_call_keeps:
  assumes "env_repo env = R" "call_fine i c"
  shows "tracks_here i j0 j w \<Longrightarrow> tracks_here i j0 j (run_call env c w)"
    "moved_here i j0 j w \<Longrightarrow> moved_here i j0 j (run_call env c w)"
    "kept_here i j0 w \<Longrightarrow> kept_here i j0 (run_call env c w)"
  using run_call_effect [OF _ assms] run_call_coherent [OF _ assms]
  by (fastforce simp: tracks_def kept_def)+

lemma run_calls_keep:
  assumes "env_repo env = R" "list_all (call_fine i) cs"
  shows "tracks_here i j0 j w \<Longrightarrow> tracks_here i j0 j (fold (run_call env) cs w)"
    "moved_here i j0 j w \<Longrightarrow> moved_here i j0 j (fold (run_call env) cs w)"
    "kept_here i j0 w \<Longrightarrow> kept_here i j0 (fold (run_call env) cs w)"
  using assms by (induction cs arbitrary: w) (simp_all add: run_call_keeps)

lemma yield_point_tracks:
  "env_fine env i \<Longrightarrow>
     triple (tracks_here i j0 j) (yield_point env) (\<lambda>_. tracks_here i j0 j) E"
  by (simp add: triple_def yield_point_def modify_state_def Let_def env_fine_def run_calls_keep)

lemma yield_point_moved:
  "env_fine env i \<Longrightarrow>
     triple (moved_here i j0 j) (yield_point env) (\<lambda>_. moved_here i j0 j) E"
  by (simp add: triple_def yield_point_def modify_state_def Let_def env_fine_def run_calls_keep)

lemma yield_point_kept:
  "env_fine env i \<Longrightarrow> triple (kept_here i j0) (yield_point env) (\<lambda>_. kept_here i j0) E"
  by (simp add: triple_def yield_point_def modify_state_def Let_def env_fine_def run_calls_keep)

subsection \<open>Steps of an execution\<close>

lemma now_utc_triple:
  "triple (tracks_here i j0 j) (now_utc env) (\<lambda>_. tracks_here i j0 j) E"
  by (simp add: triple_def now_utc_def)

lemma now_utc_kept: "triple (kept_here i j0) (now_utc env) (\<lambda>_. kept_here i j0) E"
  by (simp add: triple_def now_utc_def)

lemma observe_triple:
  "triple (tracks_here i j0 j) (observe ev k) (\<lambda>_. tracks_here i j0 j) E"
  by (simp add: triple_def observe_def modify_state_def)

lemma commit_job_triple:
  assumes "env_fine env i"
  shows "triple (moved_here i j0 j) (commit_job env j)
    (\<lambda>p w. tracks_here i j0 p w \<and> stored (mgr_repo w) i = Some p \<and>
       p = j\<lparr>job_updated_at := job_updated_at p\<rparr>)
    (\<lambda>_. kept_here i j0)"
  unfolding commit_job_def
  by (rule triple_bind [OF yield_point_moved [OF assms]], rule save_job_locked_triple)
     (use assms in \<open>simp add: env_fine_def\<close>)

lemma read_request_triple:
  "env_fine env i \<Longrightarrow>
     triple (tracks_here i j0 j) (read_request env) (\<lambda>_. tracks_here i j0 j) E"
  unfolding read_request_def
  by (rule triple_bind [OF yield_point_tracks], assumption) (auto simp: triple_def act_bind_def get_state_def ret_def)

lemma job_or_triple:
  "triple (kept_here i j0) (job_or e i)
     (\<lambda>j w. tracks_here i j0 j w \<and> stored (mgr_repo w) i = Some j) (\<lambda>_. kept_here i j0)"
  unfolding triple_def job_or_def act_bind_def get_state_def lift_result_def
  by (auto simp: kept_def tracks_def registry_lookup coherent_def same_refl dest: stored_key)

lemma job_or_tracks:
  "triple (tracks_here i j0 j) (job_or e i) (\<lambda>k. tracks_here i j0 j) (\<lambda>_. kept_here i j0)"
  unfolding triple_def job_or_def act_bind_def get_state_def lift_result_def
  by (auto simp: tracks_def registry_lookup kept_def)

lemma checkpoint_progress_triple:
  assumes "env_fine env i"
  shows "triple (tracks_here i j0 j) (checkpoint_progress env j n est)
    (\<lambda>k. tracks_here i j0 k) (\<lambda>_. kept_here i j0)"
  unfolding checkpoint_progress_def
proof (rule triple_bind [where R = "\<lambda>p w. tracks_here i j0 j w \<and> progress_wf p"])
  show "triple (tracks_here i j0 j) (lift_result (execution_progress j n est))
     (\<lambda>p w. tracks_here i j0 j w \<and> progress_wf p) (\<lambda>_. kept_here i j0)"
    by (auto intro!: triple_lift_result intro: execution_progress_wf tracks_kept)
  fix p
  let ?save = "act_bind (now_utc env) (\<lambda>t. act_bind (commit_job env (update_progress j p t)) (\<lambda>k.
      act_bind (observe (EvProgressChanged (job_id k) (job_progress k)) k) (\<lambda>_. ret k)))"
  have "triple (tracks_here i j0 j) ?save (\<lambda>k. tracks_here i j0 k) (\<lambda>_. kept_here i j0)"
    if "progress_wf p"
    using that
    by (auto intro!: triple_bind [OF now_utc_triple] triple_bind [OF observe_triple] triple_ret
        triple_bind [OF triple_pre [OF commit_job_triple [OF assms]]]
        triple_pre [OF triple_bind [OF observe_triple]]
        intro: tracks_moved [OF tracks_step] quiet_steps)
  then show "triple (\<lambda>w. tracks_here i j0 j w \<and> progress_wf p)
      (if p = job_progress j then ret j else ?save) (\<lambda>k. tracks_here i j0 k) (\<lambda>_. kept_here i j0)"
    by (auto intro!: triple_fact triple_if triple_ret)
qed

lemma transfer_loop_triple:
  assumes "env_fine env i"
  shows "triple (tracks_here i j0 j) (transfer_loop env est ticks reported j)
    (\<lambda>(k, _). tracks_here i j0 k) (\<lambda>_. kept_here i j0)"
proof (induction ticks arbitrary: reported j)
  case (Cons tick ticks)
  show ?case
    by (auto simp: Let_def intro!: triple_bind [OF yield_point_tracks [OF assms]]
        triple_bind [OF checkpoint_progress_triple [OF assms]] Cons)
qed (auto intro!: triple_ret)

subsection \<open>Reports\<close>

abbreviation said :: "download_id \<Rightarrow> download_job \<Rightarrow> event \<Rightarrow> 'r manager \<Rightarrow> bool" where
  "said i j0 ev w \<equiv>
     kept_here i j0 w \<and> event_download_id ev = i \<and> event_true (stored (mgr_repo w)) ev"

lemma lift_job_then:
  assumes "\<And>k w. r = Inr k \<Longrightarrow> tracks_here i j0 j w \<Longrightarrow> moved_here i j0 k w"
    and "\<And>k. r = Inr k \<Longrightarrow> triple (moved_here i j0 k) (f k) Q (\<lambda>_. kept_here i j0)"
  shows "triple (tracks_here i j0 j) (act_bind (lift_result (map_err g r)) f) Q (\<lambda>_. kept_here i j0)"
proof (cases r)
  case (Inl e)
  then show ?thesis by (auto simp: triple_def act_bind_def lift_result_def intro: tracks_kept)
next
  case (Inr k)
  with assms(2) [OF Inr] assms(1) [OF Inr] show ?thesis
    by (simp add: triple_def act_bind_def lift_result_def)
qed

lemma committed_next:
  assumes "p = k\<lparr>job_updated_at := job_updated_at p\<rparr> \<Longrightarrow>
      triple (\<lambda>w. tracks_here i j0 p w \<and> stored (mgr_repo w) i = Some p) m Q E"
  shows "triple (\<lambda>w. tracks_here i j0 p w \<and> stored (mgr_repo w) i = Some p \<and>
      p = k\<lparr>job_updated_at := job_updated_at p\<rparr>) m Q E"
  by (rule triple_pre [where P' = "\<lambda>w. (tracks_here i j0 p w \<and> stored (mgr_repo w) i = Some p) \<and>
        p = k\<lparr>job_updated_at := job_updated_at p\<rparr>"], rule triple_fact, erule assms) auto

lemma commit_then:
  assumes "env_fine env i"
    and "\<And>p. p = k\<lparr>job_updated_at := job_updated_at p\<rparr> \<Longrightarrow>
      triple (\<lambda>w. tracks_here i j0 p w \<and> stored (mgr_repo w) i = Some p) (f p) Q (\<lambda>_. kept_here i j0)"
  shows "triple (moved_here i j0 k) (act_bind (commit_job env k) f) Q (\<lambda>_. kept_here i j0)"
  by (rule triple_bind [OF commit_job_triple [OF assms(1)] committed_next])
     (erule assms(2))

lemma commit_then_err:
  assumes "env_fine env i"
    and "\<And>p. p = k\<lparr>job_updated_at := job_updated_at p\<rparr> \<Longrightarrow>
      triple (\<lambda>w. tracks_here i j0 p w \<and> stored (mgr_repo w) i = Some p) (f p) Q (\<lambda>_. kept_here i j0)"
  shows "triple (moved_here i j0 k) (act_bind (act_map_err g (commit_job env k)) f) Q (\<lambda>_. kept_here i j0)"
  by (rule triple_bind [OF triple_map_err_const [OF commit_job_triple [OF assms(1)]] committed_next])
     (erule assms(2))

lemma job_then:
  assumes "\<And>j. triple (tracks_here i j0 j) (f j) Q (\<lambda>_. kept_here i j0)"
  shows "triple (kept_here i j0) (act_bind (job_or e i) f) Q (\<lambda>_. kept_here i j0)"
proof (rule triple_bind [OF job_or_triple])
  fix j
  show "triple (\<lambda>w. tracks_here i j0 j w \<and> stored (mgr_repo w) i = Some j) (f j) Q (\<lambda>_. kept_here i j0)"
    by (rule triple_pre [OF assms]) simp
qed

lemma lift_value_then:
  assumes "\<And>x. r = Inr x \<Longrightarrow> triple (tracks_here i j0 j) (f x) Q (\<lambda>_. kept_here i j0)"
  shows "triple (tracks_here i j0 j) (act_bind (lift_result (map_err g r)) f) Q (\<lambda>_. kept_here i j0)"
  using assms
  by (cases r) (auto simp: triple_def act_bind_def lift_result_def intro: tracks_kept)

lemmas now_then = triple_bind [OF now_utc_triple]
lemmas observe_then = triple_bind [OF observe_triple]

lemma confirm_published_output_triple:
  assumes "env_fine env i"
  shows "triple (kept_here i j0) (confirm_published_output env i out) (said i j0) (\<lambda>_. kept_here i j0)"
  unfolding confirm_published_output_def
proof (rule job_then, intro triple_if triple_throw now_then lift_job_then commit_then [OF assms]
    triple_ret)
  fix j t k w
  assume t: "transition_to (resolve_destination j (out_destination out) t) Completed t = Inr k"
    and w: "tracks_here i j0 j w"
  show "moved_here i j0 k w"
    by (rule tracks_edge [OF tracks_step [OF w quiet_steps(3)] step_transition [OF t]])
       (use t in \<open>auto simp: transition_to_Inr execution_edge_def\<close>)
next
  fix j t k p w
  assume "transition_to (resolve_destination j (out_destination out) t) Completed t = Inr k"
    "p = k\<lparr>job_updated_at := job_updated_at p\<rparr>"
  then have "job_state p = Completed" "job_resolved p = Some (out_destination out)"
    by (auto dest!: touched_fields simp: transition_to_Inr resolve_destination_def)
  moreover assume "tracks_here i j0 p w \<and> stored (mgr_repo w) i = Some p"
  ultimately show "said i j0 (EvCompleted i (out_destination out)) w"
    by (auto intro: tracks_kept)
qed (auto intro: tracks_kept)

lemma record_execution_failure_triple:
  assumes "env_fine env i"
  shows "triple (kept_here i j0) (record_execution_failure env i failure)
    (\<lambda>r. said i j0 (rep_event r)) (\<lambda>_. kept_here i j0)"
  unfolding record_execution_failure_def
proof (rule job_then, intro now_then lift_job_then commit_then_err [OF assms] triple_ret)
  fix j t k w
  assume k: "job_fail j failure t = Inr k"
  show "tracks_here i j0 j w \<Longrightarrow> moved_here i j0 k w"
    by (erule tracks_edge [OF _ step_fail [OF k]]) (use k in \<open>auto simp: job_fail_Inr execution_edge_def\<close>)
next
  fix j t k
  assume k: "job_fail j failure t = Inr k"
  fix p w
  assume "p = k\<lparr>job_updated_at := job_updated_at p\<rparr>"
  with k have "job_state p = Failed" "job_failure p = Some failure"
    by (auto dest!: touched_fields simp: job_fail_Inr)
  moreover assume "tracks_here i j0 p w \<and> stored (mgr_repo w) i = Some p"
  ultimately show "said i j0 (rep_event \<lparr>rep_event = EvFailed i failure, rep_cleanup_pending = False\<rparr>) w"
    by (auto intro: tracks_kept)
qed

lemma stop_progress_triple:
  "triple (tracks_here i j0 j) (stop_progress env j written est rewind)
     (\<lambda>k w. tracks_here i j0 k w \<and> job_id k = job_id j) (\<lambda>_. kept_here i j0)"
proof (cases written)
  case None
  then show ?thesis by (auto simp: stop_progress_def intro: triple_ret)
next
  case (Some n)
  have "triple (tracks_here i j0 j)
      (act_bind (lift_result (stopped_execution_progress j n est rewind)) (\<lambda>p.
         act_bind (now_utc env) (\<lambda>t. ret (update_progress j p t))))
      (\<lambda>k w. tracks_here i j0 k w \<and> job_id k = job_id j) (\<lambda>_. kept_here i j0)"
    by (cases "stopped_execution_progress j n est rewind")
       (auto simp: triple_def act_bind_def lift_result_def now_utc_def ret_def
         intro: tracks_kept tracks_step quiet_steps dest: stopped_progress_wf)
  with Some show ?thesis by (simp add: stop_progress_def)
qed

lemma request_state_edge [simp]: "request_state req \<noteq> Queued"
  by (cases req) simp_all

lemma transition_then:
  assumes [simp]: "next \<noteq> Queued"
    and "\<And>k t. can_transition_to (job_state j) next \<Longrightarrow> k = j\<lparr>job_state := next, job_updated_at := t\<rparr> \<Longrightarrow>
    triple (moved_here i j0 k) (f k) Q (\<lambda>_. kept_here i j0)"
  shows "triple (tracks_here i j0 j) (act_bind (act_map_err g (execution_transition env j next)) f)
    Q (\<lambda>_. kept_here i j0)"
proof -
  have "triple (tracks_here i j0 j) (act_map_err g (execution_transition env j next))
     (\<lambda>k w. moved_here i j0 k w \<and>
        (can_transition_to (job_state j) next \<and> (\<exists>t. k = j\<lparr>job_state := next, job_updated_at := t\<rparr>)))
     (\<lambda>_. kept_here i j0)"
    unfolding execution_transition_def
    using assms(1)
    by (intro triple_map_err now_then triple_lift_result)
       (auto simp: result_simps execution_edge_def elim: tracks_edge [OF _ job_step_transition] tracks_kept)
  then show ?thesis
    by (rule triple_bind) (rule triple_fact, use assms(2) in blast)
qed

lemma record_execution_stop_triple:
  assumes "env_fine env i"
  shows "triple (tracks_here i j0 j) (record_execution_stop env j written req est rewind)
    (\<lambda>r. said i j0 (rep_event r)) (\<lambda>_. kept_here i j0)"
proof (cases "job_id j = i")
  case False
  then show ?thesis by (simp add: triple_def tracks_def)
next
  case True
  show ?thesis
    unfolding record_execution_stop_def Let_def True
  proof (intro triple_bind [OF job_or_tracks] triple_bind [OF triple_map_err_const [OF stop_progress_triple]]
      triple_fact transition_then commit_then_err [OF assms])
    fix k
    show "request_state req \<noteq> Queued" by simp
  next
    fix before k l :: download_job and t and p :: download_job
    assume "l = k\<lparr>job_state := request_state req, job_updated_at := t\<rparr>"
      "p = l\<lparr>job_updated_at := job_updated_at p\<rparr>"
    then have "job_state p = request_state req" by (auto dest!: touched_fields)
    then show "triple (\<lambda>w. tracks_here i j0 p w \<and> stored (mgr_repo w) i = Some p)
       (act_bind (if job_progress p \<noteq> job_progress before
                  then observe (EvProgressChanged i (job_progress p)) p else ret ()) (\<lambda>_.
        ret \<lparr>rep_event = EvStateChanged i (job_state j) (request_state req), rep_cleanup_pending = False\<rparr>))
       (\<lambda>r. said i j0 (rep_event r)) (\<lambda>_. kept_here i j0)"
      by (auto simp: triple_def act_bind_def observe_def modify_state_def ret_def intro: tracks_kept)
  qed
qed

lemma read_request_then:
  assumes "env_fine env i" "\<And>x. triple (tracks_here i j0 j) (f x) Q (\<lambda>_. kept_here i j0)"
  shows "triple (tracks_here i j0 j) (act_bind (read_request env) f) Q (\<lambda>_. kept_here i j0)"
  by (rule triple_bind [OF read_request_triple [OF assms(1)] assms(2)])

lemma stop_from:
  assumes "env_fine env i"
  shows "triple (\<lambda>w. tracks_here i j0 j w \<and> stored (mgr_repo w) i = Some j)
    (record_execution_stop env j written req est rewind) (\<lambda>r. said i j0 (rep_event r)) (\<lambda>_. kept_here i j0)"
  by (rule triple_pre [OF record_execution_stop_triple [OF assms]]) simp

lemma execute_publication_triple:
  assumes "env_fine env i"
  shows "triple (kept_here i j0) (execute_publication env i staged)
    (\<lambda>r. said i j0 (rep_event r)) (\<lambda>_. kept_here i j0)"
  unfolding execute_publication_def
proof (rule triple_bind [OF yield_point_kept [OF assms]], intro triple_case_sum triple_if triple_throw
    record_execution_failure_triple [OF assms]
    triple_bind [OF triple_map_err_const [OF confirm_published_output_triple [OF assms]]] triple_ret)
qed auto

lemma execute_staged_triple:
  assumes "env_fine env i"
  shows "triple (tracks_here i j0 j) (execute_staged env i j reported tot est staged)
    (\<lambda>r. said i j0 (rep_event r)) (\<lambda>_. kept_here i j0)"
  unfolding execute_staged_def Let_def
proof (intro lift_value_then read_request_then [OF assms] triple_case_option
    record_execution_stop_triple [OF assms] now_then)
  fix p t
  assume "staged_progress j reported tot est (staged_written staged) = Inr p"
  then have step: "quiet_step j (update_progress j p t)"
    by (intro quiet_steps) (rule staged_progress_wf)
  let ?rest = "\<lambda>job. act_bind (observe (EvStateChanged i Downloading Finalizing) job) (\<lambda>_.
      act_bind (if p \<noteq> job_progress j then observe (EvProgressChanged i (job_progress job)) job
        else ret ()) (\<lambda>_. execute_publication env i staged))"
  have rest: "triple (\<lambda>w. tracks_here i j0 k w \<and> stored (mgr_repo w) i = Some k) (?rest k)
      (\<lambda>r. said i j0 (rep_event r)) (\<lambda>_. kept_here i j0)" for k
  proof (rule triple_pre [where P' = "tracks_here i j0 k"])
    show "triple (tracks_here i j0 k) (?rest k) (\<lambda>r. said i j0 (rep_event r)) (\<lambda>_. kept_here i j0)"
      by (intro observe_then triple_bind [where R = "\<lambda>_. tracks_here i j0 k"] triple_if observe_triple
            triple_ret triple_pre [OF execute_publication_triple [OF assms]]) (auto intro: tracks_kept)
  qed simp
  show "triple (tracks_here i j0 j)
      (act_bind (act_map_err MeRepository
         (execution_transition env (update_progress j p t) Finalizing)) (\<lambda>job.
       act_bind (act_map_err MeRepository (commit_job env job)) ?rest))
      (\<lambda>r. said i j0 (rep_event r)) (\<lambda>_. kept_here i j0)"
    by (rule triple_pre [where P' = "tracks_here i j0 (update_progress j p t)"],
        intro transition_then commit_then_err [OF assms] rest) (auto intro: tracks_step [OF _ step])
qed

lemma execute_stopped_triple:
  assumes "env_fine env i"
  shows "triple (tracks_here i j0 j) (execute_stopped env j reported est rewind written)
    (\<lambda>r. said i j0 (rep_event r)) (\<lambda>_. kept_here i j0)"
  unfolding execute_stopped_def
  by (intro read_request_then [OF assms] triple_case_option triple_if triple_throw
      record_execution_stop_triple [OF assms]) (auto intro: tracks_kept)

lemma execute_transfer_triple:
  assumes "env_fine env i"
  shows "triple (tracks_here i j0 j) (execute_transfer env i j prepared)
    (\<lambda>r. said i j0 (rep_event r)) (\<lambda>_. kept_here i j0)"
  unfolding execute_transfer_def Let_def
proof (rule triple_bind [OF triple_map_err_const [OF transfer_loop_triple [OF assms]]])
  fix res :: "download_job \<times> u64"
  obtain k n where res: "res = (k, n)" by (cases res)
  let ?est = "prep_total_is_estimated prepared" and ?run = "prep_run prepared"
  let ?n = "case run_last ?run of Some n \<Rightarrow> n | None \<Rightarrow> n"
  have fail: "triple (tracks_here i j0 k)
      (act_bind (act_map_err MeRepository (checkpoint_progress env k ?n ?est)) (\<lambda>_.
         record_execution_failure env i failure))
      (\<lambda>r. said i j0 (rep_event r)) (\<lambda>_. kept_here i j0)" for failure
    by (rule triple_bind [OF triple_map_err_const [OF checkpoint_progress_triple [OF assms]]],
        rule triple_pre [OF record_execution_failure_triple [OF assms]], rule tracks_kept)
  have "triple (tracks_here i j0 k)
      (act_bind (lift_result (map_err MeRepository (execution_progress k ?n ?est))) (\<lambda>_.
       case run_result ?run of
         Inr (Finished staged) \<Rightarrow>
           execute_staged env i k ?n (prep_total_bytes prepared) ?est staged
       | Inr (Stopped written) \<Rightarrow>
           execute_stopped env k ?n ?est (prep_may_rewind prepared) written
       | Inl failure \<Rightarrow>
           act_bind (act_map_err MeRepository (checkpoint_progress env k ?n ?est)) (\<lambda>_.
           record_execution_failure env i failure)))
      (\<lambda>r. said i j0 (rep_event r)) (\<lambda>_. kept_here i j0)"
    by (rule lift_value_then)
       (auto simp: fail execute_staged_triple [OF assms] execute_stopped_triple [OF assms]
         split: sum.split transfer_outcome.split)
  with res show "triple ((\<lambda>(k, _). tracks_here i j0 k) res)
      (case res of (job, n) \<Rightarrow>
       act_bind (lift_result (map_err MeRepository
         (execution_progress job (case run_last ?run of Some n \<Rightarrow> n | None \<Rightarrow> n) ?est))) (\<lambda>_.
       case run_result ?run of
         Inr (Finished staged) \<Rightarrow>
           execute_staged env i job (case run_last ?run of Some n \<Rightarrow> n | None \<Rightarrow> n)
             (prep_total_bytes prepared) ?est staged
       | Inr (Stopped written) \<Rightarrow>
           execute_stopped env job (case run_last ?run of Some n \<Rightarrow> n | None \<Rightarrow> n) ?est
             (prep_may_rewind prepared) written
       | Inl failure \<Rightarrow>
           act_bind (act_map_err MeRepository
             (checkpoint_progress env job (case run_last ?run of Some n \<Rightarrow> n | None \<Rightarrow> n) ?est)) (\<lambda>_.
           record_execution_failure env i failure)))
      (\<lambda>r. said i j0 (rep_event r)) (\<lambda>_. kept_here i j0)"
    by simp
qed

lemma execute_prepared_triple:
  assumes "env_fine env i"
  shows "triple (tracks_here i j0 j) (execute_prepared env i j prepared)
    (\<lambda>r. said i j0 (rep_event r)) (\<lambda>_. kept_here i j0)"
  unfolding execute_prepared_def Let_def
proof (rule triple_bind [where R = "\<lambda>_. tracks_here i j0 j"], rule triple_modify, simp,
    intro lift_value_then now_then)
  fix p t
  assume "progress_new (prep_starting_bytes prepared) (prep_total_bytes prepared) = Inr p"
  then have p: "progress_wf p" by (rule progress_new_wf)
  let ?j = "resolve_destination (update_progress (set_resource j (prep_resource prepared) t) p t)
     (prep_destination prepared) t"
  have steps: "tracks_here i j0 j w \<Longrightarrow> tracks_here i j0 ?j w" for w
    by (intro tracks_step [OF _ quiet_steps(3)] tracks_step [OF _ quiet_steps(1) [OF p]]
        tracks_step [OF _ quiet_steps(2)])
  have rest: "triple (\<lambda>w. tracks_here i j0 k w \<and> stored (mgr_repo w) i = Some k)
      (act_bind (observe (EvStateChanged i Inspecting Downloading) k) (\<lambda>_.
         execute_transfer env i k prepared))
      (\<lambda>r. said i j0 (rep_event r)) (\<lambda>_. kept_here i j0)" for k
    by (rule triple_pre [OF observe_then [OF execute_transfer_triple [OF assms]]]) simp
  have "triple (tracks_here i j0 ?j)
      (act_bind (read_request env) (\<lambda>request.
       case request of
         Some req \<Rightarrow> record_execution_stop env ?j None req (prep_total_is_estimated prepared) False
       | None \<Rightarrow>
           act_bind (act_map_err MeRepository (execution_transition env ?j Downloading)) (\<lambda>job.
           act_bind (act_map_err MeRepository (commit_job env job)) (\<lambda>job.
           act_bind (observe (EvStateChanged i Inspecting Downloading) job) (\<lambda>_.
           execute_transfer env i job prepared)))))
      (\<lambda>r. said i j0 (rep_event r)) (\<lambda>_. kept_here i j0)"
    by (intro read_request_then [OF assms] triple_case_option record_execution_stop_triple [OF assms]
        transition_then commit_then_err [OF assms] rest) simp
  then show "triple (tracks_here i j0 j)
      (act_bind (read_request env) (\<lambda>request.
       case request of
         None \<Rightarrow>
           act_bind (act_map_err MeRepository (execution_transition env ?j Downloading)) (\<lambda>job.
           act_bind (act_map_err MeRepository (commit_job env job)) (\<lambda>job.
           act_bind (observe (EvStateChanged i Inspecting Downloading) job) (\<lambda>_.
           execute_transfer env i job prepared)))
       | Some req \<Rightarrow> record_execution_stop env ?j None req (prep_total_is_estimated prepared) False))
      (\<lambda>r. said i j0 (rep_event r)) (\<lambda>_. kept_here i j0)"
    by (rule triple_pre) (rule steps)
qed

lemma execute_inspection_triple:
  assumes "env_fine env i"
  shows "triple (tracks_here i j0 j) (execute_inspection env exec i j)
    (\<lambda>r. said i j0 (rep_event r)) (\<lambda>_. kept_here i j0)"
  unfolding execute_inspection_def
  by (intro read_request_then [OF assms] triple_case_option triple_case_sum
      record_execution_stop_triple [OF assms] execute_prepared_triple [OF assms]
      triple_pre [OF record_execution_failure_triple [OF assms]]) (rule tracks_kept)

lemma execute_inner_triple:
  assumes "env_fine env i"
  shows "triple (kept_here i j0) (execute_inner env exec i)
    (\<lambda>r. said i j0 (rep_event r)) (\<lambda>_. kept_here i j0)"
  unfolding execute_inner_def
proof (intro job_then triple_if triple_throw read_request_then [OF assms] triple_case_option
    record_execution_stop_triple [OF assms] transition_then commit_then_err [OF assms])
  fix k
  show "triple (\<lambda>w. tracks_here i j0 k w \<and> stored (mgr_repo w) i = Some k)
      (execute_inspection env exec i k) (\<lambda>r. said i j0 (rep_event r)) (\<lambda>_. kept_here i j0)"
    by (rule triple_pre [OF execute_inspection_triple [OF assms]]) simp
qed (rule tracks_kept, assumption, simp)

theorem execute_report:
  assumes "env_fine env i" "coherent_here w" "stored (mgr_repo w) i = Some j0" "Hist i j0 (mgr_repo w) j0"
    "execute_controlled_with_updates env exec handle i w = (res, w')"
  shows "coherent_here w'"
    and "\<exists>j. stored (mgr_repo w') i = Some j \<and> Hist i j0 (mgr_repo w') j"
    and "res = Inr r \<Longrightarrow>
      event_download_id (rep_event r) = i \<and> event_true (stored (mgr_repo w')) (rep_event r)"
proof -
  let ?w = "w\<lparr>mgr_cancel := handle, mgr_observed := []\<rparr>"
  have "kept_here i j0 ?w"
    using assms(2-4) by (simp add: kept_def)
  moreover have "execute_inner env exec i ?w = (res, w')"
    using assms(5) by (simp add: execute_controlled_with_updates_def act_bind_def modify_state_def)
  ultimately have "case res of Inl _ \<Rightarrow> kept_here i j0 w' | Inr r \<Rightarrow> said i j0 (rep_event r) w'"
    by (rule tripleD [OF execute_inner_triple [OF assms(1)]])
  then show "coherent_here w'" "\<exists>j. stored (mgr_repo w') i = Some j \<and> Hist i j0 (mgr_repo w') j"
    "res = Inr r \<Longrightarrow>
      event_download_id (rep_event r) = i \<and> event_true (stored (mgr_repo w')) (rep_event r)"
    by (auto simp: kept_def split: sum.splits)
qed

lemma execute_unknown:
  "coherent_here w \<Longrightarrow> stored (mgr_repo w) i = None \<Longrightarrow>
     execute_controlled_with_updates env exec handle i w =
       (Inl (MeNotFound i), w\<lparr>mgr_cancel := handle, mgr_observed := []\<rparr>)"
  by (simp add: execute_controlled_with_updates_def act_bind_def modify_state_def execute_inner_def
      job_or_def get_state_def lift_result_def manager_job_def coherent_def)

end

context download_repository
begin

subsection \<open>Start\<close>

lemma load_jobs_ordered:
  "sorted_wrt (<) (map job_id js) \<Longrightarrow> \<forall>e \<in> set m. \<forall>j \<in> set js. fst e < job_id j \<Longrightarrow>
     load_jobs js m = Inr (m @ map (\<lambda>j. (job_id j, j)) js)"
proof (induction js arbitrary: m)
  case (Cons j js)
  have last: "bt_insert (job_id j) j m = m @ [(job_id j, j)]"
    using Cons.prems(2) by (induction m) auto
  have none: "bt_get m (job_id j) = None"
    using Cons.prems(2) by (force simp: bt_get_def map_of_eq_None_iff)
  have "load_jobs js (m @ [(job_id j, j)]) = Inr ((m @ [(job_id j, j)]) @ map (\<lambda>j. (job_id j, j)) js)"
    using Cons.prems by (intro Cons.IH) auto
  with last none show ?case by simp
qed simp

lemma listed_registry:
  assumes "valid r" "repo_list R r = (Inr js, r')"
  shows "load_jobs js [] = Inr (map (\<lambda>j. (job_id j, j)) js)"
    "bt_ordered (map (\<lambda>j. (job_id j, j)) js)"
    "bt_get (map (\<lambda>j. (job_id j, j)) js) = stored r"
proof -
  note l = list_ok [OF assms]
  then show "load_jobs js [] = Inr (map (\<lambda>j. (job_id j, j)) js)"
    "bt_ordered (map (\<lambda>j. (job_id j, j)) js)"
    using load_jobs_ordered [of js "[]"] by (simp_all add: bt_ordered_def comp_def)
  have d: "distinct (map job_id js)" using l by (simp add: strict_sorted_iff)
  show "bt_get (map (\<lambda>j. (job_id j, j)) js) = stored r"
  proof (rule map_eqI)
    fix i j
    have "map_of (map (\<lambda>j. (job_id j, j)) js) i = Some j \<longleftrightarrow> j \<in> set js \<and> job_id j = i"
      using d by (subst map_of_eq_Some_iff) (auto simp: comp_def)
    moreover have "j \<in> set js \<and> job_id j = i \<longleftrightarrow> stored r i = Some j"
      using l stored_key [OF assms(1), of i j] by blast
    ultimately show "bt_get (map (\<lambda>j. (job_id j, j)) js) i = Some j \<longleftrightarrow> stored r i = Some j"
      by (simp add: bt_get_def)
  qed
qed

lemma interrupt_job_cases:
  assumes "coherent stored valid w" "env_repo env = R" "\<And>n. env_calls env n = []"
    "stored (mgr_repo w) (job_id j) = Some j" "requires_recovery_after_restart (job_state j)"
    "interrupt_job env t j w = (res, w')"
  shows "coherent stored valid w' \<and>
    (case res of
       Inl e \<Rightarrow> stored (mgr_repo w') = stored (mgr_repo w)
     | Inr _ \<Rightarrow> \<exists>u. stored (mgr_repo w') =
         (stored (mgr_repo w))(job_id j \<mapsto> j\<lparr>job_state := Interrupted, job_updated_at := u\<rparr>))"
proof -
  let ?w = "w\<lparr>mgr_points := Suc (mgr_points w),
    mgr_cancel := fold control_apply (env_control env (mgr_points w)) (mgr_cancel w)\<rparr>"
  let ?c = "j\<lparr>job_state := Interrupted, job_updated_at := max t (job_updated_at j)\<rparr>"
  have can: "can_transition_to (job_state j) Interrupted"
    using assms(5) by (cases "job_state j") auto
  have coh: "coherent stored valid ?w" using assms(1) by simp
  have wf: "job_wf ?c"
    using stored_key [OF _ assms(4)] assms(1) by (simp add: coherent_def job_wf_def)
  have same: "same_identity j ?c" by (simp add: same_identity_def)
  obtain sres w1 where s: "save_job_locked env ?c ?w = (sres, w1)" by fastforce
  have "transition_to j Interrupted (max t (job_updated_at j)) = Inr ?c"
    using can by (simp add: transition_to_Inr)
  then have "res = rmap (\<lambda>_. ()) sres" "w' = w1"
    using assms(3,6) s
    by (cases sres; simp add: interrupt_job_def act_bind_def lift_result_def commit_job_def
        yield_point_def modify_state_def Let_def ret_def)+
  with save_job_locked_cases [OF coh wf assms(2) _ _ s, of j] assms(4) same show ?thesis
    by (cases sres) (auto, metis)
qed

lemma interrupt_jobs_cases:
  assumes "coherent stored valid w" "env_repo env = R" "\<And>n. env_calls env n = []"
    "\<And>j. j \<in> set js \<Longrightarrow> stored (mgr_repo w) (job_id j) = Some j \<and> requires_recovery_after_restart (job_state j)"
    "distinct (map job_id js)"
    "act_for js (interrupt_job env t) w = (res, w')"
  shows "coherent stored valid w' \<and>
    (\<forall>i j. stored (mgr_repo w) i = Some j \<longrightarrow>
       stored (mgr_repo w') i = Some j \<and> (j \<in> set js \<longrightarrow> res \<noteq> Inr ()) \<or>
       j \<in> set js \<and> (\<exists>u. stored (mgr_repo w') i = Some (j\<lparr>job_state := Interrupted, job_updated_at := u\<rparr>))) \<and>
    (\<forall>i. stored (mgr_repo w) i = None \<longrightarrow> stored (mgr_repo w') i = None)"
  using assms
proof (induction js arbitrary: w)
  case Nil
  then show ?case by (simp add: ret_def)
next
  case (Cons j js)
  obtain r1 w1 where one: "interrupt_job env t j w = (r1, w1)" by fastforce
  note c = interrupt_job_cases [OF Cons.prems(1-3) _ _ one]
  have v: "valid (mgr_repo w)" using Cons.prems(1) by (simp add: coherent_def)
  show ?case
  proof (cases r1)
    case (Inl e)
    with one Cons.prems(6) have "res = Inl e" "w' = w1" by (simp_all add: act_bind_def)
    with c Inl Cons.prems(4) [of j] show ?thesis by simp
  next
    case (Inr u)
    with c Cons.prems(4) [of j] obtain x where coh: "coherent stored valid w1"
      and st: "stored (mgr_repo w1) = (stored (mgr_repo w))(job_id j \<mapsto> j\<lparr>job_state := Interrupted, job_updated_at := x\<rparr>)"
      by auto
    from Inr one Cons.prems(6) have rest: "act_for js (interrupt_job env t) w1 = (res, w')"
      by (simp add: act_bind_def)
    have other: "job_id k \<noteq> job_id j" if "k \<in> set js" for k
      using that Cons.prems(5) by (auto simp: image_iff)
    have js: "stored (mgr_repo w1) (job_id k) = Some k \<and> requires_recovery_after_restart (job_state k)"
      if "k \<in> set js" for k
      using that Cons.prems(4) [of k] other st by auto
    note IH = Cons.IH [OF coh Cons.prems(2,3) js _ rest]
    have key: "job_id k = i" if "stored (mgr_repo w) i = Some k" for i k
      using stored_key [OF v that] by simp
    have j: "stored (mgr_repo w) (job_id j) = Some j" using Cons.prems(4) [of j] by simp
    have notin: "j\<lparr>job_state := Interrupted, job_updated_at := x\<rparr> \<notin> set js"
      using other by fastforce
    have IH': "coherent stored valid w' \<and>
      (\<forall>i k. stored (mgr_repo w1) i = Some k \<longrightarrow>
         stored (mgr_repo w') i = Some k \<and> (k \<in> set js \<longrightarrow> res \<noteq> Inr ()) \<or>
         k \<in> set js \<and> (\<exists>u. stored (mgr_repo w') i = Some (k\<lparr>job_state := Interrupted, job_updated_at := u\<rparr>))) \<and>
      (\<forall>i. stored (mgr_repo w1) i = None \<longrightarrow> stored (mgr_repo w') i = None)"
      using IH Cons.prems(5) by simp
    show ?thesis
    proof (intro conjI allI impI)
      show "coherent stored valid w'" using IH' by simp
    next
      fix i k assume k: "stored (mgr_repo w) i = Some k"
      show "stored (mgr_repo w') i = Some k \<and> (k \<in> set (j # js) \<longrightarrow> res \<noteq> Inr ()) \<or>
         k \<in> set (j # js) \<and> (\<exists>u. stored (mgr_repo w') i = Some (k\<lparr>job_state := Interrupted, job_updated_at := u\<rparr>))"
      proof (cases "i = job_id j")
        case True
        with k j have "k = j" by simp
        moreover have "stored (mgr_repo w1) i = Some (j\<lparr>job_state := Interrupted, job_updated_at := x\<rparr>)"
          using st True by simp
        ultimately show ?thesis using IH' notin by auto
      next
        case False
        then have "stored (mgr_repo w1) i = Some k" "k \<noteq> j" using k st key [OF k] by auto
        with IH' show ?thesis by auto
      qed
    next
      fix i assume "stored (mgr_repo w) i = None"
      moreover from this j have "i \<noteq> job_id j" by auto
      ultimately show "stored (mgr_repo w') i = None" using IH' st by simp
    qed
  qed
qed

theorem manager_start_recovers:
  assumes "valid (mgr_repo w)" "env_repo env = R" "manager_start env w = (Inr (), w')"
  shows "coherent stored valid w'"
    and "stored (mgr_repo w) i = None \<Longrightarrow> stored (mgr_repo w') i = None"
    and "stored (mgr_repo w) i = Some j \<Longrightarrow> \<not> requires_recovery_after_restart (job_state j) \<Longrightarrow>
      stored (mgr_repo w') i = Some j"
    and "stored (mgr_repo w) i = Some j \<Longrightarrow> requires_recovery_after_restart (job_state j) \<Longrightarrow>
      \<exists>u. stored (mgr_repo w') i = Some (j\<lparr>job_state := Interrupted, job_updated_at := u\<rparr>)"
proof -
  let ?recover = "\<lambda>j. requires_recovery_after_restart (job_state j)"
  let ?jobs = "\<lambda>js. map (\<lambda>j. (job_id j, j)) js"
  obtain lres r where l: "repo_list R (mgr_repo w) = (lres, r)" by fastforce
  with assms(2,3) obtain js where js: "lres = Inr js"
    by (cases lres) (auto simp: manager_start_def act_bind_def with_repo_def)
  note listed = listed_registry [OF assms(1) l [unfolded js]]
  have r: "valid r" "stored r = stored (mgr_repo w)" using list_state [OF assms(1) l] by simp_all
  let ?w = "w\<lparr>mgr_repo := r, mgr_jobs := ?jobs js, mgr_clock := Suc (mgr_clock w)\<rparr>"
  have run: "act_for (filter ?recover js)
      (interrupt_job (env\<lparr>env_calls := \<lambda>_. []\<rparr>) (env_now env (mgr_clock w))) ?w = (Inr (), w')"
    using assms(2,3) l js listed(1)
    by (simp add: manager_start_def act_bind_def with_repo_def lift_result_def modify_state_def
        now_utc_def Let_def bt_values_def comp_def)
  have coh: "coherent stored valid ?w"
    using r listed by (simp add: coherent_def)
  note lst = list_ok [OF assms(1) l [unfolded js]]
  have mem: "j \<in> set js \<longleftrightarrow> stored (mgr_repo w) (job_id j) = Some j" for j using lst by simp
  have dist: "distinct (map job_id (filter ?recover js))"
    using lst by (simp add: strict_sorted_iff distinct_map_filter)
  have "coherent stored valid w' \<and>
    (\<forall>i j. stored (mgr_repo ?w) i = Some j \<longrightarrow>
       stored (mgr_repo w') i = Some j \<and> (j \<in> set (filter ?recover js) \<longrightarrow> (Inr () :: repository_error + unit) \<noteq> Inr ()) \<or>
       j \<in> set (filter ?recover js) \<and>
         (\<exists>u. stored (mgr_repo w') i = Some (j\<lparr>job_state := Interrupted, job_updated_at := u\<rparr>))) \<and>
    (\<forall>i. stored (mgr_repo ?w) i = None \<longrightarrow> stored (mgr_repo w') i = None)"
    by (rule interrupt_jobs_cases [OF coh _ _ _ dist run]) (use assms(2) r mem in auto)
  then have all: "coherent stored valid w'"
    "\<And>i. stored (mgr_repo w) i = None \<Longrightarrow> stored (mgr_repo w') i = None"
    "\<And>i j. stored (mgr_repo w) i = Some j \<Longrightarrow>
       stored (mgr_repo w') i = Some j \<and> \<not> (j \<in> set js \<and> ?recover j) \<or>
       (j \<in> set js \<and> ?recover j) \<and>
         (\<exists>u. stored (mgr_repo w') i = Some (j\<lparr>job_state := Interrupted, job_updated_at := u\<rparr>))"
    using r(2) by auto
  have key: "stored (mgr_repo w) i = Some j \<Longrightarrow> j \<in> set js" for i j
    using stored_key [OF assms(1), of i j] mem by auto
  show "coherent stored valid w'" by (rule all)
  show "stored (mgr_repo w) i = None \<Longrightarrow> stored (mgr_repo w') i = None" by (rule all)
  show "stored (mgr_repo w) i = Some j \<Longrightarrow> \<not> ?recover j \<Longrightarrow> stored (mgr_repo w') i = Some j"
    using all(3) [of i j] by blast
  show "stored (mgr_repo w) i = Some j \<Longrightarrow> ?recover j \<Longrightarrow>
      \<exists>u. stored (mgr_repo w') i = Some (j\<lparr>job_state := Interrupted, job_updated_at := u\<rparr>)"
    using all(3) [of i j] key by blast
qed

end

end
