(* ===== verification/Storage.thy ===== *)
theory Storage
  imports Application "HOL-Library.Product_Lexorder"
begin

text \<open>
  The SQLite repository of \<open>crates/gunda-storage/src/repository.rs\<close> with the path codec.  A table is
  the list of its rows in primary-key order; a statement is an operation on the tables together
  with the possibility that the database refuses it, and a transaction that does not commit
  leaves the tables as they were.  \<open>Url::parse\<close>, the range of \<open>OffsetDateTime\<close> and the statements
  the database refuses are parameters (\<open>db_env\<close>).
\<close>

section \<open>Rows\<close>

record stored_download =
  row_id :: int
  row_source_url :: string
  row_origin :: string
  row_source_page_url :: "string option"
  row_source_page_title :: "string option"
  row_destination_directory :: string
  row_preferred_filename :: "string option"
  row_conflict_policy :: string
  row_state :: string
  row_downloaded_bytes :: int
  row_total_bytes :: "int option"
  row_created_at_unix_ms :: int
  row_updated_at_unix_ms :: int
  row_resolved_destination_path :: "string option"
  row_resource_kind :: "string option"
  row_resource_display_name :: "string option"
  row_resource_content_type :: "string option"
  row_last_failure_kind :: "string option"
  row_last_failure_message :: "string option"
  row_last_failure_retryable :: "int option"
  row_execution_selection :: "string option"

record header_row =
  hr_download_id :: int
  hr_position :: int
  hr_name :: string
  hr_value :: string
  hr_sensitivity :: string

record tables =
  t_downloads :: "stored_download list"
  t_headers :: "header_row list"
  t_sequence :: int

record database =
  db_tables :: tables
  db_statements :: nat

record db_env =
  url_parse :: "string \<Rightarrow> url option"
  time_in_range :: "int \<Rightarrow> bool"
  statement_fails :: "nat \<Rightarrow> bool"

definition invalid_data :: "string \<Rightarrow> repository_error" where
  "invalid_data m = RepositoryError RkInvalidData m"

definition internal_error :: "string \<Rightarrow> repository_error" where
  "internal_error m = RepositoryError RkInternal m"

section \<open>Encoding of single values\<close>

definition encode_path :: "path \<Rightarrow> repository_error + string" where
  "encode_path p = Inr p"

definition decode_path :: "string \<Rightarrow> repository_error + path" where
  "decode_path b = Inr b"

text \<open>The Windows variant: UTF-16 code units, little endian.\<close>

definition encode_path_windows :: "u16 list \<Rightarrow> repository_error + u8 list" where
  "encode_path_windows wide =
     Inr (concat (map (\<lambda>w. [ucast w, ucast (drop_bit 8 w)]) wide))"

fun u16_pairs :: "u8 list \<Rightarrow> u16 list \<times> u8 list" where
  "u16_pairs (a # b # bs) =
     (let (ws, rest) = u16_pairs bs in ((ucast a + push_bit 8 (ucast b)) # ws, rest))"
| "u16_pairs bs = ([], bs)"

definition decode_path_windows :: "u8 list \<Rightarrow> repository_error + u16 list" where
  "decode_path_windows bytes =
     (let (wide, remainder) = u16_pairs bytes in
      if remainder \<noteq> [] then Inl (invalid_data ''stored Windows path has an invalid byte length'')
      else Inr wide)"

fun encode_origin :: "origin \<Rightarrow> string \<times> string option \<times> string option" where
  "encode_origin Desktop = (''desktop'', None, None)"
| "encode_origin Cli = (''cli'', None, None)"
| "encode_origin (Browser u t) = (''browser'', Some u, t)"

definition decode_origin ::
  "db_env \<Rightarrow> string \<Rightarrow> string option \<Rightarrow> string option \<Rightarrow> repository_error + origin" where
  "decode_origin env o' page_u page_t =
     (if o' = ''desktop'' \<and> page_u = None \<and> page_t = None then Inr Desktop
      else if o' = ''cli'' \<and> page_u = None \<and> page_t = None then Inr Cli
      else if o' = ''browser'' then
        rbind (ok_or (invalid_data ''stored browser origin has no page URL'') page_u) (\<lambda>u.
        rbind (ok_or (invalid_data ''stored browser page URL is invalid'') (url_parse env u)) (\<lambda>u'.
        Inr (Browser u' page_t)))
      else Inl (invalid_data ''stored download origin is invalid''))"

fun encode_conflict_policy :: "conflict_policy \<Rightarrow> string" where
  "encode_conflict_policy Rename = ''rename''"
| "encode_conflict_policy Overwrite = ''overwrite''"
| "encode_conflict_policy FailIfExists = ''fail''"

definition decode_conflict_policy :: "string \<Rightarrow> repository_error + conflict_policy" where
  "decode_conflict_policy p =
     (if p = ''rename'' then Inr Rename
      else if p = ''overwrite'' then Inr Overwrite
      else if p = ''fail'' then Inr FailIfExists
      else Inl (invalid_data ''stored conflict policy is invalid''))"

definition i64_range :: "int \<Rightarrow> bool" where
  "i64_range i \<longleftrightarrow> - (2 ^ 63) \<le> i \<and> i < 2 ^ 63"

definition encode_timestamp :: "timestamp \<Rightarrow> repository_error + int" where
  "encode_timestamp t =
     (let milliseconds = t div 1000000 in
      if i64_range milliseconds then Inr milliseconds
      else Inl (RepositoryError RkConstraintViolation
                  ''download timestamp is outside the supported range''))"

definition decode_timestamp :: "db_env \<Rightarrow> int \<Rightarrow> repository_error + timestamp" where
  "decode_timestamp env ms =
     (if time_in_range env (ms * 1000000) then Inr (ms * 1000000)
      else Inl (invalid_data ''stored download timestamp is invalid''))"

fun encode_state :: "download_state \<Rightarrow> string" where
  "encode_state Queued = ''queued''"
| "encode_state Inspecting = ''inspecting''"
| "encode_state Downloading = ''downloading''"
| "encode_state Paused = ''paused''"
| "encode_state Finalizing = ''finalizing''"
| "encode_state Completed = ''completed''"
| "encode_state Failed = ''failed''"
| "encode_state Cancelled = ''cancelled''"
| "encode_state Interrupted = ''interrupted''"

definition decode_state :: "string \<Rightarrow> repository_error + download_state" where
  "decode_state v =
     (if v = ''queued'' then Inr Queued
      else if v = ''inspecting'' then Inr Inspecting
      else if v = ''downloading'' then Inr Downloading
      else if v = ''paused'' then Inr Paused
      else if v = ''finalizing'' then Inr Finalizing
      else if v = ''completed'' then Inr Completed
      else if v = ''failed'' then Inr Failed
      else if v = ''cancelled'' then Inr Cancelled
      else if v = ''interrupted'' then Inr Interrupted
      else Inl (invalid_data ''stored lifecycle state is invalid''))"

fun encode_resource_kind :: "resource_kind \<Rightarrow> string" where
  "encode_resource_kind KindUnknown = ''unknown''"
| "encode_resource_kind KindFile = ''file''"
| "encode_resource_kind KindHls = ''hls''"
| "encode_resource_kind KindDash = ''dash''"

definition decode_resource_kind :: "string \<Rightarrow> repository_error + resource_kind" where
  "decode_resource_kind v =
     (if v = ''unknown'' then Inr KindUnknown
      else if v = ''file'' then Inr KindFile
      else if v = ''hls'' then Inr KindHls
      else if v = ''dash'' then Inr KindDash
      else Inl (invalid_data ''stored resource kind is invalid''))"

fun encode_failure_kind :: "failure_kind \<Rightarrow> string" where
  "encode_failure_kind FkNetwork = ''network''"
| "encode_failure_kind FkAuthentication = ''authentication''"
| "encode_failure_kind FkRemoteRejected = ''remote_rejected''"
| "encode_failure_kind FkInvalidResponse = ''invalid_response''"
| "encode_failure_kind FkUnsupportedResource = ''unsupported_resource''"
| "encode_failure_kind FkPermissionDenied = ''permission_denied''"
| "encode_failure_kind FkDiskFull = ''disk_full''"
| "encode_failure_kind FkIntegrity = ''integrity''"
| "encode_failure_kind FkStorage = ''storage''"
| "encode_failure_kind FkInternal = ''internal''"

definition decode_failure_kind :: "string \<Rightarrow> repository_error + failure_kind" where
  "decode_failure_kind v =
     (if v = ''network'' then Inr FkNetwork
      else if v = ''authentication'' then Inr FkAuthentication
      else if v = ''remote_rejected'' then Inr FkRemoteRejected
      else if v = ''invalid_response'' then Inr FkInvalidResponse
      else if v = ''unsupported_resource'' then Inr FkUnsupportedResource
      else if v = ''permission_denied'' then Inr FkPermissionDenied
      else if v = ''disk_full'' then Inr FkDiskFull
      else if v = ''integrity'' then Inr FkIntegrity
      else if v = ''storage'' then Inr FkStorage
      else if v = ''internal'' then Inr FkInternal
      else Inl (invalid_data ''stored failure kind is invalid''))"

definition encode_byte_count :: "u64 \<Rightarrow> repository_error + int" where
  "encode_byte_count v =
     (if uint v < 2 ^ 63 then Inr (uint v)
      else Inl (RepositoryError RkConstraintViolation
                  ''download byte count exceeds the storage range''))"

definition decode_byte_count :: "int \<Rightarrow> repository_error + u64" where
  "decode_byte_count v =
     (if v < 0 then Inl (invalid_data ''stored byte count is negative'') else Inr (of_int v))"

section \<open>Decoding of rows\<close>

definition ensure_persistable :: "new_download \<Rightarrow> repository_error + unit" where
  "ensure_persistable d =
     (if has_sensitive_headers (nd_request d) then
        Inl (RepositoryError RkSensitiveDataUnsupported
               ''sensitive request headers cannot be persisted yet'')
      else Inr ())"

definition decode_header :: "header_row \<Rightarrow> repository_error + request_header" where
  "decode_header r =
     (if hr_sensitivity r \<noteq> ''public'' then
        Inl (invalid_data ''stored request header has unsupported sensitivity'')
      else Inr \<lparr>header_name = hr_name r, header_value = hr_value r, header_sensitivity = Public\<rparr>)"

definition to_new_download ::
  "db_env \<Rightarrow> stored_download \<Rightarrow> request_header list \<Rightarrow> repository_error + new_download" where
  "to_new_download env row headers =
     rbind (ok_or (invalid_data ''stored source URL is invalid'') (url_parse env (row_source_url row)))
       (\<lambda>u.
     rbind (decode_origin env (row_origin row) (row_source_page_url row) (row_source_page_title row))
       (\<lambda>o'.
     rbind (decode_path (row_destination_directory row)) (\<lambda>directory.
     rbind (decode_conflict_policy (row_conflict_policy row)) (\<lambda>policy.
     rbind (map_err (\<lambda>_. invalid_data ''stored execution selection is invalid'')
              (traverse_opt selection_new (row_execution_selection row))) (\<lambda>selection.
     let request = request_new u headers;
         request = (case selection of Some sel \<Rightarrow> with_selection request sel | None \<Rightarrow> request)
     in Inr \<lparr>nd_request = request,
             nd_destination = \<lparr>dest_directory = directory,
                               dest_filename = row_preferred_filename row,
                               dest_policy = policy\<rparr>,
             nd_origin = o'\<rparr>)))))"

definition row_download_id :: "stored_download \<Rightarrow> repository_error + download_id" where
  "row_download_id row =
     map_err (\<lambda>_. invalid_data ''stored donwnload has an invalid ID'') (download_id_new (row_id row))"

definition decode_resource :: "stored_download \<Rightarrow> repository_error + resource_descriptor option" where
  "decode_resource row =
     (case row_resource_kind row of
        Some kind \<Rightarrow>
          rbind (decode_resource_kind kind) (\<lambda>k.
            Inr (Some \<lparr>resource_kind = k,
                       resource_display_name = row_resource_display_name row,
                       resource_content_type = row_resource_content_type row\<rparr>))
      | None \<Rightarrow>
          if row_resource_display_name row = None \<and> row_resource_content_type row = None
          then Inr None
          else Inl (invalid_data ''stored resource metadata is incomplete''))"

definition decode_failure :: "stored_download \<Rightarrow> repository_error + download_failure option" where
  "decode_failure row =
     (case (row_last_failure_kind row, row_last_failure_message row,
            row_last_failure_retryable row) of
        (None, None, None) \<Rightarrow> Inr None
      | (Some kind, Some message, Some retryable) \<Rightarrow>
          if retryable = 0 \<or> retryable = 1 then
            rbind (decode_failure_kind kind) (\<lambda>k.
              Inr (Some \<lparr>failure_kind = k, failure_message = message,
                         failure_retryable = (retryable = 1)\<rparr>))
          else Inl (invalid_data ''stored failure metadata is invalid'')
      | _ \<Rightarrow> Inl (invalid_data ''stored failure metadata is invalid''))"

definition to_job ::
  "db_env \<Rightarrow> stored_download \<Rightarrow> download_id \<Rightarrow> request_header list \<Rightarrow>
     repository_error + download_job" where
  "to_job env row i headers =
     rbind (to_new_download env row headers) (\<lambda>download.
     rbind (map_err (\<lambda>_. invalid_data ''stored request context is not supported'')
              (ensure_persistable download)) (\<lambda>_.
     rbind (decode_byte_count (row_downloaded_bytes row)) (\<lambda>downloaded.
     rbind (traverse_opt decode_byte_count (row_total_bytes row)) (\<lambda>tot.
     rbind (map_err (\<lambda>_. invalid_data ''stored progress is invalid'')
              (progress_new downloaded tot)) (\<lambda>progress.
     rbind (traverse_opt decode_path (row_resolved_destination_path row)) (\<lambda>resolved.
     rbind (decode_resource row) (\<lambda>resource.
     rbind (decode_state (row_state row)) (\<lambda>state.
     rbind (decode_failure row) (\<lambda>failure.
     rbind (decode_timestamp env (row_created_at_unix_ms row)) (\<lambda>created_at.
     rbind (decode_timestamp env (row_updated_at_unix_ms row)) (\<lambda>updated_at.
     Inr (job_restore
       \<lparr>snap_id = i, snap_download = download,
        snap_resolved = map_option ResolvedDestination resolved,
        snap_resource = resource, snap_state = state, snap_progress = progress,
        snap_failure = failure, snap_created_at = created_at,
        snap_updated_at = updated_at\<rparr>))))))))))))"

section \<open>Statements and transactions\<close>

text \<open>The \<open>CHECK\<close> constraints of the migrations.\<close>

definition row_checks :: "stored_download \<Rightarrow> bool" where
  "row_checks row \<longleftrightarrow>
     row_id row > 0 \<and>
     row_origin row \<in> {''desktop'', ''cli'', ''browser''} \<and>
     row_conflict_policy row \<in> {''rename'', ''overwrite'', ''fail''} \<and>
     row_state row \<in> {''queued'', ''inspecting'', ''downloading'', ''paused'', ''finalizing'',
       ''completed'', ''failed'', ''cancelled'', ''interrupted''} \<and>
     row_downloaded_bytes row \<ge> 0 \<and>
     (case row_total_bytes row of
        None \<Rightarrow> True
      | Some t \<Rightarrow> t \<ge> 0 \<and> row_downloaded_bytes row \<le> t) \<and>
     (if row_origin row = ''browser'' then row_source_page_url row \<noteq> None
      else row_source_page_url row = None \<and> row_source_page_title row = None)"

definition metadata_checks :: "stored_download \<Rightarrow> bool" where
  "metadata_checks row \<longleftrightarrow>
     (case row_resource_kind row of
        None \<Rightarrow> row_resource_display_name row = None \<and> row_resource_content_type row = None
      | Some k \<Rightarrow> k \<in> {''unknown'', ''file'', ''hls'', ''dash''}) \<and>
     (case row_last_failure_kind row of
        None \<Rightarrow> row_last_failure_message row = None \<and> row_last_failure_retryable row = None
      | Some k \<Rightarrow>
          k \<in> {''network'', ''authentication'', ''remote_rejected'', ''invalid_response'',
            ''unsupported_resource'', ''permission_denied'', ''disk_full'', ''integrity'',
            ''storage'', ''internal''} \<and>
          row_last_failure_message row \<noteq> None \<and>
          (row_last_failure_retryable row = Some 0 \<or> row_last_failure_retryable row = Some 1))"

definition selection_checks :: "stored_download \<Rightarrow> bool" where
  "selection_checks row \<longleftrightarrow>
     (case row_execution_selection row of
        None \<Rightarrow> True
      | Some sel \<Rightarrow> 1 \<le> length sel \<and> length sel \<le> 128)"

definition all_checks :: "stored_download \<Rightarrow> bool" where
  "all_checks row \<longleftrightarrow> row_checks row \<and> metadata_checks row \<and> selection_checks row"

text \<open>One statement: the database may refuse it, and the caller maps the refusal to a message.\<close>

definition db_statement :: "db_env \<Rightarrow> string \<Rightarrow> (database, repository_error, unit) act" where
  "db_statement env message =
     act_bind get_state (\<lambda>s.
     act_bind (modify_state (\<lambda>s. s\<lparr>db_statements := Suc (db_statements s)\<rparr>)) (\<lambda>_.
     if statement_fails env (db_statements s) then throw (internal_error message) else ret ()))"

definition in_transaction ::
  "(database, repository_error, 'a) act \<Rightarrow> (database, repository_error, 'a) act" where
  "in_transaction m s =
     (case m s of
        (Inl e, s') \<Rightarrow> (Inl e, s'\<lparr>db_tables := db_tables s\<rparr>)
      | (Inr x, s') \<Rightarrow> (Inr x, s'))"

definition set_tables :: "tables \<Rightarrow> (database, repository_error, unit) act" where
  "set_tables t = modify_state (\<lambda>s. s\<lparr>db_tables := t\<rparr>)"

definition check_that :: "bool \<Rightarrow> repository_error \<Rightarrow> ('s, repository_error, unit) act" where
  "check_that b e = (if b then ret () else throw e)"

definition update_rows ::
  "int \<Rightarrow> (stored_download \<Rightarrow> stored_download) \<Rightarrow> stored_download list \<Rightarrow> stored_download list" where
  "update_rows i f rows = map (\<lambda>row. if row_id row = i then f row else row) rows"

definition select_row :: "int \<Rightarrow> tables \<Rightarrow> stored_download option" where
  "select_row i t = find (\<lambda>row. row_id row = i) (t_downloads t)"

definition new_row :: "new_download \<Rightarrow> string \<Rightarrow> int \<Rightarrow> int \<Rightarrow> stored_download" where
  "new_row d directory created_ms i =
     (case encode_origin (nd_origin d) of
        (o', page_u, page_t) \<Rightarrow>
          \<lparr>row_id = i, row_source_url = req_url (nd_request d), row_origin = o',
           row_source_page_url = page_u, row_source_page_title = page_t,
           row_destination_directory = directory,
           row_preferred_filename = dest_filename (nd_destination d),
           row_conflict_policy = encode_conflict_policy (dest_policy (nd_destination d)),
           row_state = ''queued'', row_downloaded_bytes = 0, row_total_bytes = None,
           row_created_at_unix_ms = created_ms, row_updated_at_unix_ms = created_ms,
           row_resolved_destination_path = None, row_resource_kind = None,
           row_resource_display_name = None, row_resource_content_type = None,
           row_last_failure_kind = None, row_last_failure_message = None,
           row_last_failure_retryable = None, row_execution_selection = None\<rparr>)"

definition insert_download ::
  "db_env \<Rightarrow> new_download \<Rightarrow> int \<Rightarrow> (database, repository_error, download_id) act" where
  "insert_download env d created_ms =
     act_bind (lift_result (encode_path (dest_directory (nd_destination d)))) (\<lambda>directory.
     act_bind (db_statement env ''could not insert download record'') (\<lambda>_.
     act_bind get_state (\<lambda>s.
     let t = db_tables s; i = t_sequence t + 1; row = new_row d directory created_ms i in
     act_bind (check_that (i64_range i \<and> all_checks row)
                 (internal_error ''could not insert download record'')) (\<lambda>_.
     act_bind (set_tables (t\<lparr>t_downloads := t_downloads t @ [row], t_sequence := i\<rparr>)) (\<lambda>_.
     act_bind (lift_result (map_err (\<lambda>_. invalid_data ''database returned an invalid download ID'')
                              (download_id_new i))) (\<lambda>dlid.
     case req_selection (nd_request d) of
       None \<Rightarrow> ret dlid
     | Some sel \<Rightarrow>
         act_bind (db_statement env ''could not store the execution selection'') (\<lambda>_.
         act_bind get_state (\<lambda>s.
         let t = db_tables s;
             rows = update_rows i (\<lambda>row. row\<lparr>row_execution_selection := Some (selection_str sel)\<rparr>)
                      (t_downloads t) in
         act_bind (check_that (list_all all_checks rows)
                     (internal_error ''could not store the execution selection'')) (\<lambda>_.
         act_bind (set_tables (t\<lparr>t_downloads := rows\<rparr>)) (\<lambda>_.
         ret dlid)))))))))) "

definition insert_header ::
  "db_env \<Rightarrow> download_id \<Rightarrow> nat \<times> request_header \<Rightarrow> (database, repository_error, unit) act" where
  "insert_header env i ph =
     (case ph of (position, h) \<Rightarrow>
     act_bind (check_that (\<not> is_sensitive h)
                 (RepositoryError RkSensitiveDataUnsupported
                    ''sensitive request headers cannot be persisted yet'')) (\<lambda>_.
     act_bind (check_that (i64_range (int position))
                 (RepositoryError RkConstraintViolation ''request contains too many headers'')) (\<lambda>_.
     act_bind (db_statement env ''could not insert request header'') (\<lambda>_.
     act_bind get_state (\<lambda>s.
     let t = db_tables s;
         row = \<lparr>hr_download_id = id_value i, hr_position = int position, hr_name = header_name h,
                hr_value = header_value h, hr_sensitivity = ''public''\<rparr> in
     act_bind (check_that
                 (list_all (\<lambda>r. (hr_download_id r, hr_position r) \<noteq> (id_value i, int position))
                    (t_headers t) \<and> select_row (id_value i) t \<noteq> None)
                 (internal_error ''could not insert request header'')) (\<lambda>_.
     set_tables (t\<lparr>t_headers := t_headers t @ [row]\<rparr>)))))))"

definition insert_headers ::
  "db_env \<Rightarrow> download_id \<Rightarrow> request_header list \<Rightarrow> (database, repository_error, unit) act" where
  "insert_headers env i headers = act_for (enumerate 0 headers) (insert_header env i)"

definition load_headers ::
  "db_env \<Rightarrow> download_id \<Rightarrow> (database, repository_error, request_header list) act" where
  "load_headers env i =
     act_bind (db_statement env ''could not query request headers'') (\<lambda>_.
     act_bind get_state (\<lambda>s.
     lift_result (traverse_list decode_header
       (sort_key hr_position
          (filter (\<lambda>r. hr_download_id r = id_value i) (t_headers (db_tables s)))))))"

definition push_header ::
  "header_row \<Rightarrow> (download_id, request_header list) btree \<Rightarrow>
     repository_error + (download_id, request_header list) btree" where
  "push_header r m =
     rbind (map_err (\<lambda>_. invalid_data ''stored request header has an invalid download ID'')
              (download_id_new (hr_download_id r))) (\<lambda>i.
     rbind (decode_header r) (\<lambda>h.
     Inr (bt_insert i ((case bt_get m i of None \<Rightarrow> [] | Some hs \<Rightarrow> hs) @ [h]) m)))"

fun push_headers ::
  "header_row list \<Rightarrow> (download_id, request_header list) btree \<Rightarrow>
     repository_error + (download_id, request_header list) btree" where
  "push_headers [] m = Inr m"
| "push_headers (r # rs) m = rbind (push_header r m) (push_headers rs)"

definition load_all_headers ::
  "db_env \<Rightarrow> (database, repository_error, (download_id, request_header list) btree) act" where
  "load_all_headers env =
     act_bind (db_statement env ''could not query request headers'') (\<lambda>_.
     act_bind get_state (\<lambda>s.
     lift_result (push_headers
       (sort_key (\<lambda>r. (hr_download_id r, hr_position r)) (t_headers (db_tables s))) [])))"

section \<open>The repository operations\<close>

definition sqlite_create ::
  "db_env \<Rightarrow> new_download \<Rightarrow> timestamp \<Rightarrow> (database, repository_error, download_job) act" where
  "sqlite_create env d created_at =
     act_bind (lift_result (ensure_persistable d)) (\<lambda>_.
     act_bind (lift_result (encode_timestamp created_at)) (\<lambda>created_ms.
     act_bind (lift_result (decode_timestamp env created_ms)) (\<lambda>created_at.
     in_transaction (
       act_bind (db_statement env ''could not start download creation transaction'') (\<lambda>_.
       act_bind (insert_download env d created_ms) (\<lambda>i.
       act_bind (insert_headers env i (req_headers (nd_request d))) (\<lambda>_.
       act_bind (db_statement env ''could not commit download creation'') (\<lambda>_.
       ret (job_new i d created_at)))))))))"

definition sqlite_find_by_id ::
  "db_env \<Rightarrow> download_id \<Rightarrow> (database, repository_error, download_job option) act" where
  "sqlite_find_by_id env i =
     in_transaction (
       act_bind (db_statement env ''could not start download lookup transaction'') (\<lambda>_.
       act_bind (db_statement env ''could not load download'') (\<lambda>_.
       act_bind get_state (\<lambda>s.
       act_bind (case select_row (id_value i) (db_tables s) of
                   None \<Rightarrow> ret None
                 | Some row \<Rightarrow>
                     act_bind (lift_result (row_download_id row)) (\<lambda>stored_id.
                     act_bind (load_headers env stored_id) (\<lambda>headers.
                     act_bind (lift_result (to_job env row stored_id headers)) (\<lambda>job.
                     ret (Some job))))) (\<lambda>job.
       act_bind (db_statement env ''could not finish download lookup'') (\<lambda>_.
       ret job))))))"

fun decode_rows ::
  "db_env \<Rightarrow> stored_download list \<Rightarrow> (download_id, request_header list) btree \<Rightarrow>
     repository_error + download_job list \<times> (download_id, request_header list) btree" where
  "decode_rows env [] headers = Inr ([], headers)"
| "decode_rows env (row # rows) headers =
     rbind (row_download_id row) (\<lambda>i.
     rbind (to_job env row i (case bt_get headers i of None \<Rightarrow> [] | Some hs \<Rightarrow> hs)) (\<lambda>job.
     rbind (decode_rows env rows (bt_remove i headers)) (\<lambda>(jobs, rest).
     Inr (job # jobs, rest))))"

definition sqlite_list :: "db_env \<Rightarrow> (database, repository_error, download_job list) act" where
  "sqlite_list env =
     in_transaction (
       act_bind (db_statement env ''could not start download listing transaction'') (\<lambda>_.
       act_bind (db_statement env ''could not list downloads'') (\<lambda>_.
       act_bind get_state (\<lambda>s.
       let rows = sort_key row_id (t_downloads (db_tables s)) in
       act_bind (load_all_headers env) (\<lambda>headers.
       act_bind (lift_result (decode_rows env rows headers)) (\<lambda>(jobs, rest).
       act_bind (check_that (rest = [])
                   (invalid_data ''stored request headers reference missing downloads'')) (\<lambda>_.
       act_bind (db_statement env ''could not finish download listing'') (\<lambda>_.
       ret jobs))))))))"

text \<open>The columns \<open>UPDATE downloads\<close> sets.\<close>

definition updated_row ::
  "job_snapshot \<Rightarrow> int \<Rightarrow> int option \<Rightarrow> int \<Rightarrow> string option \<Rightarrow>
     stored_download \<Rightarrow> stored_download" where
  "updated_row snap downloaded tot updated_ms resolved row =
     row\<lparr>row_state := encode_state (snap_state snap), row_downloaded_bytes := downloaded,
         row_total_bytes := tot, row_updated_at_unix_ms := updated_ms,
         row_resolved_destination_path := resolved,
         row_resource_kind :=
           map_option (\<lambda>r. encode_resource_kind (resource_kind r)) (snap_resource snap),
         row_resource_display_name := Option.bind (snap_resource snap) resource_display_name,
         row_resource_content_type := Option.bind (snap_resource snap) resource_content_type,
         row_last_failure_kind :=
           map_option (\<lambda>f. encode_failure_kind (failure_kind f)) (snap_failure snap),
         row_last_failure_message := map_option failure_message (snap_failure snap),
         row_last_failure_retryable :=
           map_option (\<lambda>f. if failure_retryable f then 1 else 0) (snap_failure snap)\<rparr>"

definition save_transaction ::
  "db_env \<Rightarrow> job_snapshot \<Rightarrow> int \<Rightarrow> int option \<Rightarrow> int \<Rightarrow> string option \<Rightarrow>
     (database, repository_error, download_job) act" where
  "save_transaction env snap downloaded tot updated_ms resolved =
     in_transaction (
       act_bind (db_statement env ''could not start download update transaction'') (\<lambda>_.
       act_bind (db_statement env ''could not load download for update'') (\<lambda>_.
       act_bind get_state (\<lambda>s.
       act_bind (lift_result (ok_or (RepositoryError RkNotFound ''download does not exist'')
                   (select_row (id_value (snap_id snap)) (db_tables s)))) (\<lambda>row.
       act_bind (lift_result (row_download_id row)) (\<lambda>stored_id.
       act_bind (load_headers env stored_id) (\<lambda>headers.
       act_bind (lift_result (to_job env row stored_id headers)) (\<lambda>current.
       act_bind (check_that
                   (\<not> (job_request current \<noteq> nd_request (snap_download snap) \<or>
                       job_origin current \<noteq> nd_origin (snap_download snap) \<or>
                       job_destination current \<noteq> nd_destination (snap_download snap) \<or>
                       job_created_at current \<noteq> snap_created_at snap))
                   (RepositoryError RkConstraintViolation
                      ''download creation metadata cannot be changed'')) (\<lambda>_.
       act_bind (db_statement env ''could not update download'') (\<lambda>_.
       act_bind get_state (\<lambda>s.
       let t = db_tables s;
           rows = update_rows (id_value (snap_id snap))
                    (updated_row snap downloaded tot updated_ms resolved) (t_downloads t) in
       act_bind (check_that (list_all all_checks rows) (internal_error ''could not update download''))
         (\<lambda>_.
       act_bind (set_tables (t\<lparr>t_downloads := rows\<rparr>)) (\<lambda>_.
       act_bind (check_that
                   (length (filter (\<lambda>row. row_id row = id_value (snap_id snap)) (t_downloads t)) = 1)
                   (internal_error ''download update affected an unexpected number of records'')) (\<lambda>_.
       act_bind (db_statement env ''could not commit download update'') (\<lambda>_.
       ret (job_restore snap))))))))))))))))"

definition sqlite_save ::
  "db_env \<Rightarrow> download_job \<Rightarrow> (database, repository_error, download_job) act" where
  "sqlite_save env job =
     (let snap = job_take_snapshot job in
     act_bind (lift_result (ensure_persistable (snap_download snap))) (\<lambda>_.
     act_bind (lift_result (encode_timestamp (snap_created_at snap))) (\<lambda>created_ms.
     act_bind (lift_result (encode_timestamp (snap_updated_at snap))) (\<lambda>updated_ms.
     act_bind (lift_result (decode_timestamp env created_ms)) (\<lambda>created_at.
     act_bind (lift_result (decode_timestamp env updated_ms)) (\<lambda>updated_at.
     let snap = snap\<lparr>snap_created_at := created_at, snap_updated_at := updated_at\<rparr> in
     act_bind (lift_result (encode_byte_count (downloaded_bytes (snap_progress snap)))) (\<lambda>downloaded.
     act_bind (lift_result (traverse_opt encode_byte_count (total_bytes (snap_progress snap))))
       (\<lambda>tot.
     act_bind (lift_result (traverse_opt (\<lambda>d. encode_path (final_path d)) (snap_resolved snap)))
       (\<lambda>resolved.
     save_transaction env snap downloaded tot updated_ms resolved)))))))))"

definition sqlite_repository :: "db_env \<Rightarrow> database repository_ops" where
  "sqlite_repository env =
     \<lparr>repo_create = (\<lambda>s d t. sqlite_create env d t s),
      repo_find_by_id = (\<lambda>s i. sqlite_find_by_id env i s),
      repo_list = (\<lambda>s. sqlite_list env s),
      repo_save = (\<lambda>s j. sqlite_save env j s)\<rparr>"

definition empty_database :: database where
  "empty_database =
     \<lparr>db_tables = \<lparr>t_downloads = [], t_headers = [], t_sequence = 0\<rparr>, db_statements = 0\<rparr>"

end
