(* ===== verification/Storage_Refinement.thy ===== *)
theory Storage_Refinement
  imports Storage
begin

text \<open>
  The tables of the SQLite repository refine a list of jobs: every valid state of the tables is the
  encoding of one list of storable jobs in ascending identifier order, and each operation acts on
  that list as the repository contract says.
\<close>

section \<open>Round trips of single values\<close>

interpretation state_codec: codec encode_state decode_state
  by unfold_locales (case_tac x; simp add: decode_state_def)

interpretation policy_codec: codec encode_conflict_policy decode_conflict_policy
  by unfold_locales (case_tac x; simp add: decode_conflict_policy_def)

interpretation resource_kind_codec: codec encode_resource_kind decode_resource_kind
  by unfold_locales (case_tac x; simp add: decode_resource_kind_def)

interpretation failure_kind_codec: codec encode_failure_kind decode_failure_kind
  by unfold_locales (case_tac x; simp add: decode_failure_kind_def)

lemma encode_byte_count_Inr [result_simps]:
  "encode_byte_count v = Inr i \<longleftrightarrow> uint v < 2 ^ 63 \<and> i = uint v"
  by (auto simp: encode_byte_count_def)

interpretation byte_count_codec: partial_codec encode_byte_count decode_byte_count
  by unfold_locales (auto simp: result_simps decode_byte_count_def)

interpretation path_codec: partial_codec encode_path decode_path
  by unfold_locales (auto simp: encode_path_def decode_path_def)

lemma u16_halves: "ucast (ucast w :: u8) + push_bit 8 (ucast (ucast (drop_bit 8 w) :: u8)) = w" for w :: u16
  by (rule bit_word_eqI) (auto simp: disjunctive_add bit_simps; presburger?)

lemma u16_pairs_encode:
  "u16_pairs (concat (map (\<lambda>w. [ucast w, ucast (drop_bit 8 w)]) wide)) = (wide, [])"
  by (induction wide) (auto simp: u16_halves)

interpretation windows_path_codec: partial_codec encode_path_windows decode_path_windows
  by unfold_locales (auto simp: encode_path_windows_def decode_path_windows_def u16_pairs_encode)

section \<open>The encoding of a job list\<close>

definition url_valid :: "db_env \<Rightarrow> url \<Rightarrow> bool" where
  "url_valid env u \<longleftrightarrow> url_parse env u = Some u"

text \<open>
  What the types of a \<open>NewDownload\<close> guarantee (a \<open>Url\<close> parses back to itself, a selection passed its
  constructor) together with what the store accepts.
\<close>

definition admissible :: "db_env \<Rightarrow> new_download \<Rightarrow> bool" where
  "admissible env d \<longleftrightarrow>
     url_valid env (req_url (nd_request d)) \<and>
     (case nd_origin d of Browser u t \<Rightarrow> url_valid env u | _ \<Rightarrow> True) \<and>
     (case req_selection (nd_request d) of
        None \<Rightarrow> True | Some sel \<Rightarrow> selection_new (selection_str sel) = Inr sel)"

definition time_storable :: "db_env \<Rightarrow> timestamp \<Rightarrow> bool" where
  "time_storable env t \<longleftrightarrow> t mod 1000000 = 0 \<and> time_in_range env t \<and> i64_range (t div 1000000)"

definition job_download :: "download_job \<Rightarrow> new_download" where
  "job_download j = snap_download (job_take_snapshot j)"

definition storable :: "db_env \<Rightarrow> download_job \<Rightarrow> bool" where
  "storable env j \<longleftrightarrow>
     job_wf j \<and> admissible env (job_download j) \<and> \<not> has_sensitive_headers (job_request j) \<and>
     time_storable env (job_created_at j) \<and> time_storable env (job_updated_at j) \<and>
     uint (downloaded_bytes (job_progress j)) < 2 ^ 63 \<and>
     (case total_bytes (job_progress j) of None \<Rightarrow> True | Some t \<Rightarrow> uint t < 2 ^ 63)"

definition job_row :: "download_job \<Rightarrow> stored_download" where
  "job_row j =
     updated_row (job_take_snapshot j) (uint (downloaded_bytes (job_progress j)))
       (map_option uint (total_bytes (job_progress j))) (job_updated_at j div 1000000)
       (map_option final_path (job_resolved j))
       ((new_row (job_download j) (dest_directory (job_destination j)) (job_created_at j div 1000000)
           (id_value (job_id j)))
        \<lparr>row_execution_selection := map_option selection_str (req_selection (job_request j))\<rparr>)"

definition header_rows :: "int \<Rightarrow> request_header list \<Rightarrow> header_row list" where
  "header_rows i hs =
     map (\<lambda>(p, h). \<lparr>hr_download_id = i, hr_position = int p, hr_name = header_name h,
                    hr_value = header_value h, hr_sensitivity = ''public''\<rparr>) (enumerate 0 hs)"

definition job_header_rows :: "download_job \<Rightarrow> header_row list" where
  "job_header_rows j = header_rows (id_value (job_id j)) (req_headers (job_request j))"

definition tables_of :: "download_job list \<Rightarrow> int \<Rightarrow> tables" where
  "tables_of js n =
     \<lparr>t_downloads = map job_row js, t_headers = concat (map job_header_rows js), t_sequence = n\<rparr>"

definition jobs_ok :: "db_env \<Rightarrow> download_job list \<Rightarrow> int \<Rightarrow> bool" where
  "jobs_ok env js n \<longleftrightarrow>
     list_all (storable env) js \<and> sorted_wrt (<) (map job_id js) \<and>
     list_all (\<lambda>j. id_value (job_id j) \<le> n) js \<and> 0 \<le> n"

definition db_valid :: "db_env \<Rightarrow> database \<Rightarrow> bool" where
  "db_valid env s \<longleftrightarrow> (\<exists>js n. db_tables s = tables_of js n \<and> jobs_ok env js n)"

text \<open>The abstraction: what a listing that the database does not refuse returns.\<close>

definition db_jobs :: "db_env \<Rightarrow> database \<Rightarrow> download_job list" where
  "db_jobs env s =
     (case fst (sqlite_list (env\<lparr>statement_fails := \<lambda>_. False\<rparr>) s) of Inl _ \<Rightarrow> [] | Inr js \<Rightarrow> js)"

definition db_stored :: "db_env \<Rightarrow> database \<Rightarrow> download_id \<Rightarrow> download_job option" where
  "db_stored env s i = map_of (map (\<lambda>j. (job_id j, j)) (db_jobs env s)) i"

section \<open>Decoding what was encoded\<close>

lemma request_eta: "r\<lparr>req_selection := req_selection r\<rparr> = (r :: request_context)"
  by simp

lemma decode_origin_encode:
  assumes "case o' of Browser u t \<Rightarrow> url_valid env u | _ \<Rightarrow> True" "encode_origin o' = (a, b, c)"
  shows "decode_origin env a b c = Inr o'"
proof (cases o')
  case (Browser u t)
  with assms have "url_parse env u = Some u" "a = ''browser''" "b = Some u" "c = t"
    by (auto simp: url_valid_def)
  with Browser show ?thesis by (simp add: decode_origin_def)
qed (use assms in \<open>auto simp: decode_origin_def\<close>)

lemma decode_timestamp_storable:
  "time_storable env t \<Longrightarrow> decode_timestamp env (t div 1000000) = Inr t"
  by (auto simp: time_storable_def decode_timestamp_def)

lemma header_rows_Nil [simp]: "header_rows i [] = []"
  by (simp add: header_rows_def)

lemma decode_header_rows:
  assumes "\<not> list_ex is_sensitive hs"
  shows "traverse_list decode_header (header_rows i hs) = Inr hs"
proof -
  have public: "header_sensitivity h = Public" if "h \<in> set hs" for h
    using assms that by (cases "header_sensitivity h") (auto simp: list_ex_iff is_sensitive_def)
  have "traverse_list decode_header
      (map (\<lambda>(p, h). \<lparr>hr_download_id = i, hr_position = int p, hr_name = header_name h,
        hr_value = header_value h, hr_sensitivity = ''public''\<rparr>) (enumerate n hs)) = Inr hs" for n
    using public by (induction hs arbitrary: n) (auto simp: decode_header_def)
  then show ?thesis by (simp add: header_rows_def)
qed

lemma header_rows_id: "r \<in> set (header_rows i hs) \<Longrightarrow> hr_download_id r = i"
  by (auto simp: header_rows_def)

lemma header_rows_positions: "map hr_position (header_rows i hs) = map int [0..<length hs]"
proof -
  have "map hr_position (map (\<lambda>(p, h). \<lparr>hr_download_id = i, hr_position = int p,
      hr_name = header_name h, hr_value = header_value h, hr_sensitivity = ''public''\<rparr>)
      (enumerate n hs)) = map int [n..<n + length hs]" for n
    by (induction hs arbitrary: n) (simp_all add: upt_conv_Cons del: upt_Suc)
  from this [of 0] show ?thesis by (simp add: header_rows_def)
qed

lemma job_row_id [simp]: "row_id (job_row j) = id_value (job_id j)"
  by (cases "job_origin j")
     (simp_all add: job_row_def updated_row_def new_row_def job_download_def job_take_snapshot_def)

lemma row_download_id_job_row:
  "job_wf j \<Longrightarrow> row_download_id (job_row j) = Inr (job_id j)"
  by (simp add: row_download_id_def download_id_new_def job_wf_def)

lemma to_new_download_job_row:
  assumes "storable env j"
  shows "to_new_download env (job_row j) (req_headers (job_request j)) = Inr (job_download j)"
proof -
  obtain a b c where o': "encode_origin (job_origin j) = (a, b, c)" by (metis prod_cases3)
  have adm: "admissible env (job_download j)" using assms by (simp add: storable_def)
  then have url: "url_parse env (req_url (job_request j)) = Some (req_url (job_request j))"
    and org: "decode_origin env a b c = Inr (job_origin j)"
    using decode_origin_encode [OF _ o', of env]
    by (auto simp: admissible_def job_download_def job_take_snapshot_def url_valid_def)
  have sel: "traverse_opt selection_new (map_option selection_str (req_selection (job_request j)))
      = Inr (req_selection (job_request j))"
    using adm by (cases "req_selection (job_request j)")
      (auto simp: admissible_def job_download_def job_take_snapshot_def)
  show ?thesis
    using url org sel o'
    by (cases "req_selection (job_request j)")
       (simp_all add: to_new_download_def job_row_def updated_row_def new_row_def job_download_def
         job_take_snapshot_def decode_path_def request_new_def with_selection_def)
qed

lemma job_row_fields:
  "row_state (job_row j) = encode_state (job_state j)"
  "row_downloaded_bytes (job_row j) = uint (downloaded_bytes (job_progress j))"
  "row_total_bytes (job_row j) = map_option uint (total_bytes (job_progress j))"
  "row_created_at_unix_ms (job_row j) = job_created_at j div 1000000"
  "row_updated_at_unix_ms (job_row j) = job_updated_at j div 1000000"
  "row_resolved_destination_path (job_row j) = map_option final_path (job_resolved j)"
  by (cases "job_origin j"; simp add: job_row_def updated_row_def new_row_def job_download_def
      job_take_snapshot_def)+

lemma decode_resource_job_row: "decode_resource (job_row j) = Inr (job_resource j)"
  by (cases "job_resource j"; cases "job_origin j")
     (simp_all add: decode_resource_def job_row_def updated_row_def new_row_def job_download_def
       job_take_snapshot_def)

lemma decode_failure_job_row: "decode_failure (job_row j) = Inr (job_failure j)"
  by (cases "job_failure j"; cases "job_origin j")
     (simp_all add: decode_failure_def job_row_def updated_row_def new_row_def job_download_def
       job_take_snapshot_def)

lemma decode_byte_count_uint: "decode_byte_count (uint v) = Inr v"
  by (simp add: decode_byte_count_def)

lemma resolved_path_roundtrip:
  "traverse_opt decode_path (map_option final_path r) = Inr (map_option final_path r)"
  "map_option ResolvedDestination (map_option final_path r) = r"
  by (cases r; simp add: decode_path_def)+

lemma job_row_roundtrip:
  assumes "storable env j"
  shows "to_job env (job_row j) (job_id j) (req_headers (job_request j)) = Inr j"
proof -
  have persist: "ensure_persistable (job_download j) = Inr ()"
    using assms by (simp add: storable_def ensure_persistable_def job_download_def job_take_snapshot_def)
  have total_back: "traverse_opt decode_byte_count (map_option uint t) = Inr t" for t :: "u64 option"
    by (cases t) (simp_all add: decode_byte_count_uint)
  have prog: "progress_new (downloaded_bytes (job_progress j)) (total_bytes (job_progress j))
      = Inr (job_progress j)"
    using assms by (simp add: storable_def job_wf_def progress_new_self)
  have times: "decode_timestamp env (job_created_at j div 1000000) = Inr (job_created_at j)"
    "decode_timestamp env (job_updated_at j div 1000000) = Inr (job_updated_at j)"
    using assms by (simp_all add: storable_def decode_timestamp_storable)
  show ?thesis
    unfolding to_job_def to_new_download_job_row [OF assms] job_row_fields decode_resource_job_row
      decode_failure_job_row
    by (simp add: persist decode_byte_count_uint total_back prog times resolved_path_roundtrip)
       (simp add: job_restore_def job_download_def job_take_snapshot_def)
qed

lemma resource_kind_name: "encode_resource_kind k \<in> {''unknown'', ''file'', ''hls'', ''dash''}"
  by (cases k) auto

lemma failure_kind_name:
  "encode_failure_kind k \<in> {''network'', ''authentication'', ''remote_rejected'', ''invalid_response'',
     ''unsupported_resource'', ''permission_denied'', ''disk_full'', ''integrity'', ''storage'', ''internal''}"
  by (cases k) auto

lemma job_row_checks:
  assumes "storable env j"
  shows "all_checks (job_row j)"
proof -
  let ?p = "job_progress j"
  have range: "0 < id_value (job_id j)" "progress_wf ?p" "admissible env (job_download j)"
    using assms by (auto simp: storable_def job_wf_def)
  have basic: "row_checks (job_row j)"
    using range by (cases "job_origin j"; cases "dest_policy (job_destination j)"; cases "job_state j")
      (auto simp: row_checks_def job_row_def updated_row_def new_row_def job_download_def
        job_take_snapshot_def progress_wf_def word_le_def split: option.splits)
  have meta: "metadata_checks (job_row j)"
    by (cases "job_resource j"; cases "job_failure j"; cases "job_origin j")
       (use resource_kind_name failure_kind_name in \<open>auto simp: metadata_checks_def job_row_def
          updated_row_def new_row_def job_download_def job_take_snapshot_def\<close>)
  have sel: "selection_checks (job_row j)"
    using range(3) by (cases "job_origin j"; cases "req_selection (job_request j)")
      (auto simp: selection_checks_def job_row_def updated_row_def new_row_def job_download_def
        job_take_snapshot_def admissible_def result_simps selection_max_len_def Suc_le_eq)
  from basic meta sel show ?thesis by (simp add: all_checks_def)
qed

section \<open>Tables of a job list\<close>

lemma id_value_inject [simp]: "id_value i = id_value k \<longleftrightarrow> i = k"
  by (auto intro: download_id.expand)

lemma sorted_ids_distinct: "sorted_wrt (<) (map job_id js) \<Longrightarrow> distinct (map job_id js)"
  by (simp add: strict_sorted_iff)

lemma jobs_ok_distinct: "jobs_ok env js n \<Longrightarrow> distinct (map job_id js)"
  by (simp add: jobs_ok_def sorted_ids_distinct)

lemma select_row_tables_of:
  "select_row (id_value i) (tables_of js n) = map_option job_row (find (\<lambda>j. job_id j = i) js)"
  by (induction js) (auto simp: select_row_def tables_of_def)

lemma find_eq_map_of: "find (\<lambda>j. job_id j = i) js = map_of (map (\<lambda>j. (job_id j, j)) js) i"
  by (induction js) auto

lemma map_of_job_in:
  "distinct (map job_id js) \<Longrightarrow> map_of (map (\<lambda>j. (job_id j, j)) js) i = Some j \<longleftrightarrow> j \<in> set js \<and> job_id j = i"
  by (subst map_of_eq_Some_iff) (auto simp: comp_def)

lemma filter_headers_other:
  "i \<notin> id_value ` job_id ` set js \<Longrightarrow>
     filter (\<lambda>r. hr_download_id r = i) (concat (map job_header_rows js)) = []"
  by (auto simp: filter_empty_conv job_header_rows_def dest!: header_rows_id)

lemma filter_header_rows [simp]:
  "filter (\<lambda>r. hr_download_id r = i) (header_rows i hs) = header_rows i hs"
  by (auto simp: filter_id_conv dest: header_rows_id)

lemma filter_job_header_rows [simp]:
  "filter (\<lambda>r. hr_download_id r = id_value (job_id j)) (job_header_rows j) = job_header_rows j"
  by (simp add: job_header_rows_def)

lemma filter_headers_job:
  "distinct (map job_id js) \<Longrightarrow> j \<in> set js \<Longrightarrow>
     filter (\<lambda>r. hr_download_id r = id_value (job_id j)) (concat (map job_header_rows js)) =
       job_header_rows j"
proof (induction js)
  case (Cons k js)
  show ?case
  proof (cases "j = k")
    case True
    with Cons.prems have "id_value (job_id j) \<notin> id_value ` job_id ` set js" by auto
    from filter_headers_other [OF this] True show ?thesis by simp
  next
    case False
    with Cons.prems have "job_id j \<noteq> job_id k" by (auto simp: image_iff)
    then have "filter (\<lambda>r. hr_download_id r = id_value (job_id j)) (job_header_rows k) = []"
      by (auto simp: filter_empty_conv job_header_rows_def dest!: header_rows_id)
    with Cons False show ?thesis by simp
  qed
qed simp

lemma sorted_header_rows: "sorted (map hr_position (header_rows i hs))"
  by (simp add: header_rows_positions sorted_map sorted_wrt_upt sorted_wrt_mono_rel [OF _ sorted_wrt_upt])

lemma sort_header_rows: "sort_key hr_position (header_rows i hs) = header_rows i hs"
  by (simp add: sort_key_id_if_sorted sorted_header_rows)

lemma load_headers_tables_of:
  assumes "db_tables s = tables_of js n" "jobs_ok env js n" "j \<in> set js"
    "load_headers env' (job_id j) s = (Inr hs, s')"
  shows "hs = req_headers (job_request j)"
proof -
  have "\<not> list_ex is_sensitive (req_headers (job_request j))"
    using assms(2,3) by (auto simp: jobs_ok_def list_all_iff storable_def has_sensitive_headers_def)
  then show ?thesis
    using assms(1,4) filter_headers_job [OF jobs_ok_distinct [OF assms(2)] assms(3)]
    by (auto simp: load_headers_def act_simps db_statement_def tables_of_def job_header_rows_def
        sort_header_rows decode_header_rows split: if_splits)
qed

section \<open>Listing\<close>

text \<open>The header groups of a job list: only jobs with headers have one.\<close>

definition header_groups :: "download_job list \<Rightarrow> (download_id, request_header list) btree" where
  "header_groups js =
     map (\<lambda>j. (job_id j, req_headers (job_request j)))
       (filter (\<lambda>j. req_headers (job_request j) \<noteq> []) js)"

lemma bt_insert_last:
  "\<forall>e \<in> set m. fst e < k \<Longrightarrow> bt_insert k v m = m @ [(k, v)]"
  by (induction k v m rule: bt_insert.induct) auto

lemma bt_insert_last_same:
  "\<forall>e \<in> set m. fst e < k \<Longrightarrow> bt_insert k v (m @ [(k, w)]) = m @ [(k, v)]"
  by (induction m) auto

lemma map_of_above: "\<forall>e \<in> set m. fst e < (k :: 'k::linorder) \<Longrightarrow> map_of m k = None"
  by (force simp: map_of_eq_None_iff)

lemma bt_get_last:
  fixes k :: "'k::linorder"
  shows "\<forall>e \<in> set m. fst e < k \<Longrightarrow> bt_get m k = None"
    "\<forall>e \<in> set m. fst e < k \<Longrightarrow> bt_get (m @ [(k, w)]) k = Some w"
  by (simp_all add: bt_get_def map_of_above map_add_def)

lemma push_headers_append:
  "push_headers (rs @ qs) m = rbind (push_headers rs m) (push_headers qs)"
  by (induction rs arbitrary: m) (auto simp: rbind_def split: sum.splits)

definition push_group :: "download_id \<Rightarrow> request_header list \<Rightarrow>
    (download_id, request_header list) btree \<Rightarrow> (download_id, request_header list) btree" where
  "push_group i hs m = (if hs = [] then m else m @ [(i, hs)])"

lemma push_header_rows:
  assumes "0 < id_value i" "\<forall>e \<in> set m. fst e < i" "\<not> list_ex is_sensitive hs"
  shows "push_headers (header_rows (id_value i) hs) m = Inr (push_group i hs m)"
  using assms(3)
proof (induction hs rule: rev_induct)
  case Nil
  then show ?case by (simp add: push_group_def)
next
  case (snoc h hs)
  let ?r = "\<lparr>hr_download_id = id_value i, hr_position = int (length hs), hr_name = header_name h,
              hr_value = header_value h, hr_sensitivity = ''public''\<rparr>"
  have rows: "header_rows (id_value i) (hs @ [h]) = header_rows (id_value i) hs @ [?r]"
    by (simp add: header_rows_def enumerate_append_eq)
  have h: "decode_header ?r = Inr h"
    using snoc.prems by (cases "header_sensitivity h") (auto simp: decode_header_def is_sensitive_def)
  have i: "download_id_new (id_value i) = Inr i"
    using assms(1) by (simp add: download_id_new_def)
  have last: "push_header ?r (push_group i hs m) = Inr (push_group i (hs @ [h]) m)"
    using assms(2) i h
    by (simp add: push_header_def push_group_def bt_get_last bt_insert_last bt_insert_last_same)
  show ?case
    using snoc by (simp add: rows push_headers_append last)
qed

lemma push_job_header_rows:
  assumes "0 < id_value (job_id j)" "\<not> has_sensitive_headers (job_request j)"
    "\<forall>e \<in> set m. fst e < job_id j"
  shows "push_headers (job_header_rows j) m = Inr (push_group (job_id j) (req_headers (job_request j)) m)"
  using assms by (simp add: job_header_rows_def has_sensitive_headers_def push_header_rows)

lemma header_groups_snoc:
  "header_groups (js @ [j]) = push_group (job_id j) (req_headers (job_request j)) (header_groups js)"
  by (simp add: header_groups_def push_group_def)

lemma header_groups_keys: "fst ` set (header_groups js) \<subseteq> job_id ` set js"
  by (auto simp: header_groups_def)

lemma push_headers_tables_of:
  assumes "list_all (\<lambda>j. 0 < id_value (job_id j) \<and> \<not> has_sensitive_headers (job_request j)) js"
    "sorted_wrt (<) (map job_id js)"
  shows "push_headers (concat (map job_header_rows js)) [] = Inr (header_groups js)"
  using assms
proof (induction js rule: rev_induct)
  case Nil
  then show ?case by (simp add: header_groups_def)
next
  case (snoc j js)
  have below: "\<forall>e \<in> set (header_groups js). fst e < job_id j"
    using header_groups_keys [of js] snoc.prems(2) by (force simp: sorted_wrt_append)
  from snoc have "push_headers (concat (map job_header_rows js)) [] = Inr (header_groups js)"
    by (simp add: sorted_wrt_append)
  with snoc.prems(1) show ?case
    by (simp add: push_headers_append push_job_header_rows [OF _ _ below] header_groups_snoc)
qed

lemma bt_remove_header_groups:
  "distinct (map job_id (j # js)) \<Longrightarrow>
     bt_remove (job_id j) (header_groups (j # js)) = header_groups js"
proof -
  assume "distinct (map job_id (j # js))"
  then have "filter (\<lambda>k. req_headers (job_request k) \<noteq> [] \<and> job_id k \<noteq> job_id j) js =
      filter (\<lambda>k. req_headers (job_request k) \<noteq> []) js"
    by (intro filter_cong) (force simp: image_iff)+
  then show ?thesis by (simp add: bt_remove_def header_groups_def filter_map comp_def)
qed

lemma bt_get_header_groups:
  "distinct (map job_id (j # js)) \<Longrightarrow>
     (case bt_get (header_groups (j # js)) (job_id j) of None \<Rightarrow> [] | Some hs \<Rightarrow> hs) =
       req_headers (job_request j)"
  by (auto simp: bt_get_def header_groups_def map_of_eq_None_iff split: option.splits
      dest!: map_of_SomeD)

lemma decode_rows_tables_of:
  "list_all (storable env) js \<Longrightarrow> distinct (map job_id js) \<Longrightarrow>
     decode_rows env (map job_row js) (header_groups js) = Inr (js, [])"
proof (induction js)
  case Nil
  then show ?case by (simp add: header_groups_def)
next
  case (Cons j js)
  from Cons.prems have "storable env j" by simp
  then have "row_download_id (job_row j) = Inr (job_id j)"
    "to_job env (job_row j) (job_id j) (req_headers (job_request j)) = Inr j"
    by (simp_all add: storable_def row_download_id_job_row job_row_roundtrip)
  with Cons show ?case
    by (simp add: bt_get_header_groups bt_remove_header_groups)
qed

lemma sort_rows_tables_of:
  "sorted_wrt (<) (map job_id js) \<Longrightarrow> sort_key row_id (map job_row js) = map job_row js"
proof (rule sort_key_id_if_sorted)
  assume "sorted_wrt (<) (map job_id js)"
  then show "sorted (map row_id (map job_row js))"
    by (simp add: sorted_wrt_map less_download_id_def comp_def)
       (erule sorted_wrt_mono_rel [rotated], simp)
qed

lemma sorted_concat_headers:
  assumes "sorted_wrt (<) (map job_id js)"
  shows "sorted (map (\<lambda>r. (hr_download_id r, hr_position r)) (concat (map job_header_rows js)))"
  using assms
proof (induction js)
  case (Cons j js)
  have "sorted (map (\<lambda>r. (hr_download_id r, hr_position r)) (job_header_rows j))"
  proof -
    have "map (\<lambda>r. (hr_download_id r, hr_position r)) (job_header_rows j) =
        map (Pair (id_value (job_id j))) (map hr_position (job_header_rows j))"
      by (auto simp: job_header_rows_def dest: header_rows_id)
    moreover have "sorted (map hr_position (job_header_rows j))"
      by (simp add: job_header_rows_def sorted_header_rows)
    ultimately show ?thesis
      by (simp add: sorted_map) (erule sorted_wrt_mono_rel [rotated], simp)
  qed
  moreover have "sorted (map (\<lambda>r. (hr_download_id r, hr_position r)) (concat (map job_header_rows js)))"
    using Cons by simp
  moreover have "(hr_download_id a, hr_position a) \<le> (hr_download_id b, hr_position b)"
    if "a \<in> set (job_header_rows j)" "b \<in> set (concat (map job_header_rows js))" for a b
  proof -
    from that have a: "hr_download_id a = id_value (job_id j)"
      and "\<exists>k \<in> set js. hr_download_id b = id_value (job_id k)"
      by (auto simp: job_header_rows_def dest: header_rows_id)
    then have "hr_download_id a < hr_download_id b"
      using Cons.prems by (auto simp: less_download_id_def)
    then show ?thesis by simp
  qed
  ultimately show ?case by (auto simp: sorted_append)
qed simp

section \<open>Statements and transactions\<close>

lemma db_statement_cases:
  "db_statement env m s = (r, s') \<Longrightarrow>
     db_tables s' = db_tables s \<and> (r = Inr () \<or> r = Inl (internal_error m))"
  by (auto simp: db_statement_def act_bind_split act_simps throw_def split: if_splits)

lemma db_statement_ok:
  "db_statement env m s = (Inr u, s') \<longleftrightarrow>
     \<not> statement_fails env (db_statements s) \<and> s' = s\<lparr>db_statements := Suc (db_statements s)\<rparr>"
  by (auto simp: db_statement_def act_simps throw_def split: if_splits)

lemma check_that_ok [act_simps]: "check_that b e s = (Inr u, s') \<longleftrightarrow> b \<and> s' = s"
  by (auto simp: check_that_def act_simps split: if_splits)

lemma set_tables_ok [act_simps]: "set_tables t s = (Inr u, s') \<longleftrightarrow> s' = s\<lparr>db_tables := t\<rparr>"
  by (auto simp: set_tables_def act_simps)

lemma in_transaction_Inr [act_simps]: "in_transaction m s = (Inr x, s') \<longleftrightarrow> m s = (Inr x, s')"
  by (auto simp: in_transaction_def split: prod.splits sum.splits)

lemma in_transaction_Inl: "in_transaction m s = (Inl e, s') \<Longrightarrow> db_tables s' = db_tables s"
  by (auto simp: in_transaction_def split: prod.splits sum.splits)

definition tables_are :: "tables \<Rightarrow> database \<Rightarrow> bool" where
  "tables_are t s \<longleftrightarrow> db_tables s = t"

lemma keeps_db_statement [keeps_intros]: "keeps (tables_are t) (db_statement env m)"
proof (rule keepsI)
  fix s assume "tables_are t s"
  moreover obtain r s' where "db_statement env m s = (r, s')" by (cases "db_statement env m s")
  ultimately show "tables_are t (snd (db_statement env m s))"
    by (auto simp: tables_are_def dest: db_statement_cases)
qed

lemma keeps_check_that [keeps_intros]: "keeps P (check_that b e)"
  by (simp add: check_that_def keeps_intros)

lemma keeps_in_transaction [keeps_intros]:
  "keeps (tables_are t) m \<Longrightarrow> keeps (tables_are t) (in_transaction m)"
  by (auto simp: keeps_def in_transaction_def tables_are_def split: prod.splits sum.splits)

lemma keeps_load_headers [keeps_intros]: "keeps (tables_are t) (load_headers env i)"
  by (auto simp: load_headers_def intro!: keeps_intros)

lemma keeps_load_all_headers [keeps_intros]: "keeps (tables_are t) (load_all_headers env)"
  by (auto simp: load_all_headers_def intro!: keeps_intros)

lemma keeps_find: "keeps (tables_are t) (sqlite_find_by_id env i)"
  unfolding sqlite_find_by_id_def by (intro keeps_intros)

lemma keeps_list: "keeps (tables_are t) (sqlite_list env)"
  unfolding sqlite_list_def Let_def by (intro keeps_intros)

lemma read_only:
  "keeps (tables_are (db_tables s)) m \<Longrightarrow> m s = (r, s') \<Longrightarrow> db_tables s' = db_tables s"
  using keepsD [of "tables_are (db_tables s)" m s r s'] by (simp add: tables_are_def)

section \<open>Listing and lookup return the jobs\<close>

lemma load_all_headers_tables_of:
  assumes "db_tables s = tables_of js n" "jobs_ok env js n"
    "load_all_headers env' s = (Inr m, s')"
  shows "m = header_groups js" "db_tables s' = db_tables s"
proof -
  have pos: "list_all (\<lambda>j. 0 < id_value (job_id j) \<and> \<not> has_sensitive_headers (job_request j)) js"
    using assms(2) by (auto simp: jobs_ok_def list_all_iff storable_def job_wf_def)
  have sorted: "sorted_wrt (<) (map job_id js)"
    using assms(2) by (simp add: jobs_ok_def)
  note groups = push_headers_tables_of [OF pos sorted] sort_key_id_if_sorted [OF sorted_concat_headers [OF sorted]]
  show "m = header_groups js"
    using assms(1,3) groups
    by (auto simp: load_all_headers_def act_simps db_statement_ok tables_of_def)
  show "db_tables s' = db_tables s"
    by (rule read_only [OF keeps_load_all_headers assms(3)])
qed

lemma to_job_url_parse: "to_job (env\<lparr>statement_fails := f\<rparr>) = to_job env"
  by (intro ext) (simp add: to_job_def to_new_download_def decode_origin_def decode_timestamp_def)

lemma decode_rows_faults: "decode_rows (env\<lparr>statement_fails := f\<rparr>) rows m = decode_rows env rows m"
  by (induction env rows m rule: decode_rows.induct)
     (simp_all add: to_job_url_parse cong: rbind_cong)

lemma list_returns_jobs:
  assumes "db_tables s = tables_of js n" "jobs_ok env js n"
    "sqlite_list (env\<lparr>statement_fails := f\<rparr>) s = (Inr ks, s')"
  shows "ks = js"
proof -
  have ok: "list_all (storable env) js" "sorted_wrt (<) (map job_id js)"
    using assms(2) by (auto simp: jobs_ok_def)
  note rows = decode_rows_tables_of [OF ok(1) sorted_ids_distinct [OF ok(2)]]
    sort_rows_tables_of [OF ok(2)]
  let ?s1 = "s\<lparr>db_statements := Suc (Suc (db_statements s))\<rparr>"
  from assms(3) obtain m s2 where
      m: "load_all_headers (env\<lparr>statement_fails := f\<rparr>) ?s1 = (Inr m, s2)"
    and dec: "decode_rows env (sort_key row_id (t_downloads (db_tables s))) m = Inr (ks, [])"
    by (auto simp: sqlite_list_def act_simps db_statement_ok Let_def decode_rows_faults
        split: prod.splits)
  have "m = header_groups js"
    using load_all_headers_tables_of(1) [OF _ assms(2) m] assms(1) by simp
  with dec rows assms(1) show ?thesis by (simp add: tables_of_def)
qed

lemma db_statement_no_faults:
  "db_statement (env\<lparr>statement_fails := \<lambda>_. False\<rparr>) m s =
     (Inr (), s\<lparr>db_statements := Suc (db_statements s)\<rparr>)"
  by (simp add: db_statement_ok)

lemma db_jobs_tables_of:
  assumes "db_tables s = tables_of js n" "jobs_ok env js n"
  shows "db_jobs env s = js"
proof -
  have ok: "list_all (storable env) js" "sorted_wrt (<) (map job_id js)"
    and pos: "list_all (\<lambda>j. 0 < id_value (job_id j) \<and> \<not> has_sensitive_headers (job_request j)) js"
    using assms(2) by (auto simp: jobs_ok_def list_all_iff storable_def job_wf_def)
  note groups = push_headers_tables_of [OF pos ok(2)]
    sort_key_id_if_sorted [OF sorted_concat_headers [OF ok(2)]]
    decode_rows_tables_of [OF ok(1) sorted_ids_distinct [OF ok(2)]] sort_rows_tables_of [OF ok(2)]
  let ?env = "env\<lparr>statement_fails := \<lambda>_. False\<rparr>"
  have "sqlite_list ?env s = (Inr js, s\<lparr>db_statements := db_statements s + 4\<rparr>)"
    using assms(1) groups
    by (simp add: sqlite_list_def in_transaction_def act_bind_def db_statement_no_faults
        get_state_apply Let_def load_all_headers_def lift_result_apply tables_of_def
        decode_rows_faults check_that_def ret_apply)
  then show ?thesis by (simp add: db_jobs_def)
qed

lemma db_stored_tables_of:
  assumes "db_tables s = tables_of js n" "jobs_ok env js n"
  shows "db_stored env s i = find (\<lambda>j. job_id j = i) js"
    "db_stored env s i = Some j \<longleftrightarrow> j \<in> set js \<and> job_id j = i"
  by (simp_all add: db_stored_def db_jobs_tables_of [OF assms] find_eq_map_of
      map_of_job_in [OF jobs_ok_distinct [OF assms(2)]])

lemma db_stored_tables:
  "db_tables s' = db_tables s \<Longrightarrow> db_valid env s \<Longrightarrow> db_valid env s' \<and> db_stored env s' = db_stored env s"
  unfolding db_valid_def by (auto simp: db_stored_def db_jobs_tables_of)

lemma select_row_job:
  assumes "db_tables s = tables_of js n" "jobs_ok env js n"
    "select_row (id_value i) (db_tables s) = Some row"
  obtains j where "j \<in> set js" "job_id j = i" "row = job_row j" "storable env j"
proof -
  from assms(1,3) obtain j where j: "find (\<lambda>j. job_id j = i) js = Some j" "row = job_row j"
    by (auto simp: select_row_tables_of)
  then have "j \<in> set js" "job_id j = i"
    using map_of_job_in [OF jobs_ok_distinct [OF assms(2)]] by (auto simp: find_eq_map_of)
  moreover from this have "storable env j" using assms(2) by (auto simp: jobs_ok_def list_all_iff)
  ultimately show ?thesis using that j(2) by blast
qed

lemma loaded_job:
  assumes "db_tables s = tables_of js n" "jobs_ok env js n" "j \<in> set js"
    "row_download_id (job_row j) = Inr i" "load_headers env i s = (Inr hs, s')"
    "to_job env (job_row j) i hs = Inr k"
  shows "k = j \<and> db_tables s' = db_tables s"
proof -
  have st: "storable env j" using assms(2,3) by (auto simp: jobs_ok_def list_all_iff)
  then have i: "i = job_id j" using assms(4) by (auto simp: storable_def row_download_id_job_row)
  have "hs = req_headers (job_request j)"
    using load_headers_tables_of [OF assms(1-3)] assms(5) i by simp
  then show ?thesis
    using job_row_roundtrip [OF st] assms(6) i read_only [OF keeps_load_headers assms(5)] by simp
qed

lemma find_returns_stored:
  assumes "db_valid env s" "sqlite_find_by_id env i s = (Inr found, s')"
  shows "found = db_stored env s i"
proof -
  obtain js n where t: "db_tables s = tables_of js n" "jobs_ok env js n"
    using assms(1) by (auto simp: db_valid_def)
  let ?s = "s\<lparr>db_statements := Suc (Suc (db_statements s))\<rparr>"
  have t': "db_tables ?s = tables_of js n" using t(1) by simp
  show ?thesis
  proof (cases "select_row (id_value i) (db_tables s)")
    case None
    with assms(2) t show ?thesis
      by (auto simp: sqlite_find_by_id_def act_simps db_statement_ok db_stored_tables_of(1) [OF t]
          select_row_tables_of)
  next
    case (Some row)
    then obtain j where j: "j \<in> set js" "job_id j = i" "row = job_row j"
      using select_row_job [OF t] by blast
    from assms(2) Some obtain d hs s1 k where
        l: "row_download_id row = Inr d" "load_headers env d ?s = (Inr hs, s1)"
        "to_job env row d hs = Inr k" and found: "found = Some k"
      by (auto simp: sqlite_find_by_id_def act_simps db_statement_ok)
    from loaded_job [OF t' t(2) j(1) l(1) [unfolded j(3)] l(2) l(3) [unfolded j(3)]]
    have "k = j" ..
    moreover have "db_stored env s i = Some j"
      using db_stored_tables_of(2) [OF t] j(1,2) by blast
    ultimately show ?thesis using found by simp
  qed
qed

section \<open>Saving\<close>

lemma encode_timestamp_Inr [result_simps]:
  "encode_timestamp t = Inr ms \<longleftrightarrow> ms = t div 1000000 \<and> i64_range ms"
  by (auto simp: encode_timestamp_def Let_def)

lemma decode_timestamp_Inr [result_simps]:
  "decode_timestamp env ms = Inr t \<longleftrightarrow> t = ms * 1000000 \<and> time_in_range env t"
  by (auto simp: decode_timestamp_def)

lemma time_storable_decoded:
  "i64_range ms \<Longrightarrow> time_in_range env (ms * 1000000) \<Longrightarrow> time_storable env (ms * 1000000)"
  by (simp add: time_storable_def)

lemma encode_total_Inr:
  "traverse_opt encode_byte_count t = Inr i \<longleftrightarrow>
     (case t of None \<Rightarrow> True | Some v \<Rightarrow> uint v < 2 ^ 63) \<and> i = map_option uint t"
  by (cases t) (auto simp: result_simps)

lemma encode_resolved: "traverse_opt (\<lambda>d. encode_path (final_path d)) r = Inr (map_option final_path r)"
  by (cases r) (auto simp: encode_path_def)

text \<open>The row \<open>UPDATE\<close> writes over the row of a job with the same creation metadata.\<close>

lemma updated_row_job_row:
  assumes "same_identity old p"
  shows "updated_row (job_take_snapshot p) (uint (downloaded_bytes (job_progress p)))
     (map_option uint (total_bytes (job_progress p))) (job_updated_at p div 1000000)
     (map_option final_path (job_resolved p)) (job_row old) = job_row p"
  using assms unfolding same_identity_def
  by (cases "job_origin p")
     (auto simp: job_row_def updated_row_def new_row_def job_download_def job_take_snapshot_def)

definition replace_job :: "download_job \<Rightarrow> download_job list \<Rightarrow> download_job list" where
  "replace_job p js = map (\<lambda>k. if job_id k = job_id p then p else k) js"

lemma replace_job_ids [simp]: "map job_id (replace_job p js) = map job_id js"
  by (auto simp: replace_job_def)

lemma tables_of_replace_job:
  assumes "distinct (map job_id js)" "old \<in> set js" "same_identity old p" "f (job_row old) = job_row p"
  shows "(tables_of js n)\<lparr>t_downloads := update_rows (id_value (job_id p)) f (map job_row js)\<rparr> =
     tables_of (replace_job p js) n"
proof -
  have only: "k = old" if "k \<in> set js" "job_id k = job_id p" for k
    using that assms(1-3) by (auto simp: same_identity_def distinct_map inj_on_def)
  have "map job_header_rows (replace_job p js) = map job_header_rows js"
    using only assms(3) by (auto simp: replace_job_def job_header_rows_def same_identity_def)
  moreover have "update_rows (id_value (job_id p)) f (map job_row js) = map job_row (replace_job p js)"
    using only assms(4) by (auto simp: replace_job_def update_rows_def)
  ultimately show ?thesis by (simp add: tables_of_def)
qed

lemma jobs_ok_replace:
  assumes "jobs_ok env js n" "storable env p" "old \<in> set js" "job_id p = job_id old"
  shows "jobs_ok env (replace_job p js) n"
proof -
  have "list_all (storable env) (replace_job p js)"
    and "list_all (\<lambda>j. id_value (job_id j) \<le> n) (replace_job p js)"
    using assms by (auto simp: jobs_ok_def list_all_iff replace_job_def)
  then show ?thesis using assms(1) by (simp add: jobs_ok_def)
qed

lemma save_transaction_ok:
  assumes "save_transaction env snap d t u r s = (Inr p, s')"
  shows "p = job_restore snap \<and>
    (\<exists>row i hs current s1.
       select_row (id_value (snap_id snap)) (db_tables s) = Some row \<and>
       row_download_id row = Inr i \<and>
       load_headers env i (s\<lparr>db_statements := Suc (Suc (db_statements s))\<rparr>) = (Inr hs, s1) \<and>
       to_job env row i hs = Inr current \<and>
       job_request current = job_request p \<and> job_origin current = job_origin p \<and>
       job_destination current = job_destination p \<and> job_created_at current = job_created_at p \<and>
       db_tables s' = (db_tables s1)\<lparr>t_downloads := update_rows (id_value (snap_id snap))
         (updated_row snap d t u r) (t_downloads (db_tables s1))\<rparr>)"
  using assms unfolding save_transaction_def
  by (auto simp: act_simps db_statement_ok Let_def ok_or_eq_Inr job_restore_def)

lemma sqlite_save_ok:
  assumes "sqlite_save env j s = (Inr p, s')"
  shows "\<not> has_sensitive_headers (job_request j)"
    "p = j\<lparr>job_created_at := job_created_at j div 1000000 * 1000000,
           job_updated_at := job_updated_at j div 1000000 * 1000000\<rparr>"
    "time_storable env (job_created_at p)" "time_storable env (job_updated_at p)"
    "uint (downloaded_bytes (job_progress j)) < 2 ^ 63"
    "case total_bytes (job_progress j) of None \<Rightarrow> True | Some t \<Rightarrow> uint t < 2 ^ 63"
    "save_transaction env (job_take_snapshot p) (uint (downloaded_bytes (job_progress p)))
       (map_option uint (total_bytes (job_progress p))) (job_updated_at p div 1000000)
       (map_option final_path (job_resolved p)) s = (Inr p, s')"
proof -
  let ?p = "j\<lparr>job_created_at := job_created_at j div 1000000 * 1000000,
               job_updated_at := job_updated_at j div 1000000 * 1000000\<rparr>"
  have snap: "(job_take_snapshot j)\<lparr>snap_created_at := job_created_at j div 1000000 * 1000000,
      snap_updated_at := job_updated_at j div 1000000 * 1000000\<rparr> = job_take_snapshot ?p"
    by (simp add: job_take_snapshot_def)
  have all: "\<not> has_sensitive_headers (job_request j) \<and>
    time_storable env (job_created_at ?p) \<and> time_storable env (job_updated_at ?p) \<and>
    uint (downloaded_bytes (job_progress j)) < 2 ^ 63 \<and>
    (case total_bytes (job_progress j) of None \<Rightarrow> True | Some t \<Rightarrow> uint t < 2 ^ 63) \<and>
    save_transaction env (job_take_snapshot ?p) (uint (downloaded_bytes (job_progress j)))
       (map_option uint (total_bytes (job_progress j))) (job_updated_at j div 1000000)
       (map_option final_path (job_resolved j)) s = (Inr p, s')"
    using assms unfolding sqlite_save_def Let_def
    by (auto simp: act_simps result_simps ensure_persistable_def encode_total_Inr encode_resolved
        job_take_snapshot_def time_storable_decoded split: if_splits)
  then have "p = ?p" by (auto dest!: save_transaction_ok)
  with all show "\<not> has_sensitive_headers (job_request j)"
    "p = j\<lparr>job_created_at := job_created_at j div 1000000 * 1000000,
           job_updated_at := job_updated_at j div 1000000 * 1000000\<rparr>"
    "time_storable env (job_created_at p)" "time_storable env (job_updated_at p)"
    "uint (downloaded_bytes (job_progress j)) < 2 ^ 63"
    "case total_bytes (job_progress j) of None \<Rightarrow> True | Some t \<Rightarrow> uint t < 2 ^ 63"
    "save_transaction env (job_take_snapshot p) (uint (downloaded_bytes (job_progress p)))
       (map_option uint (total_bytes (job_progress p))) (job_updated_at p div 1000000)
       (map_option final_path (job_resolved p)) s = (Inr p, s')"
    by simp_all
qed

lemma failed_save_keeps_tables: "sqlite_save env j s = (Inl e, s') \<Longrightarrow> db_tables s' = db_tables s"
  unfolding sqlite_save_def Let_def
  by (auto simp: act_bind_split lift_result_apply save_transaction_def dest: in_transaction_Inl)

lemma save_refines:
  assumes "db_tables s = tables_of js n" "jobs_ok env js n" "job_wf j"
    "sqlite_save env j s = (Inr p, s')"
  shows "\<exists>old \<in> set js. same_identity old p \<and>
    p = j\<lparr>job_created_at := job_created_at old, job_updated_at := job_updated_at p\<rparr> \<and>
    jobs_ok env (replace_job p js) n \<and> db_tables s' = tables_of (replace_job p js) n"
proof -
  let ?s = "s\<lparr>db_statements := Suc (Suc (db_statements s))\<rparr>"
  note sv = sqlite_save_ok [OF assms(4)]
  from save_transaction_ok [OF sv(7)] obtain row i hs current s1 where
      row: "select_row (id_value (job_id p)) (db_tables s) = Some row"
    and i: "row_download_id row = Inr i" and hs: "load_headers env i ?s = (Inr hs, s1)"
    and cur: "to_job env row i hs = Inr current"
    and meta: "job_request current = job_request p" "job_origin current = job_origin p"
      "job_destination current = job_destination p" "job_created_at current = job_created_at p"
    and upd: "db_tables s' = (db_tables s1)\<lparr>t_downloads := update_rows (id_value (job_id p))
       (updated_row (job_take_snapshot p) (uint (downloaded_bytes (job_progress p)))
         (map_option uint (total_bytes (job_progress p))) (job_updated_at p div 1000000)
         (map_option final_path (job_resolved p))) (t_downloads (db_tables s1))\<rparr>"
    by (auto simp: job_take_snapshot_def)
  obtain old where old: "old \<in> set js" "job_id old = job_id p" "row = job_row old" "storable env old"
    using select_row_job [OF assms(1,2) row] .
  have t': "db_tables ?s = tables_of js n" using assms(1) by simp
  have "current = old" and s1: "db_tables s1 = db_tables s"
    using loaded_job [OF t' assms(2) old(1) _ hs] i cur old(3) by auto
  with meta old(2) have same: "same_identity old p" by (simp add: same_identity_def)
  have p: "p = j\<lparr>job_created_at := job_created_at old, job_updated_at := job_updated_at p\<rparr>"
    using sv(2) same by (cases p; cases j) (simp add: same_identity_def)
  have "job_wf p" using assms(3) sv(2) by (cases j) (simp add: job_wf_def)
  then have "storable env p"
    using old(4) sv same
    by (auto simp: storable_def same_identity_def job_download_def job_take_snapshot_def)
  then have "jobs_ok env (replace_job p js) n"
    using jobs_ok_replace [OF assms(2) _ old(1)] old(2) by simp
  moreover have "db_tables s' = tables_of (replace_job p js) n"
    using upd tables_of_replace_job [where n = n and f = "updated_row (job_take_snapshot p)
          (uint (downloaded_bytes (job_progress p))) (map_option uint (total_bytes (job_progress p)))
          (job_updated_at p div 1000000) (map_option final_path (job_resolved p))",
        OF jobs_ok_distinct [OF assms(2)] old(1) same updated_row_job_row [OF same]] s1 assms(1)
    by (simp add: tables_of_def)
  ultimately show ?thesis using old(1) same p by blast
qed

section \<open>Creation\<close>

lemma insert_header_ok:
  "insert_header env i (k, h) s = (Inr u, s') \<Longrightarrow>
     db_tables s' = (db_tables s)\<lparr>t_headers := t_headers (db_tables s) @
       [\<lparr>hr_download_id = id_value i, hr_position = int k, hr_name = header_name h,
         hr_value = header_value h, hr_sensitivity = ''public''\<rparr>]\<rparr>"
  by (auto simp: insert_header_def act_simps db_statement_ok Let_def)

lemma insert_headers_ok:
  assumes "insert_headers env i hs s = (Inr u, s')"
  shows "db_tables s' =
    (db_tables s)\<lparr>t_headers := t_headers (db_tables s) @ header_rows (id_value i) hs\<rparr>"
proof -
  let ?row = "\<lambda>(k, h). \<lparr>hr_download_id = id_value i, hr_position = int k, hr_name = header_name h,
         hr_value = header_value h, hr_sensitivity = ''public''\<rparr>"
  have "db_tables s' = (db_tables s)\<lparr>t_headers := t_headers (db_tables s) @ map ?row khs\<rparr>"
    if "act_for khs (insert_header env i) s = (Inr u, s')" for khs
    using that
  proof (induction khs arbitrary: s)
    case Nil
    then show ?case by (simp add: act_simps)
  next
    case (Cons kh khs)
    obtain k h where kh: "kh = (k, h)" by (cases kh)
    from Cons.prems kh obtain v s1 where "insert_header env i (k, h) s = (Inr v, s1)"
      "act_for khs (insert_header env i) s1 = (Inr u, s')"
      by (auto simp: act_simps)
    with Cons.IH [of s1] kh show ?case by (simp add: insert_header_ok)
  qed
  with assms show ?thesis by (simp add: insert_headers_def header_rows_def)
qed

definition created_row :: "new_download \<Rightarrow> int \<Rightarrow> int \<Rightarrow> stored_download" where
  "created_row d ms i = (new_row d (dest_directory (nd_destination d)) ms i)
     \<lparr>row_execution_selection := map_option selection_str (req_selection (nd_request d))\<rparr>"

lemma row_id_new_row [simp]: "row_id (new_row d dir ms i) = i"
  by (cases "nd_origin d") (simp_all add: new_row_def)

lemma insert_download_ok:
  assumes "insert_download env d ms s = (Inr i, s')"
    "list_all (\<lambda>row. row_id row \<le> t_sequence (db_tables s)) (t_downloads (db_tables s))"
  shows "id_value i = t_sequence (db_tables s) + 1 \<and> 0 < id_value i \<and>
    db_tables s' = (db_tables s)\<lparr>t_downloads := t_downloads (db_tables s) @ [created_row d ms (id_value i)],
      t_sequence := id_value i\<rparr>"
proof -
  let ?i = "t_sequence (db_tables s) + 1"
  have others: "update_rows ?i f (t_downloads (db_tables s)) = t_downloads (db_tables s)" for f
    using assms(2) by (auto simp: update_rows_def list_all_iff intro!: map_idI)
  have none: "(new_row d dir ms k)\<lparr>row_execution_selection := None\<rparr> = new_row d dir ms k" for dir k
    by (cases "nd_origin d") (simp_all add: new_row_def)
  show ?thesis
  proof (cases "req_selection (nd_request d)")
    case None
    with assms(1) show ?thesis
      by (auto simp: insert_download_def act_simps db_statement_ok Let_def encode_path_def
          result_simps created_row_def none)
  next
    case (Some sel)
    with assms(1) others show ?thesis
      by (auto simp: insert_download_def act_simps db_statement_ok Let_def encode_path_def
          result_simps created_row_def update_rows_def)
  qed
qed

lemma failed_create_keeps_tables:
  "sqlite_create env d t s = (Inl e, s') \<Longrightarrow> db_tables s' = db_tables s"
  unfolding sqlite_create_def
  by (auto simp: act_bind_split lift_result_apply dest: in_transaction_Inl)

lemma job_row_new:
  "job_row (job_new i d (ms * 1000000)) = created_row d ms (id_value i)"
  by (cases "nd_origin d")
     (simp_all add: job_row_def created_row_def job_new_def updated_row_def new_row_def
       job_download_def job_take_snapshot_def progress_default_def)

lemma job_download_new [simp]: "job_download (job_new i d t) = d"
  by (simp add: job_download_def job_take_snapshot_def job_new_def)

lemma create_refines:
  assumes "db_tables s = tables_of js n" "jobs_ok env js n" "admissible env d"
    "sqlite_create env d t s = (Inr j, s')"
  shows "j = job_new (job_id j) d (t div 1000000 * 1000000) \<and> id_value (job_id j) = n + 1 \<and>
    jobs_ok env (js @ [j]) (n + 1) \<and> db_tables s' = tables_of (js @ [j]) (n + 1)"
proof -
  let ?ms = "t div 1000000" and ?s = "s\<lparr>db_statements := Suc (db_statements s)\<rparr>"
  from assms(4) obtain i s1 u s2 where
      persist: "ensure_persistable d = Inr ()" and ms: "i64_range ?ms" "time_in_range env (?ms * 1000000)"
    and ins: "insert_download env d ?ms ?s = (Inr i, s1)"
    and hdr: "insert_headers env i (req_headers (nd_request d)) s1 = (Inr u, s2)"
    and j: "j = job_new i d (?ms * 1000000)" and s': "db_tables s' = db_tables s2"
    by (auto simp: sqlite_create_def act_simps db_statement_ok encode_timestamp_Inr
        decode_timestamp_Inr)
  have ids: "list_all (\<lambda>row. row_id row \<le> t_sequence (db_tables ?s)) (t_downloads (db_tables ?s))"
    using assms(1,2) by (auto simp: tables_of_def jobs_ok_def list_all_iff)
  note i = insert_download_ok [OF ins ids]
  have n: "id_value i = n + 1" "0 < id_value i" using i assms(1) by (simp_all add: tables_of_def)
  have tables: "db_tables s' = tables_of (js @ [j]) (n + 1)"
    using i insert_headers_ok [OF hdr] s' assms(1) n(1) j job_row_new [of i d ?ms]
    by (simp add: tables_of_def job_header_rows_def job_new_def)
  have "storable env j"
    using j n(2) persist ms assms(3)
    by (auto simp: storable_def time_storable_decoded job_wf_def ensure_persistable_def split: if_splits)
       (auto simp: job_new_def progress_default_def progress_wf_def time_storable_decoded)
  moreover have "job_id k < job_id j" if "k \<in> set js" for k
    using that assms(2) n j by (auto simp: jobs_ok_def list_all_iff less_download_id_def job_new_def)
  ultimately have "jobs_ok env (js @ [j]) (n + 1)"
    using assms(2) n j by (auto simp: jobs_ok_def sorted_wrt_append list_all_iff job_new_def)
  with tables j n(1) show ?thesis by (simp add: job_new_def)
qed

section \<open>The contract\<close>

lemma db_valid_empty [simp]: "db_valid env empty_database"
  unfolding db_valid_def
  by (rule exI [of _ "[]"], rule exI [of _ 0]) (simp add: empty_database_def tables_of_def jobs_ok_def)

lemma db_validE:
  assumes "db_valid env s"
  obtains js n where "db_tables s = tables_of js n" "jobs_ok env js n"
  using assms by (auto simp: db_valid_def)

lemma db_validI: "db_tables s = tables_of js n \<Longrightarrow> jobs_ok env js n \<Longrightarrow> db_valid env s"
  by (auto simp: db_valid_def)

lemma storable_wf: "storable env j \<Longrightarrow> job_wf j"
  by (simp add: storable_def)

lemma list_faults: "sqlite_list (env\<lparr>statement_fails := statement_fails env\<rparr>) = sqlite_list env"
  by simp

lemma sqlite_save_contract:
  assumes "db_valid env s" "job_wf j" "sqlite_save env j s = (Inr p, s')"
  shows "db_valid env s' \<and> db_stored env s' = (db_stored env s)(job_id j \<mapsto> p) \<and>
    (\<exists>old. db_stored env s (job_id j) = Some old \<and>
       p = j\<lparr>job_created_at := job_created_at old, job_updated_at := job_updated_at p\<rparr> \<and>
       job_request old = job_request j \<and> job_origin old = job_origin j \<and>
       job_destination old = job_destination j)"
proof -
  from assms(1) obtain js n where t: "db_tables s = tables_of js n" "jobs_ok env js n"
    by (rule db_validE)
  from save_refines [OF t assms(2,3)] obtain old where
      old: "old \<in> set js" "same_identity old p"
        "p = j\<lparr>job_created_at := job_created_at old, job_updated_at := job_updated_at p\<rparr>"
    and t': "jobs_ok env (replace_job p js) n" "db_tables s' = tables_of (replace_job p js) n"
    by blast
  have fields: "job_id p = job_id j" "job_request p = job_request j" "job_origin p = job_origin j"
    "job_destination p = job_destination j"
    by (subst old(3), simp)+
  note st = db_stored_tables_of [OF t] and st' = db_stored_tables_of [OF t'(2,1)]
  have "db_stored env s' i = ((db_stored env s)(job_id j \<mapsto> p)) i" for i
  proof (cases "i = job_id j")
    case True
    have "p \<in> set (replace_job p js)"
      using old(1,2) by (auto simp: replace_job_def same_identity_def intro!: image_eqI [of _ _ old])
    with True fields(1) show ?thesis using st'(2) [of i p] by simp
  next
    case False
    have "k \<in> set (replace_job p js) \<longleftrightarrow> k \<in> set js" if "job_id k = i" for k
      using that False fields(1) by (auto simp: replace_job_def)
    then have "db_stored env s' i = Some k \<longleftrightarrow> db_stored env s i = Some k" for k
      using st(2) [of i k] st'(2) [of i k] by blast
    then have "db_stored env s' i = db_stored env s i"
      by (metis not_None_eq)
    with False show ?thesis by simp
  qed
  moreover have "db_stored env s (job_id j) = Some old"
    using st(2) [of "job_id j" old] old(1,2) fields(1) by (simp add: same_identity_def)
  ultimately show ?thesis
    using db_validI [OF t'(2,1)] old(2,3) fields by (auto simp: same_identity_def)
qed

lemma sqlite_create_contract:
  assumes "db_valid env s" "admissible env d" "sqlite_create env d t s = (Inr j, s')"
  shows "db_valid env s' \<and> db_stored env s (job_id j) = None \<and>
    db_stored env s' = (db_stored env s)(job_id j \<mapsto> j) \<and> (\<exists>u. j = job_new (job_id j) d u)"
proof -
  from assms(1) obtain js n where t: "db_tables s = tables_of js n" "jobs_ok env js n"
    by (rule db_validE)
  note c = create_refines [OF t assms(2,3)]
  then have t': "db_tables s' = tables_of (js @ [j]) (n + 1)" "jobs_ok env (js @ [j]) (n + 1)" by auto
  have fresh: "job_id k \<noteq> job_id j" if "k \<in> set js" for k
    using that t(2) c by (auto simp: jobs_ok_def list_all_iff)
  note st = db_stored_tables_of [OF t] and st' = db_stored_tables_of [OF t']
  have none: "db_stored env s (job_id j) = None"
    using st(2) [of "job_id j"] fresh by (metis not_None_eq)
  have "db_stored env s' i = ((db_stored env s)(job_id j \<mapsto> j)) i" for i
    using none by (auto simp: st(1) st'(1) find_eq_map_of map_add_def split: option.splits)
  with none c show ?thesis using db_validI [OF t'] by auto
qed

interpretation sqlite: download_repository "sqlite_repository env" "db_stored env" "db_valid env"
  "admissible env" for env
proof
  fix r i j assume "db_valid env r" "db_stored env r i = Some j"
  then show "job_id j = i \<and> job_wf j"
    by (elim db_validE)
       (auto simp: db_stored_tables_of(2) jobs_ok_def list_all_iff storable_wf)
next
  fix r j e r' assume "db_valid env r" "repo_save (sqlite_repository env) r j = (Inl e, r')"
  then show "db_valid env r' \<and> db_stored env r' = db_stored env r"
    using db_stored_tables [OF failed_save_keeps_tables] by (simp add: sqlite_repository_def)
next
  fix r j p r' assume "db_valid env r" "job_wf j" "repo_save (sqlite_repository env) r j = (Inr p, r')"
  then show "db_valid env r' \<and> db_stored env r' = (db_stored env r)(job_id j \<mapsto> p) \<and>
    (\<exists>old. db_stored env r (job_id j) = Some old \<and>
       p = j\<lparr>job_created_at := job_created_at old, job_updated_at := job_updated_at p\<rparr> \<and>
       job_request old = job_request j \<and> job_origin old = job_origin j \<and>
       job_destination old = job_destination j)"
    by (intro sqlite_save_contract) (simp_all add: sqlite_repository_def)
next
  fix r d t e r' assume "db_valid env r" "repo_create (sqlite_repository env) r d t = (Inl e, r')"
  then show "db_valid env r' \<and> db_stored env r' = db_stored env r"
    using db_stored_tables [OF failed_create_keeps_tables] by (simp add: sqlite_repository_def)
next
  fix r d t j r'
  assume "db_valid env r" "admissible env d" "repo_create (sqlite_repository env) r d t = (Inr j, r')"
  then show "db_valid env r' \<and> db_stored env r (job_id j) = None \<and>
    db_stored env r' = (db_stored env r)(job_id j \<mapsto> j) \<and> (\<exists>u. j = job_new (job_id j) d u)"
    by (intro sqlite_create_contract) (simp_all add: sqlite_repository_def)
next
  fix r res r' assume "db_valid env r" "repo_list (sqlite_repository env) r = (res, r')"
  then show "db_valid env r' \<and> db_stored env r' = db_stored env r"
    using db_stored_tables [OF read_only [OF keeps_list]] by (simp add: sqlite_repository_def)
next
  fix r js r' assume v: "db_valid env r" and l: "repo_list (sqlite_repository env) r = (Inr js, r')"
  from v obtain ks n where t: "db_tables r = tables_of ks n" "jobs_ok env ks n" by (rule db_validE)
  with l have "js = ks"
    using list_returns_jobs [OF t, of "statement_fails env"] by (simp add: sqlite_repository_def)
  with t show "sorted_wrt (<) (map job_id js) \<and> (\<forall>j. j \<in> set js \<longleftrightarrow> db_stored env r (job_id j) = Some j)"
    by (simp add: jobs_ok_def db_stored_tables_of(2) [OF t])
next
  fix r i res r' assume "db_valid env r" "repo_find_by_id (sqlite_repository env) r i = (res, r')"
  then show "db_valid env r' \<and> db_stored env r' = db_stored env r"
    using db_stored_tables [OF read_only [OF keeps_find]] by (simp add: sqlite_repository_def)
next
  fix r i found r' assume "db_valid env r" "repo_find_by_id (sqlite_repository env) r i = (Inr found, r')"
  then show "found = db_stored env r i"
    by (simp add: sqlite_repository_def find_returns_stored)
qed

lemma stored_headers_public:
  "db_valid env s \<Longrightarrow> list_all (\<lambda>r. hr_sensitivity r = ''public'') (t_headers (db_tables s))"
  by (auto simp: db_valid_def tables_of_def job_header_rows_def header_rows_def list_all_iff)

section \<open>Bytes that are Windows paths\<close>

lemma u16_pairs_bytes:
  "u16_pairs bytes = (wide, rest :: u8 list) \<Longrightarrow>
     bytes = concat (map (\<lambda>w. [ucast w, ucast (drop_bit 8 w)]) wide) @ rest \<and>
     length rest = length bytes mod 2"
proof (induction bytes arbitrary: wide rest rule: u16_pairs.induct)
  case (1 a b bs)
  have or: "(ucast a + push_bit 8 (ucast b) :: u16) = or (ucast a) (push_bit 8 (ucast b))" for a b :: u8
    by (rule disjunctive_add) (auto simp: bit_simps dest: bit_imp_le_length)
  have halves: "ucast (ucast a + push_bit 8 (ucast b) :: u16) = a"
    "ucast (drop_bit 8 (ucast a + push_bit 8 (ucast b) :: u16)) = b" for a b :: u8
    unfolding or by (rule bit_word_eqI; auto simp: bit_simps dest: bit_imp_le_length)+
  obtain ws r where p: "u16_pairs bs = (ws, r)" by fastforce
  with "1.prems" have res: "wide = (ucast a + push_bit 8 (ucast b)) # ws" "rest = r" by simp_all
  from "1.IH" [OF p] have bs: "bs = concat (map (\<lambda>w. [ucast w, ucast (drop_bit 8 w)]) ws) @ r"
    and len: "length r = length bs mod 2" by blast+
  have "length rest = length (a # b # bs) mod 2" using len res(2) by simp
  moreover have "a # b # bs = concat (map (\<lambda>w. [ucast w, ucast (drop_bit 8 w)]) wide) @ rest"
    unfolding res by (subst bs) (simp add: halves)
  ultimately show ?case by blast
qed auto

lemma decode_windows_exact:
  "case decode_path_windows bytes of
     Inr w \<Rightarrow> encode_path_windows w = Inr bytes \<and> even (length bytes)
   | Inl e \<Rightarrow> odd (length bytes)"
proof -
  obtain wide rest where p: "u16_pairs bytes = (wide, rest)" by fastforce
  from u16_pairs_bytes [OF p] have b: "bytes = concat (map (\<lambda>w. [ucast w, ucast (drop_bit 8 w)]) wide) @ rest"
    and len: "length rest = length bytes mod 2" by blast+
  show ?thesis
  proof (cases "rest = []")
    case True
    with len have "even (length bytes)" by (simp add: even_iff_mod_2_eq_zero)
    moreover have "decode_path_windows bytes = Inr wide"
      using True by (simp add: decode_path_windows_def p)
    moreover have "encode_path_windows wide = Inr bytes"
      using True b by (simp add: encode_path_windows_def)
    ultimately show ?thesis by simp
  next
    case False
    with len have "odd (length bytes)" by (cases "even (length bytes)") auto
    with False show ?thesis by (simp add: decode_path_windows_def p)
  qed
qed

end
