(* ===== verification/Service.thy ===== *)
theory Service
  imports Manager_Correct Storage_Refinement
begin

text \<open>
  The manager over the SQLite repository: the two instances of the execution contract, one for the
  identity of a job under arbitrary calls of other clients and one for the stages a job is saved in
  when no other client touches it, and the lemmas the properties of the manager rest on.
\<close>

interpretation sqlite_identity: tracked_runs "sqlite_repository env" "db_stored env" "db_valid env"
  "admissible env" "\<lambda>i j0 r old. same_identity j0 old" same_identity same_identity "\<lambda>_ _. True" for env
proof
  fix r old i j0 k p r'
  assume "same_identity j0 old" "same_identity old k" "p = k\<lparr>job_updated_at := job_updated_at p\<rparr>"
  then show "same_identity j0 p" by (blast intro: same_identity_trans touched_identity)
qed (auto dest: job_step_identity intro: same_identity_trans simp: quiet_step_def same_identity_def)

section \<open>The stages of an execution\<close>

text \<open>What the journal says of job \<open>i\<close>, and the lifecycle of an execution.\<close>

definition saved_values :: "download_id \<Rightarrow> download_job list \<Rightarrow> download_job list" where
  "saved_values i log = filter (\<lambda>j. job_id j = i) log"

definition same_stage :: "download_job \<Rightarrow> download_job \<Rightarrow> bool" where
  "same_stage j k \<longleftrightarrow> same_identity j k \<and> job_state k = job_state j"

definition next_stage :: "download_job \<Rightarrow> download_job \<Rightarrow> bool" where
  "next_stage j k \<longleftrightarrow>
     same_identity j k \<and> (job_state k = job_state j \<or> execution_edge (job_state j) (job_state k))"

interpretation sqlite_steps: tracked_runs "journalled (sqlite_repository env)" "\<lambda>s. db_stored env (fst s)"
  "\<lambda>s. db_valid env (fst s)" "admissible env"
  "\<lambda>i j0 s old. successively next_stage (j0 # saved_values i (snd s)) \<and>
     last (j0 # saved_values i (snd s)) = old"
  same_stage next_stage "\<lambda>i c. call_target c \<noteq> Some i" for env
proof (intro tracked_runs.intro tracked_runs_axioms.intro
    download_repository.journalled_contract [OF sqlite.download_repository_axioms])
  fix s s' i j0 old k p
  assume "successively next_stage (j0 # saved_values i (snd s)) \<and>
      last (j0 # saved_values i (snd s)) = old"
    "next_stage old k" "job_id k = i" "repo_save (journalled (sqlite_repository env)) s k = (Inr p, s')"
    "p = k\<lparr>job_updated_at := job_updated_at p\<rparr>"
  moreover from this have "same_identity k p" "job_state p = job_state k" "job_id p = i"
    by (auto dest: touched_fields touched_identity)
  moreover from this calculation have "next_stage old p"
    by (auto simp: next_stage_def intro: same_identity_trans)
  ultimately show "successively next_stage (j0 # saved_values i (snd s')) \<and>
      last (j0 # saved_values i (snd s')) = p"
    by (auto simp: journalled_ops saved_values_def successively_append_iff simp flip: append_Cons)
next
  fix s s' i j0 old k p
  assume "successively next_stage (j0 # saved_values i (snd s)) \<and>
      last (j0 # saved_values i (snd s)) = old"
    "repo_save (journalled (sqlite_repository env)) s k = (Inr p, s')"
    "p = k\<lparr>job_updated_at := job_updated_at p\<rparr>" "job_id k \<noteq> i"
  then show "successively next_stage (j0 # saved_values i (snd s')) \<and>
      last (j0 # saved_values i (snd s')) = old"
    by (auto simp: journalled_ops saved_values_def dest!: touched_fields)
qed (auto simp: journalled_ops same_stage_def next_stage_def quiet_step_def
    dest: job_step_identity intro: same_identity_trans)

text \<open>From a queued job only one way leads to completion.\<close>

lemma execution_stages:
  assumes "successively next_stage (j # js)" "job_state j = Queued"
    "milestones (job_state (last (j # js))) \<noteq> [] \<or> job_state (last (j # js)) = Queued"
  shows "remdups_adj (map job_state (j # js)) = Queued # milestones (job_state (last (j # js)))"
  using assms(1,3)
proof (induction js rule: rev_induct)
  case Nil
  then show ?case using assms(2) by simp
next
  case (snoc k js)
  let ?p = "j # js"
  have path: "successively next_stage ?p" and step: "next_stage (last ?p) k"
    using snoc.prems(1) by (auto simp: successively_append_iff simp flip: append_Cons)
  have snoc': "remdups_adj (map job_state (j # js @ [k])) = remdups_adj (map job_state ?p) @
      (if job_state (last ?p) = job_state k then [] else [job_state k])"
    using remdups_adj_append'' [of "map job_state ?p" "[job_state k]"] by (auto simp: last_map)
  have "milestones (job_state (last ?p)) \<noteq> [] \<or> job_state (last ?p) = Queued"
    "Queued # milestones (job_state k) = Queued # milestones (job_state (last ?p)) @
      (if job_state (last ?p) = job_state k then [] else [job_state k])"
    using step snoc.prems(2)
    by (cases "job_state (last ?p)"; cases "job_state k";
        auto simp: next_stage_def execution_edge_def)+
  with snoc.IH [OF path] snoc' show ?case by simp
qed

section \<open>The service\<close>

text \<open>What the manager of a data directory holds: the registry shows exactly the stored jobs.\<close>

definition service_ok :: "db_env \<Rightarrow> database manager \<Rightarrow> bool" where
  "service_ok env w \<longleftrightarrow> coherent (db_stored env) (db_valid env) w"

definition calls_admissible :: "db_env \<Rightarrow> 'r manager_env \<Rightarrow> bool" where
  "calls_admissible env menv \<longleftrightarrow>
     (\<forall>n. list_all (\<lambda>c. case c of CallCreate d \<Rightarrow> admissible env d | _ \<Rightarrow> True) (env_calls menv n))"

definition calls_elsewhere :: "'r manager_env \<Rightarrow> download_id \<Rightarrow> bool" where
  "calls_elsewhere menv i \<longleftrightarrow> (\<forall>n. list_all (\<lambda>c. call_target c \<noteq> Some i) (env_calls menv n))"

lemma env_fine_identity:
  "env_repo menv = sqlite_repository env \<Longrightarrow> calls_admissible env menv \<Longrightarrow>
     sqlite_identity.env_fine env menv i"
  by (simp add: sqlite_identity.env_fine_def sqlite_identity.call_fine_def calls_admissible_def
      list_all_iff)

lemma env_fine_steps:
  "env_repo menv = journalled (sqlite_repository env) \<Longrightarrow> calls_admissible env menv \<Longrightarrow>
     calls_elsewhere menv i \<Longrightarrow> sqlite_steps.env_fine env menv i"
  by (auto simp: sqlite_steps.env_fine_def sqlite_steps.call_fine_def calls_admissible_def
      calls_elsewhere_def list_all_iff)

lemma registry_is_store: "service_ok env w \<Longrightarrow> manager_job w i = db_stored env (mgr_repo w) i"
  by (simp add: service_ok_def coherent_def manager_job_def)

lemma call_keeps_service:
  assumes "service_ok env w" "env_repo menv = sqlite_repository env"
    "case c of CallCreate d \<Rightarrow> admissible env d | _ \<Rightarrow> True"
  shows "service_ok env (run_call menv c w)"
  using assms sqlite_identity.run_call_coherent [of env w menv _ c]
  by (simp add: service_ok_def sqlite_identity.call_fine_def)

lemma execute_keeps_service:
  assumes "service_ok env w" "env_repo menv = sqlite_repository env" "calls_admissible env menv"
    "execute_controlled_with_updates menv exec handle i w = (res, w')"
  shows "service_ok env w'"
proof (cases "db_stored env (mgr_repo w) i")
  case None
  with assms show ?thesis
    using sqlite_identity.execute_unknown [of env w i menv exec handle]
    by (auto simp: service_ok_def)
next
  case (Some j0)
  show ?thesis
    using sqlite_identity.execute_report(1) [OF env_fine_identity [OF assms(2,3)] _ Some _ assms(4)] assms(1)
    by (simp add: service_ok_def)
qed

section \<open>Requests on the handle\<close>

lemma handle_keeps [keeps_intros]:
  "keeps (\<lambda>w. mgr_cancel w = h) (now_utc env)"
  "keeps (\<lambda>w. mgr_cancel w = h) (with_repo f)"
  "keeps (\<lambda>w. mgr_cancel w = h) (modify_state (\<lambda>w. w\<lparr>mgr_jobs := jobs w\<rparr>))"
  by (simp_all add: keeps_def now_utc_def with_repo_def modify_state_def split: prod.splits)

lemma idle_keeps_handle: "keeps (\<lambda>w. mgr_cancel w = h) (change_idle_state env i command)"
  unfolding change_idle_state_def job_or_def save_job_locked_def Let_def
  by (intro keeps_intros)

lemma create_keeps_handle: "keeps (\<lambda>w. mgr_cancel w = h) (manager_create env d)"
  unfolding manager_create_def by (intro keeps_intros)

lemma run_call_keeps_handle [simp]: "mgr_cancel (run_call env c w) = mgr_cancel w"
proof (cases c)
  case (CallCreate d)
  then show ?thesis using create_keeps_handle [of "mgr_cancel w" env d] by (simp add: keeps_def)
next
  case (CallIdle command i)
  then show ?thesis using idle_keeps_handle [of "mgr_cancel w" env i command] by (simp add: keeps_def)
qed

lemma run_calls_keep_handle [simp]: "mgr_cancel (fold (run_call env) cs w) = mgr_cancel w"
  by (induction cs arbitrary: w) simp_all

lemma read_request_result:
  "\<exists>w'. read_request env w = (Inr (requested (fold control_apply (env_control env (mgr_points w)) (mgr_cancel w))), w') \<and>
     mgr_cancel w' = fold control_apply (env_control env (mgr_points w)) (mgr_cancel w)"
  by (simp add: read_request_def act_bind_def yield_point_def modify_state_def get_state_def ret_def
      Let_def request_kind_def)

lemma read_request_pending:
  assumes "requested (mgr_cancel w) \<noteq> None"
  obtains req w' where "read_request env w = (Inr (Some req), w')"
    "requested (mgr_cancel w) = Some ReqCancel \<Longrightarrow> req = ReqCancel"
  using read_request_result [of env w] request_never_withdrawn [OF assms]
    cancel_request_sticks [of "mgr_cancel w"]
  by (metis option.collapse option.inject)

lemma read_request_cancel:
  assumes "requested (mgr_cancel w) = Some ReqCancel"
  obtains w' where "read_request env w = (Inr (Some ReqCancel), w')"
  using read_request_result [of env w] cancel_request_sticks [OF assms] by auto

text \<open>A stop that is recorded reports the state the request asks for.\<close>

lemma record_execution_stop_report:
  "record_execution_stop env j written req est rewind w = (Inr r, w') \<Longrightarrow>
     rep_event r = EvStateChanged (job_id j) (job_state j) (request_state req)"
  by (auto simp: record_execution_stop_def act_simps Let_def)

lemma pending_request_stops_start:
  assumes "requested handle \<noteq> None"
  shows "execute_controlled_with_updates env exec handle i w =
    execute_controlled_with_updates env exec' handle i w"
proof -
  let ?w = "w\<lparr>mgr_cancel := handle, mgr_observed := []\<rparr>"
  have pending: "requested (mgr_cancel ?w) \<noteq> None" using assms by simp
  obtain req w' where "read_request env ?w = (Inr (Some req) :: manager_error + _, w')"
    using read_request_pending [OF pending] by metis
  then show ?thesis
    by (cases "manager_job w i")
       (simp_all add: execute_controlled_with_updates_def execute_inner_def modify_state_def
         job_or_def act_bind_def get_state_def lift_result_def manager_job_def throw_def)
qed

lemma cancelled_start_report:
  assumes "requested handle = Some ReqCancel"
    "execute_controlled_with_updates env exec handle i w = (Inr r, w')"
    "manager_job w i = Some j" "job_id j = i"
  shows "rep_event r = EvStateChanged i Queued Cancelled"
proof -
  let ?w = "w\<lparr>mgr_cancel := handle, mgr_observed := []\<rparr>"
  have cancel: "requested (mgr_cancel ?w) = Some ReqCancel" using assms(1) by simp
  obtain w1 where read: "read_request env ?w = (Inr (Some ReqCancel) :: manager_error + _, w1)"
    using read_request_cancel [OF cancel] .
  from assms(3) have job: "manager_job ?w i = Some j" by (simp add: manager_job_def)
  from assms(2) have "execute_inner env exec i ?w = (Inr r, w')"
    by (simp add: execute_controlled_with_updates_def act_bind_Inr [OF modify_state_apply])
  with read job assms(4) show ?thesis
    by (auto simp: execute_inner_def act_simps job_or_def throw_def
        dest!: record_execution_stop_report split: if_splits)
qed

lemma pending_cancel_stops_publication:
  assumes "requested (mgr_cancel w) = Some ReqCancel"
    "execute_staged env i j n tot est staged w = (Inr r, w')"
  shows "rep_event r = EvStateChanged (job_id j) (job_state j) Cancelled"
proof -
  obtain w1 where read: "read_request env w = (Inr (Some ReqCancel) :: manager_error + _, w1)"
    using read_request_cancel [OF assms(1)] .
  show ?thesis
    using assms(2) read
    by (auto simp: execute_staged_def act_simps Let_def dest!: record_execution_stop_report)
qed

lemma pending_cancel_ignores_output:
  assumes "requested (mgr_cancel w) = Some ReqCancel"
  shows "execute_staged env i j n tot est staged w =
    execute_staged env i j n tot est (staged\<lparr>staged_finalize := published\<rparr>) w"
proof -
  obtain w1 where "read_request env w = (Inr (Some ReqCancel) :: manager_error + _, w1)"
    using read_request_cancel [OF assms] .
  then show ?thesis
    by (cases "staged_progress j n tot est (staged_written staged)")
       (simp_all add: execute_staged_def act_bind_def lift_result_def Let_def)
qed

end
