(* ===== verification/Bytes.thy ===== *)
theory Bytes
  imports Text
begin

text \<open>
  Byte strings: the bytes of a text, UTF-8 validation, big-endian words and the slice accesses of
  the standard library that return an option.
\<close>

section \<open>Texts and UTF-8\<close>

definition as_bytes :: "string \<Rightarrow> u8 list" where
  "as_bytes s = map (\<lambda>c. of_nat (byte c)) s"

definition bytes_str :: "u8 list \<Rightarrow> string" where
  "bytes_str bs = map (\<lambda>w. char_of (unat w)) bs"

definition utf8_tail :: "u8 \<Rightarrow> bool" where
  "utf8_tail b \<longleftrightarrow> 0x80 \<le> b \<and> b \<le> 0xBF"

fun utf8_valid :: "u8 list \<Rightarrow> bool" where
  "utf8_valid [] = True"
| "utf8_valid (a # bs) =
     (if a \<le> 0x7F then utf8_valid bs
      else if 0xC2 \<le> a \<and> a \<le> 0xDF then
        (case bs of b # cs \<Rightarrow> utf8_tail b \<and> utf8_valid cs | _ \<Rightarrow> False)
      else if 0xE0 \<le> a \<and> a \<le> 0xEF then
        (case bs of b # c # ds \<Rightarrow>
           utf8_tail b \<and> (a = 0xE0 \<longrightarrow> 0xA0 \<le> b) \<and> (a = 0xED \<longrightarrow> b \<le> 0x9F) \<and> utf8_tail c \<and>
           utf8_valid ds | _ \<Rightarrow> False)
      else if 0xF0 \<le> a \<and> a \<le> 0xF4 then
        (case bs of b # c # d # es \<Rightarrow>
           utf8_tail b \<and> (a = 0xF0 \<longrightarrow> 0x90 \<le> b) \<and> (a = 0xF4 \<longrightarrow> b \<le> 0x8F) \<and> utf8_tail c \<and>
           utf8_tail d \<and> utf8_valid es | _ \<Rightarrow> False)
      else False)"

definition from_utf8 :: "u8 list \<Rightarrow> string option" where
  "from_utf8 bs = (if utf8_valid bs then Some (bytes_str bs) else None)"

lemma bytes_str_as_bytes [simp]: "bytes_str (as_bytes s) = s"
  by (induction s) (simp_all add: as_bytes_def bytes_str_def unsigned_of_nat take_bit_nat_eq_self)

lemma as_bytes_inject [simp]: "as_bytes s = as_bytes t \<longleftrightarrow> s = t"
  by (metis bytes_str_as_bytes)

lemma utf8_valid_ascii: "list_all (\<lambda>c. byte c < 128) s \<Longrightarrow> utf8_valid (as_bytes s)"
proof (induction s)
  case (Cons c s)
  then have "(of_nat (byte c) :: u8) \<le> 0x7F"
    by (simp add: word_le_nat_alt unsigned_of_nat take_bit_nat_eq_self)
  with Cons show ?case by (simp add: as_bytes_def)
qed (simp add: as_bytes_def)

lemma from_utf8_ascii: "list_all (\<lambda>c. byte c < 128) s \<Longrightarrow> from_utf8 (as_bytes s) = Some s"
  by (simp add: from_utf8_def utf8_valid_ascii)

section \<open>Slices and I/O errors\<close>

text \<open>\<open><[u8]>::get(a..b)\<close> and \<open>get(i)\<close>.\<close>

definition slice_get :: "'a list \<Rightarrow> nat \<Rightarrow> nat \<Rightarrow> 'a list option" where
  "slice_get xs a b = (if a \<le> b \<and> b \<le> length xs then Some (take (b - a) (drop a xs)) else None)"

definition nth_get :: "'a list \<Rightarrow> nat \<Rightarrow> 'a option" where
  "nth_get xs i = (if i < length xs then Some (xs ! i) else None)"

datatype io_kind = UnexpectedEof | NotFoundIo | InvalidDataIo | OtherIo nat

section \<open>Big-endian words\<close>

fun from_be_bytes :: "u8 list \<Rightarrow> 'a::len word" where
  "from_be_bytes bs = fold (\<lambda>b acc. or (push_bit 8 acc) (ucast b)) bs 0"

definition to_be_bytes :: "nat \<Rightarrow> 'a::len word \<Rightarrow> u8 list" where
  "to_be_bytes n w = map (\<lambda>k. ucast (drop_bit (8 * k) w)) (rev [0..<n])"

lemma bit_from_be_bytes:
  "bit (from_be_bytes bs :: 'a::len word) i \<longleftrightarrow>
     i < LENGTH('a) \<and> i < 8 * length bs \<and> bit (rev bs ! (i div 8)) (i mod 8)"
proof (induction bs arbitrary: i rule: rev_induct)
  case (snoc b bs)
  show ?case
  proof (cases "i < 8")
    case True
    then show ?thesis by (simp add: bit_simps)
  next
    case False
    then have "i div 8 = Suc ((i - 8) div 8)" "(i - 8) mod 8 = i mod 8"
      by (simp_all add: le_div_geq le_mod_geq)
    moreover have "\<not> bit b i" using False by (auto dest: bit_imp_le_length)
    ultimately show ?thesis using False snoc [of "i - 8"] by (auto simp: bit_simps)
  qed
qed simp

lemma from_to_be_bytes:
  "8 * n = LENGTH('a) \<Longrightarrow> from_be_bytes (to_be_bytes n w) = (w :: 'a::len word)"
proof (rule bit_word_eqI)
  fix i assume n: "8 * n = LENGTH('a)" and i: "i < LENGTH('a)"
  then have k: "i div 8 < n" by simp
  have "rev (to_be_bytes n w) ! (i div 8) = (ucast (drop_bit (8 * (i div 8)) w) :: u8)"
    using k by (simp add: to_be_bytes_def rev_map rev_nth)
  moreover have "8 * (i div 8) + i mod 8 = i" by simp
  ultimately show "bit (from_be_bytes (to_be_bytes n w) :: 'a word) i = bit w i"
    using n i by (simp add: bit_from_be_bytes bit_simps to_be_bytes_def del: from_be_bytes.simps)
qed

lemma length_to_be_bytes [simp]: "length (to_be_bytes n w) = n"
  by (simp add: to_be_bytes_def)

end
