(* ===== verification/Websocket.thy ===== *)
theory Websocket
  imports Bytes Action
begin

text \<open>
  The server side of the capture channel, \<open>crates/gunda-capture/src/websocket.rs\<close>: the opening
  handshake, frames, fragmented messages and control frames.  The transport is what the peer sends
  until the stream ends or fails, and what was written to it; SHA-1 and base64 are behind the
  parameter \<open>accept_key\<close>.
\<close>

section \<open>Bytes, UTF-8 and the transport\<close>

datatype websocket_error = WsIo io_kind | WsHandshake | WsProtocol | WsMessageTooLarge

fun websocket_error_display :: "(io_kind \<Rightarrow> string) \<Rightarrow> websocket_error \<Rightarrow> string" where
  "websocket_error_display show_kind (WsIo k) = ''the connection failed ('' @ show_kind k @ '')''"
| "websocket_error_display show_kind WsHandshake = ''the WebSocket handshake was invalid''"
| "websocket_error_display show_kind WsProtocol = ''the peer violated the WebSocket protocol''"
| "websocket_error_display show_kind WsMessageTooLarge = ''the WebSocket message was too large''"

text \<open>\<open>rx_end\<close> is the error that ends the incoming bytes, \<open>None\<close> for an orderly end of stream.\<close>

record transport =
  rx :: "u8 list"
  rx_end :: "io_kind option"
  tx :: "u8 list"
  tx_ops :: nat
  tx_error :: "nat \<Rightarrow> io_kind option"

type_synonym 'a ws = "(transport, websocket_error, 'a) act"

definition ws_read_exact :: "nat \<Rightarrow> u8 list ws" where
  "ws_read_exact n t =
     (if n \<le> length (rx t) then (Inr (take n (rx t)), t\<lparr>rx := drop n (rx t)\<rparr>)
      else (Inl (WsIo (case rx_end t of None \<Rightarrow> UnexpectedEof | Some k \<Rightarrow> k)), t\<lparr>rx := []\<rparr>))"

definition ws_write_all :: "u8 list \<Rightarrow> unit ws" where
  "ws_write_all bs t =
     (case tx_error t (tx_ops t) of
        Some k \<Rightarrow> (Inl (WsIo k), t\<lparr>tx_ops := Suc (tx_ops t)\<rparr>)
      | None \<Rightarrow> (Inr (), t\<lparr>tx := tx t @ bs, tx_ops := Suc (tx_ops t)\<rparr>))"

definition ws_flush :: "unit ws" where
  "ws_flush t =
     (case tx_error t (tx_ops t) of
        Some k \<Rightarrow> (Inl (WsIo k), t\<lparr>tx_ops := Suc (tx_ops t)\<rparr>)
      | None \<Rightarrow> (Inr (), t\<lparr>tx_ops := Suc (tx_ops t)\<rparr>))"

section \<open>Constants\<close>

definition max_handshake_bytes :: nat where "max_handshake_bytes = 16 * 1024"
definition max_message_bytes :: nat where "max_message_bytes = 2 * 1024 * 1024"

definition op_continuation :: u8 where "op_continuation = 0x0"
definition op_text :: u8 where "op_text = 0x1"
definition op_close :: u8 where "op_close = 0x8"
definition op_ping :: u8 where "op_ping = 0x9"
definition op_pong :: u8 where "op_pong = 0xA"

lemmas op_defs = op_continuation_def op_text_def op_close_def op_ping_def op_pong_def

section \<open>Frames\<close>

definition unmask :: "u8 list \<Rightarrow> u8 list \<Rightarrow> u8 list" where
  "unmask key payload = map (\<lambda>(i, b). xor b (key ! (i mod 4))) (enumerate 0 payload)"

definition frame_length :: "u8 \<Rightarrow> u64 ws" where
  "frame_length h1 =
     (if and h1 0x7F = 126 then
        act_bind (ws_read_exact 2) (\<lambda>extended. ret (ucast (from_be_bytes extended :: u16)))
      else if and h1 0x7F = 127 then
        act_bind (ws_read_exact 8) (\<lambda>extended. ret (from_be_bytes extended))
      else ret (ucast (and h1 0x7F)))"

definition read_frame :: "(bool \<times> u8 \<times> u8 list) ws" where
  "read_frame =
     act_bind (ws_read_exact 2) (\<lambda>header.
     let h0 = header ! 0; h1 = header ! 1 in
     if and h0 0x70 \<noteq> 0 then throw WsProtocol
     else
       let fin = (and h0 0x80 \<noteq> 0); opcode = and h0 0x0F in
       if and h1 0x80 = 0 then throw WsProtocol
       else
         act_bind (frame_length h1) (\<lambda>len.
         if op_close \<le> opcode \<and> (\<not> fin \<or> 125 < len) then throw WsProtocol
         else if max_message_bytes < unat len then throw WsMessageTooLarge
         else
           act_bind (ws_read_exact 4) (\<lambda>key.
           act_bind (ws_read_exact (unat len)) (\<lambda>payload.
           ret (fin, opcode, unmask key payload)))))"

definition frame_bytes :: "u8 \<Rightarrow> u8 list \<Rightarrow> u8 list" where
  "frame_bytes opcode payload =
     (or 0x80 opcode) #
     (let n = length payload in
      if n < 126 then [of_nat n]
      else if n \<le> 0xFFFF then 126 # to_be_bytes 2 (of_nat n :: u16)
      else 127 # to_be_bytes 8 (of_nat n :: u64)) @ payload"

definition write_frame :: "u8 \<Rightarrow> u8 list \<Rightarrow> unit ws" where
  "write_frame opcode payload =
     act_bind (ws_write_all (frame_bytes opcode payload)) (\<lambda>_. ws_flush)"

section \<open>Messages\<close>

definition push_bounded :: "u8 list \<Rightarrow> u8 list \<Rightarrow> websocket_error + u8 list" where
  "push_bounded message payload =
     (if length message + length payload > max_message_bytes then Inl WsMessageTooLarge
      else Inr (message @ payload))"

definition decode_message :: "u8 list \<Rightarrow> websocket_error + string option" where
  "decode_message message = rmap Some (ok_or WsProtocol (from_utf8 message))"

lemma ws_read_exact_rx:
  "ws_read_exact n t = (r, t') \<Longrightarrow> length (rx t') \<le> length (rx t)"
  "ws_read_exact n t = (Inr bs, t') \<Longrightarrow> length (rx t') + n = length (rx t)"
  by (auto simp: ws_read_exact_def split: if_splits)

lemma write_rx:
  "ws_write_all bs t = (r, t') \<Longrightarrow> rx t' = rx t" "ws_flush t = (r, t') \<Longrightarrow> rx t' = rx t"
  by (auto simp: ws_write_all_def ws_flush_def split: option.splits)

lemma write_frame_rx: "write_frame opcode payload t = (r, t') \<Longrightarrow> rx t' = rx t"
  by (auto simp: write_frame_def act_bind_split) (metis write_rx)+

lemma read_frame_rx: "read_frame t = (Inr f, t') \<Longrightarrow> length (rx t') < length (rx t)"
  by (auto simp: read_frame_def frame_length_def act_simps throw_def Let_def split: if_splits
      dest!: ws_read_exact_rx(2))

function receive_loop :: "u8 list \<Rightarrow> bool \<Rightarrow> string option ws" where
  "receive_loop message started t =
     (case read_frame t of
        (Inl e, t') \<Rightarrow> (Inl e, t')
      | (Inr (fin, opcode, payload), t') \<Rightarrow>
          if opcode = op_ping then
            (case write_frame op_pong payload t' of
               (Inl e, u) \<Rightarrow> (Inl e, u)
             | (Inr _, u) \<Rightarrow> receive_loop message started u)
          else if opcode = op_pong then receive_loop message started t'
          else if opcode = op_close then
            (Inr None, snd (write_frame op_close [] t'))
          else if opcode = op_text then
            if started \<or> message \<noteq> [] then (Inl WsProtocol, t')
            else
              (case push_bounded message payload of
                 Inl e \<Rightarrow> (Inl e, t')
               | Inr message' \<Rightarrow>
                   if fin then (decode_message message', t') else receive_loop message' True t')
          else if opcode = op_continuation then
            if \<not> started then (Inl WsProtocol, t')
            else
              (case push_bounded message payload of
                 Inl e \<Rightarrow> (Inl e, t')
               | Inr message' \<Rightarrow>
                   if fin then (decode_message message', t') else receive_loop message' started t')
          else (Inl WsProtocol, t'))"
  by pat_completeness auto

termination
  by (relation "measure (\<lambda>(m, s, t). length (rx t))")
     (auto dest!: read_frame_rx [OF sym] write_frame_rx [OF sym])

declare receive_loop.simps [simp del]

definition ws_receive :: "string option ws" where
  "ws_receive = receive_loop [] False"

definition send_text :: "string \<Rightarrow> unit ws" where
  "send_text message =
     (if length message > max_message_bytes then throw WsMessageTooLarge
      else write_frame op_text (as_bytes message))"

definition ws_close :: "unit ws" where
  "ws_close = write_frame op_close []"

section \<open>The opening handshake\<close>

record handshake =
  hs_path :: string
  hs_origin :: "string option"

fun split_crlf :: "string \<Rightarrow> string list" where
  "split_crlf (a # b # cs) =
     (if a = CHR 0x0D \<and> b = CHR 0x0A then [] # split_crlf cs
      else (case split_crlf (b # cs) of [] \<Rightarrow> [[a]] | w # ws \<Rightarrow> (a # w) # ws))"
| "split_crlf s = [s]"

record handshake_headers =
  hh_upgrade :: bool
  hh_connection :: bool
  hh_key :: "string option"
  hh_version :: bool
  hh_origin :: "string option"

definition handshake_header :: "string \<Rightarrow> string \<Rightarrow> handshake_headers \<Rightarrow> handshake_headers" where
  "handshake_header name value h =
     (if eq_ignore_ascii_case name ''upgrade'' then
        h\<lparr>hh_upgrade := eq_ignore_ascii_case value ''websocket''\<rparr>
      else if eq_ignore_ascii_case name ''connection'' then
        h\<lparr>hh_connection :=
            list_ex (\<lambda>tok. eq_ignore_ascii_case (trim tok) ''upgrade'') (split_on (CHR '','') value)\<rparr>
      else if eq_ignore_ascii_case name ''sec-websocket-key'' then h\<lparr>hh_key := Some value\<rparr>
      else if eq_ignore_ascii_case name ''sec-websocket-version'' then
        h\<lparr>hh_version := (value = ''13'')\<rparr>
      else if eq_ignore_ascii_case name ''origin'' then h\<lparr>hh_origin := Some value\<rparr>
      else h)"

fun handshake_lines :: "string list \<Rightarrow> handshake_headers \<Rightarrow> websocket_error + handshake_headers" where
  "handshake_lines [] h = Inr h"
| "handshake_lines (line # ls) h =
     (if line = [] then Inr h
      else
        rbind (ok_or WsHandshake (split_once (CHR '':'') line)) (\<lambda>(name, value).
        handshake_lines ls (handshake_header (trim name) (trim value) h)))"

definition crlf :: string where
  "crlf = [CHR 0x0D, CHR 0x0A]"

definition handshake_response :: "string \<Rightarrow> string" where
  "handshake_response accept =
     ''HTTP/1.1 101 Switching Protocols'' @ crlf @ ''Upgrade: websocket'' @ crlf @
     ''Connection: Upgrade'' @ crlf @ ''Sec-WebSocket-Accept: '' @ accept @ crlf @ crlf"

text \<open>\<open>accept_key\<close> over the SHA-1 and base64 functions of their crates.\<close>

definition handshake_guid :: string where
  "handshake_guid = ''258EAFA5-E914-47DA-95CA-C5AB0DC85B11''"

definition accept_key :: "(u8 list \<Rightarrow> u8 list) \<Rightarrow> (u8 list \<Rightarrow> string) \<Rightarrow> string \<Rightarrow> string" where
  "accept_key sha1 base64 key = base64 (sha1 (as_bytes key @ as_bytes handshake_guid))"

text \<open>The parameter of what follows is \<open>accept_key\<close> at these two functions.\<close>

definition parse_handshake ::
  "(string \<Rightarrow> string) \<Rightarrow> string \<Rightarrow> websocket_error + handshake \<times> string" where
  "parse_handshake accept head =
     (case split_crlf head of
        [] \<Rightarrow> Inl WsHandshake
      | request_line # ls \<Rightarrow>
          (case split_on (CHR '' '') request_line of
             method # path # more_fields \<Rightarrow>
               if method \<noteq> ''GET'' \<or>
                  \<not> (case more_fields of v # _ \<Rightarrow> starts_with ''HTTP/1.'' v | [] \<Rightarrow> False)
               then Inl WsHandshake
               else
                 rbind (handshake_lines ls \<lparr>hh_upgrade = False, hh_connection = False, hh_key = None,
                          hh_version = False, hh_origin = None\<rparr>) (\<lambda>h.
                 if \<not> hh_upgrade h \<or> \<not> hh_connection h \<or> \<not> hh_version h then Inl WsHandshake
                 else
                   (case hh_key h of
                      Some key \<Rightarrow>
                        if key = [] then Inl WsHandshake
                        else Inr (\<lparr>hs_path = path, hs_origin = hh_origin h\<rparr>,
                                  handshake_response (accept key))
                    | None \<Rightarrow> Inl WsHandshake))
           | _ \<Rightarrow> Inl WsHandshake))"

fun read_head_loop :: "u8 list \<Rightarrow> u8 list \<Rightarrow> io_kind option \<Rightarrow> (websocket_error + u8 list) \<times> u8 list" where
  "read_head_loop head [] final = (Inl (case final of None \<Rightarrow> WsHandshake | Some k \<Rightarrow> WsIo k), [])"
| "read_head_loop head (b # bs) final =
     (let head = head @ [b] in
      if ends_with [13, 10, 13, 10] head then (Inr head, bs)
      else if length head > max_handshake_bytes then (Inl WsHandshake, bs)
      else read_head_loop head bs final)"

definition read_head :: "string ws" where
  "read_head t =
     (case read_head_loop [] (rx t) (rx_end t) of
        (res, rest) \<Rightarrow>
          (rbind res (\<lambda>head. ok_or WsHandshake (from_utf8 head)), t\<lparr>rx := rest\<rparr>))"

definition ws_accept :: "(string \<Rightarrow> string) \<Rightarrow> handshake ws" where
  "ws_accept accept =
     act_bind read_head (\<lambda>head.
     act_bind (lift_result (parse_handshake accept head)) (\<lambda>(hs, response).
     act_bind (ws_write_all (as_bytes response)) (\<lambda>_.
     act_bind ws_flush (\<lambda>_. ret hs))))"

end
