(* ===== verification/Websocket_Correct.thy ===== *)
theory Websocket_Correct
  imports Websocket
begin

text \<open>
  The capture channel against RFC 6455: client frames are read back, server frames are what a client
  reads back, a fragmented message with control frames between its fragments is put together, and
  what is refused or bounded.
\<close>

section \<open>Masking\<close>

lemma length_unmask [simp]: "length (unmask key p) = length p"
  by (simp add: unmask_def)

text \<open>The masking of RFC 6455 section 5.3: the key octets in turn, from the first one again.\<close>

fun mask_octets :: "u8 list \<Rightarrow> u8 list \<Rightarrow> u8 list" where
  "mask_octets key [] = []"
| "mask_octets key (b # bs) = xor b (hd key) # mask_octets (rotate1 key) bs"

lemma length_mask_octets [simp]: "length (mask_octets key p) = length p"
  by (induction p arbitrary: key) auto

lemma nth_mask_octets:
  "i < length p \<Longrightarrow> key \<noteq> [] \<Longrightarrow> mask_octets key p ! i = xor (p ! i) (key ! (i mod length key))"
proof (induction p arbitrary: key i)
  case (Cons b bs)
  show ?case
  proof (cases i)
    case (Suc k)
    have "rotate1 key \<noteq> []" "rotate1 key ! (k mod length key) = key ! (Suc k mod length key)"
      using Cons.prems by (simp_all add: nth_rotate1 mod_Suc_eq)
    with Suc Cons show ?thesis by simp
  qed (use Cons in \<open>simp add: hd_conv_nth\<close>)
qed simp

lemma unmask_mask_octets [simp]: "length key = 4 \<Longrightarrow> unmask key (mask_octets key p) = p"
proof (rule nth_equalityI)
  fix i assume "length key = 4" "i < length (unmask key (mask_octets key p))"
  moreover from this have "key \<noteq> []" by auto
  ultimately show "unmask key (mask_octets key p) ! i = p ! i"
    by (simp add: unmask_def nth_enumerate_eq nth_mask_octets xor.assoc)
qed simp

section \<open>Client frames\<close>

record client_frame =
  cf_fin :: bool
  cf_opcode :: u8
  cf_key :: "u8 list"
  cf_payload :: "u8 list"

definition client_frame_ok :: "client_frame \<Rightarrow> bool" where
  "client_frame_ok f \<longleftrightarrow>
     cf_opcode f < 16 \<and> length (cf_key f) = 4 \<and> length (cf_payload f) \<le> max_message_bytes \<and>
     (op_close \<le> cf_opcode f \<longrightarrow> cf_fin f \<and> length (cf_payload f) \<le> 125)"

text \<open>The encoding RFC 6455 prescribes for a client.\<close>

definition client_wire :: "client_frame \<Rightarrow> u8 list" where
  "client_wire f =
     (let n = length (cf_payload f) in
     [or (if cf_fin f then 0x80 else 0) (cf_opcode f)] @
     (if n < 126 then [or 0x80 (of_nat n)]
      else if n \<le> 0xFFFF then or 0x80 126 # to_be_bytes 2 (of_nat n :: u16)
      else or 0x80 127 # to_be_bytes 8 (of_nat n :: u64)) @
     cf_key f @ mask_octets (cf_key f) (cf_payload f))"

lemma nibble_cases: "(op :: u8) < 16 \<Longrightarrow> op \<in> set (map of_nat [0..<16])"
proof -
  assume "op < 16"
  then have "unat op < 16" by (simp add: word_less_nat_alt)
  then show ?thesis by (auto intro!: image_eqI [of _ _ "unat op"])
qed

lemma first_byte:
  assumes "(op :: u8) < 16"
  shows "and (or (if fin then 0x80 else 0) op) 0x70 = 0"
    "and (or (if fin then 0x80 else 0) op) 0x80 \<noteq> 0 \<longleftrightarrow> fin"
    "and (or (if fin then 0x80 else 0) op) 0x0F = op"
  using nibble_cases [OF assms] by (cases fin; auto simp: upt_rec)+

lemma short_length:
  assumes "n < 126"
  shows "and (or 0x80 (of_nat n)) 0x80 \<noteq> (0 :: u8)" "and (or 0x80 (of_nat n)) 0x7F = (of_nat n :: u8)"
proof -
  have seven: "and x 0x7F = take_bit 7 x" for x :: u8
    by (simp add: take_bit_eq_mask mask_eq_exp_minus_1)
  show "and (or 0x80 (of_nat n)) 0x7F = (of_nat n :: u8)"
    unfolding seven using assms by (simp add: take_bit_or take_bit_of_nat take_bit_nat_eq_self)
  have "bit (and (or 0x80 (of_nat n)) 0x80 :: u8) 7" by (simp add: bit_simps bit_numeral_rec)
  then show "and (or 0x80 (of_nat n)) 0x80 \<noteq> (0 :: u8)" by auto
qed

lemma ws_read_exact_append:
  "rx t = bs @ rest \<Longrightarrow> length bs = n \<Longrightarrow> ws_read_exact n t = (Inr bs, t\<lparr>rx := rest\<rparr>)"
  by (simp add: ws_read_exact_def)

lemma length_prefix:
  fixes n :: nat
  defines "pre \<equiv> (if n < 126 then [or 0x80 (of_nat n)]
      else if n \<le> 0xFFFF then or 0x80 126 # to_be_bytes 2 (of_nat n :: u16)
      else or 0x80 127 # to_be_bytes 8 (of_nat n :: u64)) :: u8 list"
  assumes "n < 2 ^ 64"
  shows "and (hd pre) 0x80 \<noteq> 0" "pre = hd pre # tl pre"
    "rx t = tl pre @ rest \<Longrightarrow>
       frame_length (hd pre) t = (Inr (of_nat n), t\<lparr>rx := rest\<rparr>)"
proof -
  consider "n < 126" | "126 \<le> n" "n \<le> 0xFFFF" | "0xFFFF < n" by linarith
  note cases = this
  show "and (hd pre) 0x80 \<noteq> 0" "pre = hd pre # tl pre"
    by (rule cases; simp add: pre_def short_length)+
  assume r: "rx t = tl pre @ rest"
  show "frame_length (hd pre) t = (Inr (of_nat n), t\<lparr>rx := rest\<rparr>)"
  proof (rule cases)
    assume n: "n < 126"
    have small: "(of_nat n :: u8) \<noteq> 126" "(of_nat n :: u8) \<noteq> 127"
      using n by (auto simp: word_eq_iff_unsigned unsigned_of_nat take_bit_nat_eq_self word_unat_eq_iff)
    have "ucast (of_nat n :: u8) = (of_nat n :: u64)"
      using n by (intro word_unat_eq_iff [THEN iffD2]) (simp add: unsigned_ucast_eq unsigned_of_nat take_bit_nat_eq_self)
    with n r small show ?thesis
      by (simp add: frame_length_def pre_def short_length ret_def)
  next
    assume n: "126 \<le> n" "n \<le> 0xFFFF"
    have "from_be_bytes (to_be_bytes 2 (of_nat n :: u16)) = (of_nat n :: u16)"
      by (rule from_to_be_bytes) simp
    moreover have "ucast (of_nat n :: u16) = (of_nat n :: u64)"
      using n by (intro word_unat_eq_iff [THEN iffD2]) (simp add: unsigned_ucast_eq unsigned_of_nat take_bit_nat_eq_self)
    ultimately show ?thesis
      using n r
      by (simp add: frame_length_def pre_def act_bind_def ws_read_exact_append [of t _ rest] ret_def del: from_be_bytes.simps)
  next
    assume n: "0xFFFF < n"
    have "from_be_bytes (to_be_bytes 8 (of_nat n :: u64)) = (of_nat n :: u64)"
      by (rule from_to_be_bytes) simp
    with n r show ?thesis
      by (simp add: frame_length_def pre_def act_bind_def ws_read_exact_append [of t _ rest] ret_def del: from_be_bytes.simps)
  qed
qed

lemma read_client_frame:
  assumes "client_frame_ok f" "rx t = client_wire f @ rest"
  shows "read_frame t = (Inr (cf_fin f, cf_opcode f, cf_payload f), t\<lparr>rx := rest\<rparr>)"
proof -
  let ?n = "length (cf_payload f)"
  define pre where "pre = ((if ?n < 126 then [or 0x80 (of_nat ?n)]
      else if ?n \<le> 0xFFFF then or 0x80 126 # to_be_bytes 2 (of_nat ?n :: u16)
      else or 0x80 127 # to_be_bytes 8 (of_nat ?n :: u64)) :: u8 list)"
  let ?h0 = "or (if cf_fin f then 0x80 else 0) (cf_opcode f)"
  have ok: "cf_opcode f < 16" "length (cf_key f) = 4" "?n \<le> max_message_bytes"
    "op_close \<le> cf_opcode f \<longrightarrow> cf_fin f \<and> ?n \<le> 125"
    using assms(1) by (simp_all add: client_frame_ok_def)
  have n: "?n < 2 ^ 64" using ok(3) by (simp add: max_message_bytes_def)
  note len = length_prefix [OF n, folded pre_def]
  have un: "unat (of_nat ?n :: u64) = ?n"
    using n by (simp add: unsigned_of_nat take_bit_nat_eq_self)
  have small: "\<not> (op_close \<le> cf_opcode f \<and> (\<not> cf_fin f \<or> (125 :: u64) < of_nat ?n))"
    using ok(4) by (auto simp: word_less_nat_alt un)
  let ?rest = "cf_key f @ mask_octets (cf_key f) (cf_payload f) @ rest"
  have rx: "rx t = [?h0, hd pre] @ tl pre @ ?rest"
    using assms(2) len(2) by (simp add: client_wire_def Let_def pre_def [symmetric])
  have header: "ws_read_exact 2 t = (Inr [?h0, hd pre], t\<lparr>rx := tl pre @ ?rest\<rparr>)"
    by (rule ws_read_exact_append [OF rx]) simp
  have length: "frame_length (hd pre) (t\<lparr>rx := tl pre @ ?rest\<rparr>) = (Inr (of_nat ?n), t\<lparr>rx := ?rest\<rparr>)"
    using len(3) [of "t\<lparr>rx := tl pre @ ?rest\<rparr>" ?rest] by simp
  have key: "ws_read_exact 4 (t\<lparr>rx := ?rest\<rparr>) =
      (Inr (cf_key f), t\<lparr>rx := mask_octets (cf_key f) (cf_payload f) @ rest\<rparr>)"
    using ws_read_exact_append [of "t\<lparr>rx := ?rest\<rparr>" "cf_key f"] ok(2) by simp
  have payload: "ws_read_exact ?n (t\<lparr>rx := mask_octets (cf_key f) (cf_payload f) @ rest\<rparr>) =
      (Inr (mask_octets (cf_key f) (cf_payload f)), t\<lparr>rx := rest\<rparr>)"
    using ws_read_exact_append [of "t\<lparr>rx := mask_octets (cf_key f) (cf_payload f) @ rest\<rparr>"] by simp
  show ?thesis
    unfolding read_frame_def Let_def
    using ok(4) small
    by (cases "op_close \<le> cf_opcode f")
       (simp_all add: act_bind_def header length key payload first_byte [OF ok(1)]
         first_byte [OF ok(1), where fin = True, simplified] len(1) un
         ok(3) [folded linorder_not_less] ret_def ok(2))
qed

section \<open>Messages\<close>

definition control_frame :: "client_frame \<Rightarrow> bool" where
  "control_frame f \<longleftrightarrow> cf_fin f \<and> (cf_opcode f = op_ping \<or> cf_opcode f = op_pong) \<and> length (cf_payload f) \<le> 125"

text \<open>
  \<open>message_frames started fs m\<close>: the frames \<open>fs\<close> carry what is left of a text message with bytes
  \<open>m\<close>, in any number of fragments, with pings and pongs between them.
\<close>

inductive message_frames :: "bool \<Rightarrow> client_frame list \<Rightarrow> u8 list \<Rightarrow> bool" where
  control: "control_frame f \<Longrightarrow> message_frames st fs m \<Longrightarrow> message_frames st (f # fs) m"
| final: "cf_opcode f = (if st then op_continuation else op_text) \<Longrightarrow> cf_fin f \<Longrightarrow>
     message_frames st [f] (cf_payload f)"
| fragment: "cf_opcode f = (if st then op_continuation else op_text) \<Longrightarrow> \<not> cf_fin f \<Longrightarrow>
     message_frames True fs m \<Longrightarrow> message_frames st (f # fs) (cf_payload f @ m)"

definition wire :: "client_frame list \<Rightarrow> u8 list" where
  "wire fs = concat (map client_wire fs)"

definition pongs :: "client_frame list \<Rightarrow> u8 list" where
  "pongs fs = concat (map (\<lambda>f. frame_bytes op_pong (cf_payload f)) (filter (\<lambda>f. cf_opcode f = op_ping) fs))"

lemma write_frame_ok:
  "tx_error t = (\<lambda>_. None) \<Longrightarrow>
     write_frame op p t = (Inr (), t\<lparr>tx := tx t @ frame_bytes op p, tx_ops := Suc (Suc (tx_ops t))\<rparr>)"
  by (simp add: write_frame_def act_bind_def ws_write_all_def ws_flush_def)

lemma receive_loop_message:
  assumes "message_frames st fs m" "list_all client_frame_ok fs" "rx t = wire fs @ rest"
    "length (msg @ m) \<le> max_message_bytes" "tx_error t = (\<lambda>_. None)" "st \<or> msg = []"
  shows "\<exists>k. receive_loop msg st t =
    (decode_message (msg @ m), t\<lparr>rx := rest, tx := tx t @ pongs fs, tx_ops := k\<rparr>)"
  using assms
proof (induction arbitrary: t msg rule: message_frames.induct)
  case (control f st fs m)
  have f: "client_frame_ok f" "rx t = client_wire f @ (wire fs @ rest)"
    using control.prems by (simp_all add: wire_def)
  have frame: "read_frame t = (Inr (True, cf_opcode f, cf_payload f), t\<lparr>rx := wire fs @ rest\<rparr>)"
    using read_client_frame [OF f] control.hyps(1) by (simp add: control_frame_def)
  show ?case
  proof (cases "cf_opcode f = op_ping")
    case True
    let ?t = "t\<lparr>rx := wire fs @ rest, tx := tx t @ frame_bytes op_pong (cf_payload f),
      tx_ops := Suc (Suc (tx_ops t))\<rparr>"
    have "receive_loop msg st t = receive_loop msg st ?t"
      using True frame control.prems(4)
      by (subst receive_loop.simps) (simp add: write_frame_ok)
    moreover obtain k where "receive_loop msg st ?t =
        (decode_message (msg @ m), ?t\<lparr>rx := rest, tx := tx ?t @ pongs fs, tx_ops := k\<rparr>)"
      using control.IH [of ?t msg] control.prems by auto
    ultimately show ?thesis using True by (auto simp: pongs_def)
  next
    case False
    then have "cf_opcode f = op_pong" using control.hyps(1) by (simp add: control_frame_def)
    then have "receive_loop msg st t = receive_loop msg st (t\<lparr>rx := wire fs @ rest\<rparr>)"
      using frame by (subst receive_loop.simps) (simp add: op_defs)
    with control.IH [of "t\<lparr>rx := wire fs @ rest\<rparr>" msg] control.prems False show ?thesis
      by (auto simp: pongs_def)
  qed
next
  case (final f st)
  have f: "client_frame_ok f" "rx t = client_wire f @ rest"
    using final.prems by (simp_all add: wire_def)
  have "receive_loop msg st t = (decode_message (msg @ cf_payload f), t\<lparr>rx := rest\<rparr>)"
    using read_client_frame [OF f] final
    by (subst receive_loop.simps) (auto simp: push_bounded_def op_defs)
  with final.hyps show ?case by (auto simp: pongs_def op_defs intro!: exI [of _ "tx_ops t"])
next
  case (fragment f st fs m)
  have f: "client_frame_ok f" "rx t = client_wire f @ (wire fs @ rest)"
    using fragment.prems by (simp_all add: wire_def)
  let ?t = "t\<lparr>rx := wire fs @ rest\<rparr>"
  have "receive_loop msg st t = receive_loop (msg @ cf_payload f) True ?t"
    using read_client_frame [OF f] fragment
    by (subst receive_loop.simps) (auto simp: push_bounded_def op_defs)
  moreover obtain k where "receive_loop (msg @ cf_payload f) True ?t =
      (decode_message ((msg @ cf_payload f) @ m), ?t\<lparr>rx := rest, tx := tx ?t @ pongs fs, tx_ops := k\<rparr>)"
    using fragment.IH [of ?t "msg @ cf_payload f"] fragment.prems by auto
  ultimately show ?case using fragment.hyps(1) by (auto simp: pongs_def op_defs split: if_splits)
qed

text \<open>What a message that is returned satisfies, whatever the peer sent.\<close>

definition text_ok :: "string \<Rightarrow> bool" where
  "text_ok s \<longleftrightarrow> length s \<le> max_message_bytes \<and> (\<exists>bs. utf8_valid bs \<and> s = bytes_str bs)"

lemma pushed_text_ok:
  "push_bounded msg p = Inr m \<Longrightarrow> decode_message m = Inr (Some s) \<Longrightarrow> text_ok s"
  by (auto simp: text_ok_def push_bounded_def decode_message_def rmap_eq_Inr ok_or_eq_Inr
      from_utf8_def bytes_str_def split: if_splits)

lemma receive_loop_sound: "receive_loop msg st t = (Inr (Some s), t') \<Longrightarrow> text_ok s"
proof (induction msg st t rule: receive_loop.induct)
  case (1 msg st t)
  obtain r u where f: "read_frame t = (r, u)" by fastforce
  show ?case
  proof (cases r)
    case (Inl e)
    with "1.prems" f show ?thesis by (subst (asm) receive_loop.simps) simp
  next
    case (Inr x)
    then obtain fin op p where r: "read_frame t = (Inr (fin, op, p), u)" using f by (cases x) auto
    note step = "1.prems" [unfolded receive_loop.simps [of msg st t] r, simplified]
    note IH = "1.IH" [OF r [symmetric] refl refl refl]
    consider "op = op_ping" | "op = op_pong" | "op = op_close" | "op = op_text" | "op = op_continuation"
      | "op \<notin> {op_ping, op_pong, op_close, op_text, op_continuation}" by auto
    then show ?thesis
    proof cases
      case 1
      with step IH(1) show ?thesis
        by (auto split: prod.splits sum.splits)
    next
      case 2
      with step IH(2) show ?thesis by (simp add: op_defs)
    next
      case 4
      with step IH(3) show ?thesis
        by (auto simp: op_defs split: sum.splits if_splits intro: pushed_text_ok)
    next
      case 5
      with step IH(4) show ?thesis
        by (auto simp: op_defs split: sum.splits if_splits intro: pushed_text_ok)
    qed (use step in \<open>simp_all add: op_defs\<close>)
  qed
qed

section \<open>Server frames\<close>

text \<open>A frame as RFC 6455 has a client read it from a server: final, no reserved bit, no mask.\<close>

definition decode_server_frame :: "u8 list \<Rightarrow> (u8 \<times> u8 list \<times> u8 list) option" where
  "decode_server_frame bs =
     (case bs of
        h0 # h1 # r \<Rightarrow>
          if and h0 0xF0 \<noteq> 0x80 \<or> and h1 0x80 \<noteq> 0 then None
          else
            let (n, r) =
              (if h1 = 126 then (unat (from_be_bytes (take 2 r) :: u16), drop 2 r)
               else if h1 = 127 then (unat (from_be_bytes (take 8 r) :: u64), drop 8 r)
               else (unat h1, r))
            in if n \<le> length r then Some (and h0 0x0F, take n r, drop n r) else None
      | _ \<Rightarrow> None)"

lemma server_first_byte:
  assumes "(op :: u8) < 16"
  shows "and (or 0x80 op) 0xF0 = 0x80" "and (or 0x80 op) 0x0F = op"
  using nibble_cases [OF assms] by (auto simp: upt_rec)

lemma decode_frame_bytes:
  assumes "op < 16" "length p < 2 ^ 64"
  shows "decode_server_frame (frame_bytes op p @ rest) = Some (op, p, rest)"
proof -
  let ?n = "length p"
  consider "?n < 126" | "126 \<le> ?n" "?n \<le> 0xFFFF" | "0xFFFF < ?n" by linarith
  then show ?thesis
  proof cases
    case 1
    then have "unat (of_nat ?n :: u8) = ?n"
      by (simp add: unsigned_of_nat take_bit_nat_eq_self)
    moreover from this 1 have "(of_nat ?n :: u8) \<noteq> 126" "(of_nat ?n :: u8) \<noteq> 127"
      by (auto simp: word_unat_eq_iff)
    moreover have "and (of_nat ?n) 0x80 = (0 :: u8)"
    proof (rule bit_word_eqI)
      fix i
      have "\<not> bit ?n 7" using 1 by (simp add: bit_iff_odd)
      then show "bit (and (of_nat ?n) 0x80 :: u8) i = bit (0 :: u8) i"
        by (auto simp: bit_simps bit_numeral_rec less_Suc_eq numeral_eq_Suc split: nat.splits)
    qed
    ultimately show ?thesis
      using 1 by (simp add: decode_server_frame_def frame_bytes_def server_first_byte [OF assms(1)])
  next
    case 2
    have "from_be_bytes (to_be_bytes 2 (of_nat ?n :: u16)) = (of_nat ?n :: u16)"
      by (rule from_to_be_bytes) simp
    moreover have "unat (of_nat ?n :: u16) = ?n"
      using 2 by (simp add: unsigned_of_nat take_bit_nat_eq_self)
    ultimately show ?thesis
      using 2 by (simp add: decode_server_frame_def frame_bytes_def server_first_byte [OF assms(1)]
          del: from_be_bytes.simps)
  next
    case 3
    have "from_be_bytes (to_be_bytes 8 (of_nat ?n :: u64)) = (of_nat ?n :: u64)"
      by (rule from_to_be_bytes) simp
    moreover have "unat (of_nat ?n :: u64) = ?n"
      using assms(2) by (simp add: unsigned_of_nat take_bit_nat_eq_self)
    ultimately show ?thesis
      using 3 by (simp add: decode_server_frame_def frame_bytes_def server_first_byte [OF assms(1)]
          del: from_be_bytes.simps)
  qed
qed

section \<open>The request head\<close>

lemma read_head_loop_sound:
  "read_head_loop h bs final = (Inr head, rest) \<Longrightarrow> length h \<le> max_handshake_bytes \<Longrightarrow>
     \<exists>taken. bs = taken @ rest \<and> head = h @ taken \<and> ends_with [13, 10, 13, 10] head \<and>
       length head \<le> Suc max_handshake_bytes"
proof (induction h bs final rule: read_head_loop.induct)
  case (2 h b bs final)
  show ?case
  proof (cases "ends_with [13, 10, 13, 10] (h @ [b]) \<or> length (h @ [b]) > max_handshake_bytes")
    case True
    with 2 show ?thesis by (auto simp: Let_def split: if_splits)
  next
    case False
    with 2 obtain taken where "bs = taken @ rest" "head = (h @ [b]) @ taken"
      "ends_with [13, 10, 13, 10] head" "length head \<le> Suc max_handshake_bytes"
      by (auto simp: Let_def)
    then show ?thesis by auto
  qed
qed simp

lemma read_head_loop_complete:
  "taken \<noteq> [] \<Longrightarrow> ends_with [13, 10, 13, 10] (h @ taken) \<Longrightarrow>
   (\<And>p q. taken = p @ q \<Longrightarrow> p \<noteq> [] \<Longrightarrow> q \<noteq> [] \<Longrightarrow> \<not> ends_with [13, 10, 13, 10] (h @ p)) \<Longrightarrow>
   length (h @ taken) \<le> Suc max_handshake_bytes \<Longrightarrow>
     read_head_loop h (taken @ rest) final = (Inr (h @ taken), rest)"
proof (induction taken arbitrary: h)
  case (Cons b taken)
  show ?case
  proof (cases "taken = []")
    case True
    with Cons.prems show ?thesis by (simp add: Let_def)
  next
    case False
    have "\<not> ends_with [13, 10, 13, 10] (h @ [b])"
      using Cons.prems(3) [of "[b]" taken] False by simp
    moreover have "length (h @ [b]) \<le> max_handshake_bytes"
      using Cons.prems(4) False by (cases taken) auto
    moreover have "read_head_loop (h @ [b]) (taken @ rest) final = (Inr ((h @ [b]) @ taken), rest)"
    proof (rule Cons.IH)
      show "taken \<noteq> []" by (rule False)
      show "ends_with [13, 10, 13, 10] ((h @ [b]) @ taken)" using Cons.prems(2) by simp
      show "length ((h @ [b]) @ taken) \<le> Suc max_handshake_bytes" using Cons.prems(4) by simp
      fix p q assume "taken = p @ q" "p \<noteq> []" "q \<noteq> []"
      then show "\<not> ends_with [13, 10, 13, 10] ((h @ [b]) @ p)"
        using Cons.prems(3) [of "b # p" q] by simp
    qed
    ultimately show ?thesis by (simp add: Let_def)
  qed
qed simp

section \<open>The handshake\<close>

lemma split_on_first:
  "split_on d s = w # ws \<Longrightarrow> d \<notin> set w \<and> (\<exists>s'. s = w @ s' \<and> (ws \<noteq> [] \<longrightarrow> (\<exists>t. s' = d # t \<and> split_on d t = ws)))"
proof (induction s arbitrary: w ws)
  case (Cons c s)
  show ?case
  proof (cases "c = d")
    case True
    with Cons.prems show ?thesis by auto
  next
    case False
    obtain v vs where v: "split_on d s = v # vs" by (cases "split_on d s") auto
    with Cons.prems False have "w = c # v" "ws = vs" by simp_all
    with Cons.IH [OF v] False show ?thesis by auto
  qed
qed simp

lemma split_crlf_not_Nil [simp]: "split_crlf s \<noteq> []"
  by (induction s rule: split_crlf.induct) (auto split: list.splits)

lemma split_crlf_first: "split_crlf s = w # ws \<Longrightarrow> \<exists>s'. s = w @ s'"
proof (induction s arbitrary: w ws rule: split_crlf.induct)
  case (1 a b cs)
  then show ?case by (auto split: if_splits list.splits)
qed auto

lemma split_crlf_line: "CHR 0x0D \<notin> set l \<Longrightarrow> split_crlf (l @ crlf @ s) = l # split_crlf s"
proof (induction l)
  case (Cons a l)
  then show ?case by (cases l) (auto simp: crlf_def)
qed (simp add: crlf_def)

text \<open>
  What a head says, independently of the reader: the value of a header field is the trimmed text
  after the colon of the last line of that name before the blank line.
\<close>

fun header_value :: "string \<Rightarrow> string list \<Rightarrow> string option" where
  "header_value name [] = None"
| "header_value name (l # ls) =
     (if l = [] then None
      else
        (case header_value name ls of
           Some v \<Rightarrow> Some v
         | None \<Rightarrow>
             (case split_once (CHR '':'') l of
                Some (n, v) \<Rightarrow> if eq_ignore_ascii_case (trim n) name then Some (trim v) else None
              | None \<Rightarrow> None)))"

definition head_field :: "string \<Rightarrow> string \<Rightarrow> string option" where
  "head_field head name = header_value name (tl (split_crlf head))"

text \<open>The fields RFC 6455 asks of an opening request, with the key and the origin it carries.\<close>

definition upgrade_request :: "string \<Rightarrow> handshake \<Rightarrow> string \<Rightarrow> bool" where
  "upgrade_request head hs key \<longleftrightarrow>
     (\<exists>v. head_field head ''upgrade'' = Some v \<and> eq_ignore_ascii_case v ''websocket'') \<and>
     (\<exists>v. head_field head ''connection'' = Some v \<and>
        list_ex (\<lambda>tok. eq_ignore_ascii_case (trim tok) ''upgrade'') (split_on (CHR '','') v)) \<and>
     head_field head ''sec-websocket-version'' = Some ''13'' \<and>
     head_field head ''sec-websocket-key'' = Some key \<and> key \<noteq> [] \<and>
     head_field head ''origin'' = hs_origin hs"

definition no_headers :: handshake_headers where
  "no_headers = \<lparr>hh_upgrade = False, hh_connection = False, hh_key = None, hh_version = False,
     hh_origin = None\<rparr>"

lemma field_names_apart:
  "eq_ignore_ascii_case n ''upgrade'' \<Longrightarrow> \<not> eq_ignore_ascii_case n ''connection''"
  "eq_ignore_ascii_case n ''upgrade'' \<Longrightarrow> \<not> eq_ignore_ascii_case n ''sec-websocket-key''"
  "eq_ignore_ascii_case n ''upgrade'' \<Longrightarrow> \<not> eq_ignore_ascii_case n ''sec-websocket-version''"
  "eq_ignore_ascii_case n ''upgrade'' \<Longrightarrow> \<not> eq_ignore_ascii_case n ''origin''"
  "eq_ignore_ascii_case n ''connection'' \<Longrightarrow> \<not> eq_ignore_ascii_case n ''sec-websocket-key''"
  "eq_ignore_ascii_case n ''connection'' \<Longrightarrow> \<not> eq_ignore_ascii_case n ''sec-websocket-version''"
  "eq_ignore_ascii_case n ''connection'' \<Longrightarrow> \<not> eq_ignore_ascii_case n ''origin''"
  "eq_ignore_ascii_case n ''sec-websocket-key'' \<Longrightarrow> \<not> eq_ignore_ascii_case n ''sec-websocket-version''"
  "eq_ignore_ascii_case n ''sec-websocket-key'' \<Longrightarrow> \<not> eq_ignore_ascii_case n ''origin''"
  "eq_ignore_ascii_case n ''sec-websocket-version'' \<Longrightarrow> \<not> eq_ignore_ascii_case n ''origin''"
proof -
  have len: "length a = length b" if "eq_ignore_ascii_case a b" for a b
    using that by (metis eq_ignore_ascii_case_def length_to_ascii_lowercase)
  show "eq_ignore_ascii_case n ''upgrade'' \<Longrightarrow> \<not> eq_ignore_ascii_case n ''connection''"
    "eq_ignore_ascii_case n ''upgrade'' \<Longrightarrow> \<not> eq_ignore_ascii_case n ''sec-websocket-key''"
    "eq_ignore_ascii_case n ''upgrade'' \<Longrightarrow> \<not> eq_ignore_ascii_case n ''sec-websocket-version''"
    "eq_ignore_ascii_case n ''upgrade'' \<Longrightarrow> \<not> eq_ignore_ascii_case n ''origin''"
    "eq_ignore_ascii_case n ''connection'' \<Longrightarrow> \<not> eq_ignore_ascii_case n ''sec-websocket-key''"
    "eq_ignore_ascii_case n ''connection'' \<Longrightarrow> \<not> eq_ignore_ascii_case n ''sec-websocket-version''"
    "eq_ignore_ascii_case n ''connection'' \<Longrightarrow> \<not> eq_ignore_ascii_case n ''origin''"
    "eq_ignore_ascii_case n ''sec-websocket-key'' \<Longrightarrow> \<not> eq_ignore_ascii_case n ''sec-websocket-version''"
    "eq_ignore_ascii_case n ''sec-websocket-key'' \<Longrightarrow> \<not> eq_ignore_ascii_case n ''origin''"
    "eq_ignore_ascii_case n ''sec-websocket-version'' \<Longrightarrow> \<not> eq_ignore_ascii_case n ''origin''"
    by (fastforce dest: len)+
qed

lemma handshake_lines_values:
  "handshake_lines ls h = Inr h' \<Longrightarrow>
     hh_upgrade h' = (case header_value ''upgrade'' ls of
       Some v \<Rightarrow> eq_ignore_ascii_case v ''websocket'' | None \<Rightarrow> hh_upgrade h) \<and>
     hh_connection h' = (case header_value ''connection'' ls of
       Some v \<Rightarrow> list_ex (\<lambda>tok. eq_ignore_ascii_case (trim tok) ''upgrade'') (split_on (CHR '','') v)
     | None \<Rightarrow> hh_connection h) \<and>
     hh_version h' = (case header_value ''sec-websocket-version'' ls of
       Some v \<Rightarrow> v = ''13'' | None \<Rightarrow> hh_version h) \<and>
     hh_key h' = (case header_value ''sec-websocket-key'' ls of Some v \<Rightarrow> Some v | None \<Rightarrow> hh_key h) \<and>
     hh_origin h' = (case header_value ''origin'' ls of Some v \<Rightarrow> Some v | None \<Rightarrow> hh_origin h)"
proof (induction ls arbitrary: h)
  case (Cons l ls)
  show ?case
  proof (cases "l = []")
    case False
    with Cons.prems obtain n v where nv: "split_once (CHR '':'') l = Some (n, v)"
      and rest: "handshake_lines ls (handshake_header (trim n) (trim v) h) = Inr h'"
      by (auto simp: result_simps)
    show ?thesis
      using Cons.IH [OF rest] False nv field_names_apart [of "trim n"]
      by (simp add: handshake_header_def split: option.splits)
  qed (use Cons.prems in simp)
qed simp

lemma parse_handshake_Inr:
  assumes "parse_handshake ak head = Inr (hs, response)"
  shows "\<exists>key. upgrade_request head hs key \<and> response = handshake_response (ak key) \<and>
    starts_with (''GET '' @ hs_path hs @ '' HTTP/1.'') head \<and> CHR '' '' \<notin> set (hs_path hs)"
proof -
  from assms obtain rl ls where crlf: "split_crlf head = rl # ls"
    by (cases "split_crlf head") (auto simp: parse_handshake_def)
  with assms obtain path v rest where sp: "split_on (CHR '' '') rl = ''GET'' # path # v # rest"
    and http: "starts_with ''HTTP/1.'' v"
    by (auto simp: parse_handshake_def split: list.splits if_splits)
  with assms crlf obtain h key where h: "handshake_lines ls no_headers = Inr h"
      "hh_upgrade h" "hh_connection h" "hh_version h" "hh_key h = Some key" "hs_origin hs = hh_origin h"
    and key: "key \<noteq> []" "response = handshake_response (ak key)" "hs_path hs = path"
    by (auto simp: parse_handshake_def rbind_eq_Inr no_headers_def split: if_splits option.splits)
  from handshake_lines_values [OF h(1)] h(2-6) key(1) have "upgrade_request head hs key"
    by (auto simp: upgrade_request_def head_field_def crlf no_headers_def split: option.splits)
  note key = this key(2,3)
  from split_on_first [OF sp] obtain t1 where t1: "rl = ''GET'' @ CHR '' '' # t1"
    "split_on (CHR '' '') t1 = path # v # rest" by auto
  from split_on_first [OF t1(2)] obtain t2 where t2: "t1 = path @ CHR '' '' # t2"
    "split_on (CHR '' '') t2 = v # rest" "CHR '' '' \<notin> set path" by auto
  from split_on_first [OF t2(2)] obtain t3 where t3: "t2 = v @ t3" by auto
  from http obtain v' where v: "v = ''HTTP/1.'' @ v'" by (auto simp: starts_with_iff)
  from split_crlf_first [OF crlf] obtain s' where "head = rl @ s'" by blast
  then have "head = (''GET '' @ path @ '' HTTP/1.'') @ (v' @ t3 @ s')"
    using t1 t2 t3 v by simp
  then have "starts_with (''GET '' @ path @ '' HTTP/1.'') head"
    unfolding starts_with_iff by blast
  with key t2(3) show ?thesis by auto
qed

text \<open>The request of RFC 6455 section 1.3.\<close>

definition client_head :: "string \<Rightarrow> string \<Rightarrow> string" where
  "client_head path key =
     (''GET '' @ path @ '' HTTP/1.1'') @ crlf @ ''Host: 127.0.0.1'' @ crlf @ ''Upgrade: websocket'' @ crlf @
     ''Connection: keep-alive, Upgrade'' @ crlf @ (''Sec-WebSocket-Key: '' @ key) @ crlf @
     ''Sec-WebSocket-Version: 13'' @ crlf @ crlf"

lemma parse_client_head:
  assumes "CHR '' '' \<notin> set path" "CHR 0x0D \<notin> set path" "CHR 0x0D \<notin> set key" "key \<noteq> []"
    "trim (CHR '' '' # key) = key"
  shows "parse_handshake ak (client_head path key) =
    Inr (\<lparr>hs_path = path, hs_origin = None\<rparr>, handshake_response (ak key))"
proof -
  have ls: "split_crlf (client_head path key) =
     [''GET '' @ path @ '' HTTP/1.1'', ''Host: 127.0.0.1'', ''Upgrade: websocket'',
      ''Connection: keep-alive, Upgrade'', ''Sec-WebSocket-Key: '' @ key, ''Sec-WebSocket-Version: 13'', [], []]"
    unfolding client_head_def
    by ((subst split_crlf_line, use assms in simp)+, simp add: crlf_def)
  have sp: "split_on (CHR '' '') (''GET '' @ path @ '' HTTP/1.1'') = [''GET'', path, ''HTTP/1.1'']"
    using assms(1) by (simp add: split_on_append split_on_no_sep)
  have once: "split_once (CHR '':'') (''Sec-WebSocket-Key: '' @ key) = Some (''Sec-WebSocket-Key'', CHR '' '' # key)"
    by simp
  have headers:
    "handshake_header (trim ''Host'') (trim '' 127.0.0.1'') h = h"
    "handshake_header (trim ''Upgrade'') (trim '' websocket'') h = h\<lparr>hh_upgrade := True\<rparr>"
    "handshake_header (trim ''Connection'') (trim '' keep-alive, Upgrade'') h = h\<lparr>hh_connection := True\<rparr>"
    "handshake_header (trim ''Sec-WebSocket-Version'') (trim '' 13'') h = h\<lparr>hh_version := True\<rparr>"
    "handshake_header (trim ''Sec-WebSocket-Key'') k h = h\<lparr>hh_key := Some k\<rparr>" for h k
    by (code_simp; simp)+
  have "handshake_lines [''Host: 127.0.0.1'', ''Upgrade: websocket'',
      ''Connection: keep-alive, Upgrade'', ''Sec-WebSocket-Key: '' @ key, ''Sec-WebSocket-Version: 13'', [], []]
      \<lparr>hh_upgrade = False, hh_connection = False, hh_key = None, hh_version = False, hh_origin = None\<rparr> =
    Inr \<lparr>hh_upgrade = True, hh_connection = True, hh_key = Some key, hh_version = True, hh_origin = None\<rparr>"
    using assms(5) by (simp add: headers)
  with assms(4) show ?thesis
    unfolding parse_handshake_def ls list.case sp by (simp add: starts_with_def)
qed

section \<open>Properties\<close>

text \<open>
  C14.  A text message that a client sends in any number of masked fragments, with pings and pongs
  in between, is received as the concatenation of its fragments; every ping is answered by a pong
  with its payload, in order, and exactly the bytes of the message are consumed.
\<close>

theorem fragmented_message_is_received:
  assumes "message_frames False fs m" "list_all client_frame_ok fs" "rx t = wire fs @ rest"
    "length m \<le> max_message_bytes" "tx_error t = (\<lambda>_. None)"
  shows "\<exists>k. ws_receive t = (decode_message m, t\<lparr>rx := rest, tx := tx t @ pongs fs, tx_ops := k\<rparr>)"
  using receive_loop_message [of False fs m t rest "[]"] assms by (simp add: ws_receive_def)

definition demo_frame :: "bool \<Rightarrow> u8 \<Rightarrow> string \<Rightarrow> client_frame" where
  "demo_frame fin op s = \<lparr>cf_fin = fin, cf_opcode = op, cf_key = [1, 2, 3, 4], cf_payload = as_bytes s\<rparr>"

definition demo_frames :: "client_frame list" where
  "demo_frames = [demo_frame False op_text ''he'', demo_frame True op_ping ''p'',
     demo_frame True op_continuation ''llo'']"

definition demo_transport :: "u8 list \<Rightarrow> transport" where
  "demo_transport bs = \<lparr>rx = bs, rx_end = None, tx = [], tx_ops = 0, tx_error = (\<lambda>_. None)\<rparr>"

lemma fragmented_message_is_received_witness:
  "fst (ws_receive (demo_transport (wire demo_frames @ [0x81]))) = Inr (Some ''hello'')"
proof -
  let ?t = "demo_transport (wire demo_frames @ [0x81])"
  have "message_frames True [demo_frame True op_continuation ''llo''] (as_bytes ''llo'')"
    using message_frames.final [of "demo_frame True op_continuation ''llo''" True] by (simp add: demo_frame_def)
  then have "message_frames True (tl demo_frames) (as_bytes ''llo'')"
    unfolding demo_frames_def list.sel
    by - (rule message_frames.control, simp_all add: control_frame_def demo_frame_def as_bytes_def)
  then have "message_frames False demo_frames (cf_payload (demo_frame False op_text ''he'') @ as_bytes ''llo'')"
    unfolding demo_frames_def list.sel
    by - (rule message_frames.fragment, simp_all add: demo_frame_def)
  then have "message_frames False demo_frames (as_bytes ''hello'')"
    by (simp add: demo_frame_def as_bytes_def)
  then have "\<exists>k. ws_receive ?t = (decode_message (as_bytes ''hello''),
      ?t\<lparr>rx := [0x81], tx := tx ?t @ pongs demo_frames, tx_ops := k\<rparr>)"
  proof (rule fragmented_message_is_received)
    show "list_all client_frame_ok demo_frames"
      by (simp add: client_frame_ok_def demo_frame_def demo_frames_def as_bytes_def op_defs max_message_bytes_def
          word_le_nat_alt)
    show "length (as_bytes ''hello'') \<le> max_message_bytes" by (simp add: as_bytes_def max_message_bytes_def)
  qed (simp_all add: demo_transport_def)
  moreover have "decode_message (as_bytes ''hello'') = Inr (Some ''hello'')" by code_simp
  ultimately show ?thesis by auto
qed

text \<open>
  C15.  Whatever bytes arrive, a received text is valid UTF-8 and at most 2 MiB long.
\<close>

theorem received_text_is_bounded:
  assumes "ws_receive t = (Inr (Some s), t')"
  shows "length s \<le> max_message_bytes \<and> (\<exists>bs. utf8_valid bs \<and> s = bytes_str bs)"
  using receive_loop_sound [OF assms [unfolded ws_receive_def]] by (simp add: text_ok_def)

lemma received_text_is_bounded_witness:
  "length ''hello'' \<le> max_message_bytes \<and> (\<exists>bs. utf8_valid bs \<and> ''hello'' = bytes_str bs)"
proof -
  let ?f = "demo_frame True op_text ''hello''"
  have "message_frames False [?f] (as_bytes ''hello'')"
    using message_frames.final [of ?f False] by (simp add: demo_frame_def)
  moreover have "list_all client_frame_ok [?f]"
    by (simp add: client_frame_ok_def demo_frame_def as_bytes_def op_defs max_message_bytes_def)
  moreover have "decode_message (as_bytes ''hello'') = Inr (Some ''hello'')" by code_simp
  moreover have "length (as_bytes ''hello'') \<le> max_message_bytes" by (simp add: as_bytes_def max_message_bytes_def)
  ultimately have "\<exists>t'. ws_receive (demo_transport (wire [?f] @ [])) = (Inr (Some ''hello''), t')"
    unfolding ws_receive_def
    using receive_loop_message [of False "[?f]" "as_bytes ''hello''" "demo_transport (wire [?f] @ [])" "[]" "[]"]
    by (fastforce simp: demo_transport_def)
  then show ?thesis using received_text_is_bounded by blast
qed

text \<open>
  C16.  Every frame the server writes is a final, unmasked frame in the wire format: a decoder for
  that format reads the opcode and the payload back and leaves what follows.
\<close>

theorem server_frame_is_readable:
  assumes "op < 16" "length p < 2 ^ 64"
  shows "decode_server_frame (frame_bytes op p @ rest) = Some (op, p, rest)"
  by (rule decode_frame_bytes [OF assms])

lemma server_frame_is_readable_witness:
  "decode_server_frame (frame_bytes op_pong (replicate 200 7) @ [1]) = Some (op_pong, replicate 200 7, [1])"
  by (rule server_frame_is_readable) (simp_all add: op_defs)

text \<open>
  C17.  A handshake is accepted only for a GET request of HTTP/1 whose header fields, where the last
  line of a name counts, ask for an upgrade to version 13 of the protocol: Upgrade is websocket,
  Connection has the token upgrade, and Sec-WebSocket-Key is a nonempty key.  The bytes
  taken end with a blank line and are at most one more than the 16 KiB limit, the response
  with the accept value of that key is all that is written, the origin passed on is the field of
  that name, and a rejected handshake writes nothing.
\<close>

theorem handshake_is_sound:
  assumes "ws_accept ak t = (r, t')"
  shows "(\<forall>hs. r = Inr hs \<longrightarrow>
      (\<exists>head key. rx t = head @ rx t' \<and> ends_with [13, 10, 13, 10] head \<and>
         length head \<le> Suc max_handshake_bytes \<and> utf8_valid head \<and>
         upgrade_request (bytes_str head) hs key \<and>
         tx t' = tx t @ as_bytes (handshake_response (ak key)) \<and>
         starts_with (''GET '' @ hs_path hs @ '' HTTP/1.'') (bytes_str head))) \<and>
    (r = Inl WsHandshake \<longrightarrow> tx t' = tx t)"
proof -
  obtain res rest where loop: "read_head_loop [] (rx t) (rx_end t) = (res, rest)" by fastforce
  then have head: "read_head t = (rbind res (\<lambda>head. ok_or WsHandshake (from_utf8 head)), t\<lparr>rx := rest\<rparr>)"
    by (simp add: read_head_def)
  have tx: "tx t' = tx t" if "r = Inl WsHandshake"
    using assms that by (auto simp: ws_accept_def act_bind_split head lift_result_def ws_write_all_def
        ws_flush_def ret_def split: option.splits)
  have "\<exists>head key. rx t = head @ rx t' \<and> ends_with [13, 10, 13, 10] head \<and>
         length head \<le> Suc max_handshake_bytes \<and> utf8_valid head \<and>
         upgrade_request (bytes_str head) hs key \<and>
         tx t' = tx t @ as_bytes (handshake_response (ak key)) \<and>
         starts_with (''GET '' @ hs_path hs @ '' HTTP/1.'') (bytes_str head)" if r: "r = Inr hs" for hs
  proof -
    from assms r obtain bs response where res: "res = Inr bs" and utf8: "utf8_valid bs"
      and parse: "parse_handshake ak (bytes_str bs) = Inr (hs, response)"
      and t': "tx t' = tx t @ as_bytes response" "rx t' = rest"
      by (auto simp: ws_accept_def act_simps head result_simps from_utf8_def ws_write_all_def ws_flush_def
          split: option.splits if_splits)
    from read_head_loop_sound [OF loop [unfolded res]] have
      "rx t = bs @ rest" "ends_with [13, 10, 13, 10] bs" "length bs \<le> Suc max_handshake_bytes"
      by auto
    with parse_handshake_Inr [OF parse] utf8 t' show ?thesis by blast
  qed
  with tx show ?thesis by blast
qed

lemma ends_with_as_bytes: "ends_with (as_bytes p) (as_bytes s) = ends_with p s"
proof
  assume "ends_with (as_bytes p) (as_bytes s)"
  then obtain t where t: "as_bytes s = t @ as_bytes p" by (auto simp: ends_with_iff)
  then have "s = bytes_str t @ p"
    by (metis bytes_str_as_bytes bytes_str_def map_append)
  then show "ends_with p s" by (auto simp: ends_with_iff)
qed (auto simp: ends_with_iff as_bytes_def)

definition demo_head :: string where
  "demo_head = client_head ''/capture'' ''dGhl''"

lemma demo_head_read: "read_head (demo_transport (as_bytes demo_head)) = (Inr demo_head, demo_transport [])"
proof -
  have crlfs: "[13, 10, 13, 10] = as_bytes (crlf @ crlf)" by (simp add: as_bytes_def crlf_def byte_def)
  have whole: "ends_with [13, 10, 13, 10] (as_bytes demo_head)"
    unfolding crlfs ends_with_as_bytes by code_simp
  have "list_all (\<lambda>n. \<not> ends_with (crlf @ crlf) (take n demo_head)) [0..<length demo_head]" by code_simp
  then have part: "\<not> ends_with [13, 10, 13, 10] (as_bytes (take n demo_head))" if "n < length demo_head" for n
    using that unfolding crlfs ends_with_as_bytes by (simp add: list_all_iff)
  have len: "length demo_head \<le> 200" "demo_head \<noteq> []" by code_simp+
  have "read_head_loop [] (as_bytes demo_head @ []) None = (Inr ([] @ as_bytes demo_head), [])"
  proof (rule read_head_loop_complete)
    show "length ([] @ as_bytes demo_head) \<le> Suc max_handshake_bytes"
      using len(1) by (simp add: max_handshake_bytes_def as_bytes_def)
    fix p q assume pq: "as_bytes demo_head = p @ q" "q \<noteq> []"
    have "p = as_bytes (take (length p) demo_head)"
      using pq(1) unfolding as_bytes_def by (metis append_eq_conv_conj take_map)
    moreover have "length p < length demo_head"
      using pq(2) arg_cong [OF pq(1), of length] by (cases q) (simp_all add: as_bytes_def)
    ultimately show "\<not> ends_with [13, 10, 13, 10] ([] @ p)" by (metis append_Nil part)
  qed (use whole len(2) in \<open>simp_all add: as_bytes_def\<close>)
  moreover have "from_utf8 (as_bytes demo_head) = Some demo_head"
    by (rule from_utf8_ascii) code_simp
  ultimately show ?thesis by (simp add: read_head_def demo_transport_def)
qed

lemma handshake_is_sound_witness:
  "\<exists>key. key \<noteq> [] \<and>
     tx (snd (ws_accept (\<lambda>k. k) (demo_transport (as_bytes demo_head)))) = as_bytes (handshake_response key)"
proof -
  define t where "t = demo_transport (as_bytes demo_head)"
  have "parse_handshake (\<lambda>k. k) demo_head =
      Inr (\<lparr>hs_path = ''/capture'', hs_origin = None\<rparr>, handshake_response ''dGhl'')"
    unfolding demo_head_def by (rule parse_client_head) (simp_all, code_simp)
  then obtain hs where "fst (ws_accept (\<lambda>k. k) t) = Inr hs"
    unfolding t_def ws_accept_def act_bind_def demo_head_read
    by (simp add: lift_result_def ws_write_all_def ws_flush_def demo_transport_def ret_def)
  then have "ws_accept (\<lambda>k. k) t = (Inr hs, snd (ws_accept (\<lambda>k. k) t))" by (metis prod.collapse)
  moreover have "tx t = []" unfolding t_def demo_transport_def by (simp only: transport.simps)
  ultimately show ?thesis
    unfolding t_def [symmetric] using handshake_is_sound by (metis append_Nil upgrade_request_def)
qed

text \<open>
  C18.  The opening request of RFC 6455 is accepted with the path it names and the response for
  its key.
\<close>

theorem client_request_is_accepted:
  assumes "CHR '' '' \<notin> set path" "CHR 0x0D \<notin> set path" "CHR 0x0D \<notin> set key" "key \<noteq> []"
    "trim (CHR '' '' # key) = key"
  shows "parse_handshake ak (client_head path key) =
    Inr (\<lparr>hs_path = path, hs_origin = None\<rparr>, handshake_response (ak key))"
  by (rule parse_client_head [OF assms])

lemma client_request_is_accepted_witness:
  "parse_handshake (\<lambda>k. k) (client_head ''/capture'' ''dGhl'') =
    Inr (\<lparr>hs_path = ''/capture'', hs_origin = None\<rparr>, handshake_response ''dGhl'')"
  by (rule client_request_is_accepted) (simp_all, code_simp)

end
