(* ===== verification/Pairing.thy ===== *)
theory Pairing
  imports Websocket
begin

text \<open>
  The pairing token of the capture channel, \<open>crates/gunda-capture/src/pairing.rs\<close>: its text form,
  the comparison with a presented token, and the file it is kept in.  The file system is the map of
  file contents with the operations that fail; the random bytes are an argument.
\<close>

section \<open>Tokens\<close>

datatype capture_error =
    CeBind io_kind | CeInvalidToken | CeTokenFile io_kind | CeRandom | CeTransport websocket_error
  | CeProtocol string

datatype pairing_token = PairingToken (token_str: string)

definition token_bytes :: nat where "token_bytes = 32"
definition token_length :: nat where "token_length = token_bytes * 2"

definition hex_digit :: "u8 \<Rightarrow> char" where
  "hex_digit d = ''0123456789abcdef'' ! unat d"

definition encode_hex :: "u8 list \<Rightarrow> string" where
  "encode_hex bytes = concat (map (\<lambda>b. [hex_digit (drop_bit 4 b), hex_digit (and b 0x0F)]) bytes)"

definition token_generate :: "u8 list option \<Rightarrow> capture_error + pairing_token" where
  "token_generate random = rmap (\<lambda>bytes. PairingToken (encode_hex bytes)) (ok_or CeRandom random)"

definition token_parse :: "string \<Rightarrow> capture_error + pairing_token" where
  "token_parse value =
     (let value = trim value in
      if length value \<noteq> token_length \<or> \<not> list_all is_ascii_hexdigit value then Inl CeInvalidToken
      else Inr (PairingToken (to_ascii_lowercase value)))"

definition constant_time_eq :: "u8 list \<Rightarrow> u8 list \<Rightarrow> bool" where
  "constant_time_eq left right =
     (if length left \<noteq> length right then False
      else fold (\<lambda>(l, r) difference. or difference (xor l r)) (zip left right) 0 = 0)"

definition token_matches :: "pairing_token \<Rightarrow> string \<Rightarrow> bool" where
  "token_matches t presented =
     (let presented = to_ascii_lowercase (trim presented) in
      constant_time_eq (as_bytes (token_str t)) (as_bytes presented))"

definition token_debug :: "pairing_token \<Rightarrow> string" where
  "token_debug t = ''PairingToken(<redacted>)''"

section \<open>The token file\<close>

record file_store =
  fs_files :: "string \<Rightarrow> u8 list option"
  fs_ops :: nat
  fs_fails :: "nat \<Rightarrow> io_kind option"

type_synonym 'a fs = "(file_store, io_kind, 'a) act"

definition fs_op :: "unit fs" where
  "fs_op s =
     (case fs_fails s (fs_ops s) of
        Some k \<Rightarrow> (Inl k, s\<lparr>fs_ops := Suc (fs_ops s)\<rparr>)
      | None \<Rightarrow> (Inr (), s\<lparr>fs_ops := Suc (fs_ops s)\<rparr>))"

definition fs_read_to_string :: "string \<Rightarrow> string fs" where
  "fs_read_to_string path =
     act_bind fs_op (\<lambda>_. act_bind get_state (\<lambda>s.
     lift_result (rbind (ok_or NotFoundIo (fs_files s path)) (\<lambda>bs. ok_or InvalidDataIo (from_utf8 bs)))))"

definition fs_set_file :: "string \<Rightarrow> u8 list \<Rightarrow> unit fs" where
  "fs_set_file path bs =
     act_bind fs_op (\<lambda>_. modify_state (\<lambda>s. s\<lparr>fs_files := (fs_files s)(path \<mapsto> bs)\<rparr>))"

text \<open>\<open>Path::parent\<close> is \<open>None\<close> for the empty path and the root only.\<close>

definition has_parent :: "string \<Rightarrow> bool" where
  "has_parent path = list_ex (\<lambda>c. c \<noteq> CHR ''/'') path"

definition create_parent :: "string \<Rightarrow> unit fs" where
  "create_parent path = (if has_parent path then fs_op else ret ())"

definition token_path :: "(string \<Rightarrow> string \<Rightarrow> string) \<Rightarrow> string \<Rightarrow> string" where
  "token_path join directory = join directory ''capture-token''"

definition endpoint_path :: "(string \<Rightarrow> string \<Rightarrow> string) \<Rightarrow> string \<Rightarrow> string" where
  "endpoint_path join directory = join directory ''capture.endpoint''"

definition load_endpoint :: "string \<Rightarrow> string option fs" where
  "load_endpoint path s =
     (case fs_read_to_string path s of
        (Inr endpoint, s) \<Rightarrow> (Inr (Some (trim endpoint)), s)
      | (Inl k, s) \<Rightarrow> (if k = NotFoundIo then (Inr None, s) else (Inl k, s)))"

text \<open>\<open>fs::write\<close> truncates the file before it writes.\<close>

definition save_endpoint :: "string \<Rightarrow> string \<Rightarrow> unit fs" where
  "save_endpoint path endpoint =
     act_bind (create_parent path) (\<lambda>_.
     act_bind (fs_set_file path []) (\<lambda>_.
     fs_set_file path (as_bytes (endpoint @ [CHR 0x0A]))))"

definition load_token :: "string \<Rightarrow> (file_store, capture_error, pairing_token option) act" where
  "load_token path s =
     (case fs_read_to_string path s of
        (Inr contents, s) \<Rightarrow> (rmap Some (token_parse contents), s)
      | (Inl k, s) \<Rightarrow> (if k = NotFoundIo then (Inr None, s) else (Inl (CeTokenFile k), s)))"

definition save_token :: "string \<Rightarrow> pairing_token \<Rightarrow> (file_store, capture_error, unit) act" where
  "save_token path t =
     act_bind (act_map_err CeTokenFile (create_parent path)) (\<lambda>_.
     act_bind (act_map_err CeTokenFile (fs_set_file path [])) (\<lambda>_.
     act_map_err CeTokenFile (fs_set_file path (as_bytes (token_str t @ [CHR 0x0A])))))"

definition load_or_create_token ::
  "u8 list option \<Rightarrow> string \<Rightarrow> (file_store, capture_error, pairing_token) act" where
  "load_or_create_token random path =
     act_bind (load_token path) (\<lambda>stored.
     case stored of
       Some t \<Rightarrow> ret t
     | None \<Rightarrow>
         act_bind (lift_result (token_generate random)) (\<lambda>t.
         act_bind (save_token path t) (\<lambda>_. ret t)))"

section \<open>Comparison\<close>

lemma fold_difference:
  "length l = length r \<Longrightarrow>
     fold (\<lambda>(l, r) difference. or difference (xor l r)) (zip l r) acc = 0 \<longleftrightarrow> acc = 0 \<and> l = (r :: u8 list)"
proof (induction l r arbitrary: acc rule: list_induct2)
  case (Cons x xs y ys)
  have "or acc (xor x y) = 0 \<longleftrightarrow> acc = 0 \<and> x = y"
    by (auto simp: or_eq_0_iff) (metis bit.xor_self xor.left_neutral xor.assoc xor.right_neutral xor_self_eq)
  with Cons show ?case by auto
qed simp

lemma constant_time_eq_iff [simp]: "constant_time_eq l r \<longleftrightarrow> l = r"
  by (auto simp: constant_time_eq_def fold_difference)

lemma token_matches_iff: "token_matches t p \<longleftrightarrow> to_ascii_lowercase (trim p) = token_str t"
  by (auto simp: token_matches_def Let_def)

section \<open>Generated and parsed tokens\<close>

definition token_wf :: "pairing_token \<Rightarrow> bool" where
  "token_wf t \<longleftrightarrow> length (token_str t) = token_length \<and>
     list_all (\<lambda>c. c \<in> set ''0123456789abcdef'') (token_str t)"

lemma hex_digit_in: "d < 16 \<Longrightarrow> hex_digit d \<in> set ''0123456789abcdef''"
  unfolding hex_digit_def by (rule nth_mem) (simp add: word_less_nat_alt)

lemma nibbles: "drop_bit 4 b < 16" "and b 0x0F < 16" for b :: u8
proof -
  have "unat (drop_bit 4 b) < 16"
    using unsigned_less [where ?'a = nat, of b] by (simp add: unsigned_drop_bit_eq drop_bit_eq_div unat_div less_mult_imp_div_less)
  then show "drop_bit 4 b < 16" by (simp add: word_less_nat_alt)
  show "and b 0x0F < 16"
    using word_and_le1 [of b "0x0F"] by (auto simp: word_le_nat_alt word_less_nat_alt)
qed

lemma encode_hex_wf: "length bytes = token_bytes \<Longrightarrow> token_wf (PairingToken (encode_hex bytes))"
proof -
  have "length (encode_hex bytes) = 2 * length bytes"
    by (induction bytes) (simp_all add: encode_hex_def)
  moreover have "list_all (\<lambda>c. c \<in> set ''0123456789abcdef'') (encode_hex bytes)"
  proof (induction bytes)
    case (Cons b bytes)
    have "encode_hex (b # bytes) = hex_digit (drop_bit 4 b) # hex_digit (and b 0x0F) # encode_hex bytes"
      by (simp add: encode_hex_def)
    with Cons hex_digit_in [OF nibbles(1) [of b]] hex_digit_in [OF nibbles(2) [of b]] show ?case
      by (simp only: list.pred_inject simp_thms)
  qed (simp add: encode_hex_def)
  ultimately show "length bytes = token_bytes \<Longrightarrow> token_wf (PairingToken (encode_hex bytes))"
    by (simp add: token_wf_def token_length_def)
qed

lemma hex_char:
  assumes "c \<in> set ''0123456789abcdef''"
  shows "plain_char c" "is_ascii_hexdigit c" "ascii_lower c = c" "byte c < 128"
  using assms by (auto simp: plain_char_def is_ascii_hexdigit_def is_ascii_digit_def ascii_lower_def byte_def)

lemma token_wf_text:
  assumes "token_wf t"
  shows "list_all plain_char (token_str t)" "list_all is_ascii_hexdigit (token_str t)"
    "to_ascii_lowercase (token_str t) = token_str t" "list_all (\<lambda>c. byte c < 128) (token_str t)"
proof -
  have "c \<in> set ''0123456789abcdef''" if "c \<in> set (token_str t)" for c
    using assms that by (auto simp: token_wf_def list_all_iff)
  from hex_char [OF this] show "list_all plain_char (token_str t)" "list_all is_ascii_hexdigit (token_str t)"
    "to_ascii_lowercase (token_str t) = token_str t" "list_all (\<lambda>c. byte c < 128) (token_str t)"
    by (auto simp: list_all_iff to_ascii_lowercase_def intro: map_idI)
qed

lemma token_parse_text:
  assumes "token_wf t" "trim v = token_str t"
  shows "token_parse v = Inr t"
proof -
  have "length (token_str t) = token_length" using assms(1) unfolding token_wf_def by blast
  with token_wf_text [OF assms(1)] assms(2) show ?thesis by (simp add: token_parse_def)
qed

lemma token_parse_self: "token_wf t \<Longrightarrow> token_parse (token_str t) = Inr t"
  by (simp add: token_parse_text token_wf_text trim_plain)

lemma token_parse_line: "token_wf t \<Longrightarrow> token_parse (token_str t @ [CHR 0x0A]) = Inr t"
  by (simp add: token_parse_text token_wf_text trim_newline)

lemma lower_hex: "is_ascii_hexdigit c \<Longrightarrow> ascii_lower c \<in> set ''0123456789abcdef''"
proof -
  assume h: "is_ascii_hexdigit c"
  then have "byte c \<in> {48..57} \<union> {65..70} \<union> {97..102}"
    by (auto simp: is_ascii_hexdigit_def is_ascii_digit_def)
  then have "byte c \<in> set [48..<58] \<union> set [65..<71] \<union> set [97..<103]"
    by (simp only: atLeastLessThan_upt [symmetric]) auto
  then have "c \<in> set (map char_of ([48..<58] @ [65..<71] @ [97..<103] :: nat list))"
    unfolding set_map set_append by (intro image_eqI [where x = "byte c"]) (simp_all add: byte_def Un_assoc)
  moreover have "map char_of ([48..<58] @ [65..<71] @ [97..<103] :: nat list) = ''0123456789ABCDEFabcdef''"
    by code_simp
  moreover have "list_all (\<lambda>c. ascii_lower c \<in> set ''0123456789abcdef'') ''0123456789ABCDEFabcdef''"
    by code_simp
  ultimately show ?thesis unfolding list_all_iff by metis
qed

lemma lower_hex_all:
  assumes "list_all is_ascii_hexdigit v"
  shows "list_all (\<lambda>c. c \<in> set ''0123456789abcdef'') (map ascii_lower v)"
  unfolding list_all_iff
proof
  fix c assume "c \<in> set (map ascii_lower v)"
  then obtain d where "d \<in> set v" "c = ascii_lower d" by auto
  with assms show "c \<in> set ''0123456789abcdef''" unfolding list_all_iff by (metis lower_hex)
qed

lemma token_parse_wf:
  assumes "token_parse v = Inr t"
  shows "token_wf t"
proof -
  from assms have "token_str t = map ascii_lower (trim v)"
    and "length (trim v) = token_length" "list_all is_ascii_hexdigit (trim v)"
    by (auto simp: token_parse_def Let_def to_ascii_lowercase_def split: if_splits)
  then show ?thesis unfolding token_wf_def by (metis lower_hex_all length_map)
qed

lemma load_saved_token:
  assumes "token_wf t" "save_token path t s = (Inr u, s')" "load_token path s' = (res, s'')"
    "fs_fails s' (fs_ops s') = None"
  shows "res = Inr (Some t)"
proof -
  from assms(2) have "fs_files s' path = Some (as_bytes (token_str t @ [CHR 0x0A]))"
    by (auto simp: save_token_def act_simps fs_set_file_def)
  moreover have "from_utf8 (as_bytes (token_str t @ [CHR 0x0A])) = Some (token_str t @ [CHR 0x0A])"
    using token_wf_text(4) [OF assms(1)] by (intro from_utf8_ascii) (simp add: byte_def)
  ultimately have "fs_read_to_string path s' = (Inr (token_str t @ [CHR 0x0A]), s'\<lparr>fs_ops := Suc (fs_ops s')\<rparr>)"
    using assms(4) by (simp add: fs_read_to_string_def act_bind_def fs_op_def get_state_def lift_result_def)
  with assms(3) token_parse_line [OF assms(1)] show ?thesis by (simp add: load_token_def)
qed

lemma read_to_string_state: "fs_read_to_string path s = (r, s') \<Longrightarrow> s' = s\<lparr>fs_ops := Suc (fs_ops s)\<rparr>"
  by (auto simp: fs_read_to_string_def act_bind_split fs_op_def get_state_def lift_result_def
      split: option.splits)

lemma load_token_state: "load_token path s = (r, s') \<Longrightarrow> s' = s\<lparr>fs_ops := Suc (fs_ops s)\<rparr>"
  by (auto simp: load_token_def dest!: read_to_string_state split: prod.splits sum.splits if_splits)

lemma loaded_wf: "load_token path s = (Inr (Some t), s') \<Longrightarrow> token_wf t"
  by (auto simp: load_token_def rmap_eq_Inr token_parse_wf split: prod.splits sum.splits if_splits)

lemma loaded_again:
  assumes "load_token path s = (Inr (Some t), s')" "fs_fails s' (fs_ops s') = None"
  shows "fst (load_token path s') = Inr (Some t)"
proof -
  from assms(1) obtain contents where
    "fs_read_to_string path s = (Inr contents, s')" and t: "token_parse contents = Inr t"
    by (auto simp: load_token_def rmap_eq_Inr split: prod.splits sum.splits if_splits)
  then have "fs_files s' path = fs_files s path"
      "\<exists>bs. fs_files s path = Some bs \<and> from_utf8 bs = Some contents"
    by (auto simp: fs_read_to_string_def act_bind_split fs_op_def get_state_def lift_result_def result_simps
        split: option.splits)
  with assms(2) t show ?thesis
    by (auto simp: load_token_def fs_read_to_string_def act_bind_def fs_op_def get_state_def lift_result_def)
qed

section \<open>Properties\<close>

text \<open>
  C12.  A presented token is accepted exactly when it is the paired token after trimming and
  ASCII lower-casing: the constant-time comparison is equality.
\<close>

theorem token_matches_exactly:
  "token_matches t presented \<longleftrightarrow> to_ascii_lowercase (trim presented) = token_str t"
  by (rule token_matches_iff)

text \<open>
  C13.  The token that \<open>load_or_create\<close> returns, loaded or freshly generated from 32 random bytes
  and saved, is the one every later \<open>load_or_create\<close> of the same file returns, whatever the later
  random bytes are; it is 64 lower-case hexadecimal digits.
\<close>

theorem token_is_stable:
  assumes "load_or_create_token (Some bytes) path s = (Inr t, s')" "length bytes = token_bytes"
    "fs_fails s' (fs_ops s') = None"
  shows "fst (load_or_create_token random path s') = Inr t \<and> token_wf t"
proof -
  from assms(1) obtain stored u where load: "load_token path s = (Inr stored, u)"
    by (auto simp: load_or_create_token_def act_bind_split)
  show ?thesis
  proof (cases stored)
    case (Some t')
    with assms(1) load have "t' = t" "s' = u" by (auto simp: load_or_create_token_def act_simps)
    moreover obtain r v where "load_token path u = (r, v)" by fastforce
    ultimately show ?thesis
      using load Some assms(3) loaded_again [of path s t u] loaded_wf [of path s t u]
      by (simp add: load_or_create_token_def act_bind_def ret_def)
  next
    case None
    with assms(1) load have t: "t = PairingToken (encode_hex bytes)" and save: "save_token path t u = (Inr (), s')"
      by (auto simp: load_or_create_token_def act_bind_split token_generate_def lift_result_def ret_def)
    have wf: "token_wf t" using assms(2) t by (simp add: encode_hex_wf)
    obtain res s'' where again: "load_token path s' = (res, s'')" by fastforce
    with load_saved_token [OF wf save again assms(3)] wf show ?thesis
      by (simp add: load_or_create_token_def act_bind_def ret_def)
  qed
qed

definition demo_files :: file_store where
  "demo_files = \<lparr>fs_files = (\<lambda>_. None), fs_ops = 0, fs_fails = (\<lambda>_. None)\<rparr>"

lemma token_is_stable_witness:
  "fst (load_or_create_token None ''/c/capture-token''
      (snd (load_or_create_token (Some (replicate 32 0xA5)) ''/c/capture-token'' demo_files))) =
    Inr (PairingToken (concat (replicate 32 ''a5'')))"
proof -
  let ?r = "load_or_create_token (Some (replicate 32 0xA5)) ''/c/capture-token'' demo_files"
  have r: "fst ?r = Inr (PairingToken (concat (replicate 32 ''a5'')))" by code_simp
  moreover have "fs_fails (snd ?r) (fs_ops (snd ?r)) = None" by code_simp
  ultimately show ?thesis
    using token_is_stable [of "replicate 32 0xA5" "''/c/capture-token''" demo_files _ "snd ?r" None]
    by (metis length_replicate prod.collapse token_bytes_def)
qed

end
