(* ===== verification/Xml.thy ===== *)
theory Xml
  imports Text
begin

text \<open>
  The bounded XML reader of the DASH manifests, \<open>crates/gunda-stream/src/xml.rs\<close>, with
  the errors of \<open>error.rs\<close>.  The cursor of \<open>parse_document\<close> is the rest of the input; the
  stack of open elements has its top at the head.  One iteration of the loop is \<open>parse_step\<close>.
\<close>

section \<open>Errors and nodes\<close>

datatype unsupported_feature =
    EncryptedSegments | DataUriSegments | SegmentIndex | SeparateTracks | MultiPeriod
  | IncompletePresentation

datatype manifest_error =
    NotAManifest | Malformed | AmbiguousPlaylist | InvalidByteRange | InvalidNumber
  | SelectionUnavailable | TooManySegments | Unsupported unsupported_feature

definition max_depth :: nat where "max_depth = 64"
definition max_nodes :: nat where "max_nodes = 100000"

datatype node =
  Node (node_name: string) (node_attributes: "(string \<times> string) list") (node_children: "node list")
    (node_body: string)

definition attribute :: "node \<Rightarrow> string \<Rightarrow> string option" where
  "attribute n key = map_option snd (find (\<lambda>e. fst e = key) (node_attributes n))"

definition attribute_u64 :: "node \<Rightarrow> string \<Rightarrow> manifest_error + u64 option" where
  "attribute_u64 n key =
     traverse_opt (\<lambda>value. ok_or InvalidNumber (parse_uint (trim value))) (attribute n key)"

text \<open>\<open>str::parse::<i64>()\<close>: a minus sign allows the magnitude \<open>2^63\<close>.\<close>

definition parse_i64 :: "string \<Rightarrow> u64 option" where
  "parse_i64 s =
     (case strip_prefix ''-'' s of
        Some d \<Rightarrow> if all_digits d \<and> decimal d \<le> 2 ^ 63 then Some (- of_nat (decimal d)) else None
      | None \<Rightarrow>
          (let d = strip_plus s in
           if all_digits d \<and> decimal d < 2 ^ 63 then Some (of_nat (decimal d)) else None))"

definition attribute_i64 :: "node \<Rightarrow> string \<Rightarrow> manifest_error + u64 option" where
  "attribute_i64 n key =
     traverse_opt (\<lambda>value. ok_or InvalidNumber (parse_i64 (trim value))) (attribute n key)"

definition attribute_u32 :: "node \<Rightarrow> string \<Rightarrow> manifest_error + u32 option" where
  "attribute_u32 n key =
     traverse_opt (\<lambda>value. ok_or InvalidNumber (parse_uint (trim value))) (attribute n key)"

definition children_named :: "node \<Rightarrow> string \<Rightarrow> node list" where
  "children_named n name = filter (\<lambda>c. node_name c = name) (node_children n)"

definition child :: "node \<Rightarrow> string \<Rightarrow> node option" where
  "child n name = find (\<lambda>c. node_name c = name) (node_children n)"

definition node_text :: "node \<Rightarrow> string" where
  "node_text n = trim (node_body n)"

section \<open>Entities\<close>

definition hex_val :: "char \<Rightarrow> nat" where
  "hex_val c = (if is_ascii_digit c then byte c - 48 else byte (ascii_lower c) - 87)"

definition hexadecimal :: "string \<Rightarrow> nat" where
  "hexadecimal s = foldl (\<lambda>n c. 16 * n + hex_val c) 0 s"

text \<open>\<open>u32::from_str_radix(s, 16)\<close>.\<close>

definition parse_hex_u32 :: "string \<Rightarrow> u32 option" where
  "parse_hex_u32 s =
     (let d = strip_plus s in
      if d \<noteq> [] \<and> list_all is_ascii_hexdigit d \<and> hexadecimal d < 2 ^ 32
      then Some (of_nat (hexadecimal d)) else None)"

text \<open>\<open>char::from_u32\<close>, and the UTF-8 bytes \<open>String::push\<close> appends for a character.\<close>

definition char_from_u32 :: "u32 \<Rightarrow> nat option" where
  "char_from_u32 code =
     (let n = unat code in
      if n \<ge> 0x110000 \<or> 0xD800 \<le> n \<and> n \<le> 0xDFFF then None else Some n)"

definition char_utf8 :: "nat \<Rightarrow> string" where
  "char_utf8 n = map char_of
     (if n < 0x80 then [n]
      else if n < 0x800 then [0xC0 + n div 64, 0x80 + n mod 64]
      else if n < 0x10000 then [0xE0 + n div 4096, 0x80 + n div 64 mod 64, 0x80 + n mod 64]
      else [0xF0 + n div 262144, 0x80 + n div 4096 mod 64, 0x80 + n div 64 mod 64, 0x80 + n mod 64])"

definition decode_character_reference :: "string \<Rightarrow> manifest_error + nat option" where
  "decode_character_reference entity =
     (case strip_prefix ''#'' entity of
        None \<Rightarrow> Inr None
      | Some digits \<Rightarrow>
          rmap char_from_u32
            (case digits of
               c # hex \<Rightarrow>
                 if c = CHR ''x'' \<or> c = CHR ''X'' then ok_or Malformed (parse_hex_u32 hex)
                 else ok_or Malformed (parse_uint digits)
             | [] \<Rightarrow> ok_or Malformed (parse_uint digits)))"

definition entity_replacement :: "string \<Rightarrow> manifest_error + nat option" where
  "entity_replacement entity =
     (if entity = ''amp'' then Inr (Some (byte (CHR ''&'')))
      else if entity = ''lt'' then Inr (Some (byte (CHR ''<'')))
      else if entity = ''gt'' then Inr (Some (byte (CHR ''>'')))
      else if entity = ''quot'' then Inr (Some 34)
      else if entity = ''apos'' then Inr (Some 39)
      else decode_character_reference entity)"

lemma str_find_less: "str_find [c] s = Some n \<Longrightarrow> n < length s"
  by (induction "[c]" s arbitrary: n rule: str_find.induct) (auto split: if_splits)

function decode_loop :: "string \<Rightarrow> string \<Rightarrow> manifest_error + string" where
  "decode_loop decoded rest =
     (case str_find ''&'' rest of
        None \<Rightarrow> Inr (decoded @ rest)
      | Some start \<Rightarrow>
          let decoded = decoded @ take start rest; after = drop (start + 1) rest in
          (case str_find '';'' after of
             None \<Rightarrow> decode_loop (decoded @ ''&'') after
           | Some stop \<Rightarrow>
               let entity = take stop after in
               rbind (entity_replacement entity) (\<lambda>replacement.
               decode_loop
                 (decoded @ (case replacement of
                               Some character \<Rightarrow> char_utf8 character
                             | None \<Rightarrow> ''&'' @ entity @ '';''))
                 (drop (stop + 1) after))))"
  by pat_completeness auto
termination
  by (relation "measure (\<lambda>(decoded, rest). length rest)") (auto dest!: str_find_less)

declare decode_loop.simps [simp del]

definition decode_entities :: "string \<Rightarrow> manifest_error + string" where
  "decode_entities value =
     (if CHR ''&'' \<notin> set value then Inr value else decode_loop [] value)"

section \<open>Tags\<close>

definition local_name :: "string \<Rightarrow> string" where
  "local_name name = (case after_last (CHR '':'') name of Some t \<Rightarrow> t | None \<Rightarrow> name)"

text \<open>The index of the \<open>>\<close> that ends a tag; the quote that is open is the first argument.\<close>

fun find_tag_end :: "char option \<Rightarrow> string \<Rightarrow> nat option" where
  "find_tag_end quote [] = None"
| "find_tag_end (Some open) (c # cs) =
     map_option Suc (if c = open then find_tag_end None cs else find_tag_end (Some open) cs)"
| "find_tag_end None (c # cs) =
     (if c = CHR 0x22 \<or> c = CHR 0x27 then map_option Suc (find_tag_end (Some c) cs)
      else if c = CHR ''>'' then Some 0
      else map_option Suc (find_tag_end None cs))"

definition attribute_value :: "string \<Rightarrow> manifest_error + string \<times> string" where
  "attribute_value tail =
     (case strip_prefix [CHR 0x22] tail of
        Some quoted \<Rightarrow> ok_or Malformed (split_once (CHR 0x22) quoted)
      | None \<Rightarrow>
          (case strip_prefix [CHR 0x27] tail of
             Some quoted \<Rightarrow> ok_or Malformed (split_once (CHR 0x27) quoted)
           | None \<Rightarrow> let stop = ws_index tail in Inr (take stop tail, drop stop tail)))"

lemma attribute_value_length: "attribute_value s = Inr (v, t) \<Longrightarrow> length t \<le> length s"
  by (auto simp: attribute_value_def Let_def result_simps strip_prefix_Some
      dest: split_once_length split: option.splits)

lemma attribute_shrinks:
  assumes "split_once d rest = Some (key, tail)" "attribute_value (trim_start tail) = Inr (v, rest')"
  shows "length (trim_start rest') < length rest"
  using split_once_length [OF assms(1)] attribute_value_length [OF assms(2)]
    length_trim_start [of rest'] length_trim_start [of tail] by linarith

function parse_attributes ::
  "(string \<times> string) list \<Rightarrow> string \<Rightarrow> manifest_error + (string \<times> string) list" where
  "parse_attributes attributes rest =
     (if rest = [] then Inr attributes
      else
        rbind (ok_or Malformed (split_once (CHR ''='') rest)) (\<lambda>(key, tail).
        let key = trim key in
        if key = [] \<or> contains_ws key then Inl Malformed
        else
          let key = local_name key in
          rbind (attribute_value (trim_start tail)) (\<lambda>(value, rest').
          if list_ex (\<lambda>e. fst e = key) attributes then Inl Malformed
          else
            rbind (decode_entities value) (\<lambda>decoded.
            parse_attributes (attributes @ [(key, decoded)]) (trim_start rest')))))"
  by pat_completeness auto
termination
  by (relation "measure (\<lambda>(attributes, rest). length rest)")
     (auto simp: result_simps dest: attribute_shrinks)

declare parse_attributes.simps [simp del]

definition parse_tag :: "string \<Rightarrow> manifest_error + string \<times> (string \<times> string) list" where
  "parse_tag inner =
     (let split = ws_index inner; name = trim (take split inner) in
      if name = [] then Inl Malformed
      else
        rmap (\<lambda>attributes. (local_name name, attributes))
          (parse_attributes [] (trim_start (drop split inner))))"

section \<open>Documents\<close>

record parser =
  p_stack :: "node list"
  p_root :: "node option"
  p_count :: nat
  p_rest :: string

definition push_text :: "node list \<Rightarrow> string \<Rightarrow> manifest_error + node list" where
  "push_text stack text =
     (if trim text = [] then Inr stack
      else
        (case stack of
           Node name attributes children body # open \<Rightarrow>
             rmap (\<lambda>decoded. Node name attributes children (body @ decoded) # open) (decode_entities text)
         | [] \<Rightarrow> Inl Malformed))"

definition attach :: "node \<Rightarrow> parser \<Rightarrow> manifest_error + parser" where
  "attach node p =
     (case p_stack p of
        Node name attributes children body # open \<Rightarrow>
          Inr (p\<lparr>p_stack := Node name attributes (children @ [node]) body # open\<rparr>)
      | [] \<Rightarrow> if p_root p \<noteq> None then Inl Malformed else Inr (p\<lparr>p_root := Some node\<rparr>))"

definition end_tag :: "string \<Rightarrow> parser \<Rightarrow> manifest_error + parser" where
  "end_tag after p =
     rbind (ok_or Malformed (str_find ''>'' after)) (\<lambda>stop.
     let name = local_name (trim (take stop after)) in
     if name = [] then Inl Malformed
     else
       (case p_stack p of
          [] \<Rightarrow> Inl Malformed
        | node # open \<Rightarrow>
            if node_name node \<noteq> name then Inl Malformed
            else attach node (p\<lparr>p_stack := open, p_rest := drop (2 + stop + 1) (p_rest p)\<rparr>)))"

definition start_tag :: "parser \<Rightarrow> manifest_error + parser" where
  "start_tag p =
     rbind (ok_or Malformed (find_tag_end None (p_rest p))) (\<lambda>stop.
     let inner = trim_end (drop 1 (take stop (p_rest p)));
         self_closing = ends_with ''/'' inner;
         inner = trim_end (case strip_suffix ''/'' inner of Some t \<Rightarrow> t | None \<Rightarrow> inner) in
     rbind (parse_tag inner) (\<lambda>(name, attributes).
     let p = p\<lparr>p_count := p_count p + 1\<rparr> in
     if p_count p > max_nodes then Inl Malformed
     else
       let node = Node name attributes [] [];
           p = p\<lparr>p_rest := drop (stop + 1) (p_rest p)\<rparr> in
       if self_closing then attach node p
       else if length (p_stack p) \<ge> max_depth then Inl Malformed
       else Inr (p\<lparr>p_stack := node # p_stack p\<rparr>)))"

text \<open>What follows a \<open><\<close>.\<close>

definition markup :: "parser \<Rightarrow> manifest_error + parser" where
  "markup p =
     (let rest = p_rest p in
      case strip_prefix ''</'' rest of
        Some after \<Rightarrow> end_tag after p
      | None \<Rightarrow>
      case strip_prefix ''<!--'' rest of
        Some after \<Rightarrow>
          rmap (\<lambda>stop. p\<lparr>p_rest := drop (4 + stop + 3) rest\<rparr>) (ok_or Malformed (str_find ''-->'' after))
      | None \<Rightarrow>
      case strip_prefix ''<![CDATA['' rest of
        Some after \<Rightarrow>
          rbind (ok_or Malformed (str_find '']]>'' after)) (\<lambda>stop.
          rmap (\<lambda>stack. p\<lparr>p_stack := stack, p_rest := drop (9 + stop + 3) rest\<rparr>)
            (push_text (p_stack p) (take stop after)))
      | None \<Rightarrow>
      case strip_prefix ''<?'' rest of
        Some after \<Rightarrow>
          rmap (\<lambda>stop. p\<lparr>p_rest := drop (2 + stop + 2) rest\<rparr>) (ok_or Malformed (str_find ''?>'' after))
      | None \<Rightarrow>
          if starts_with ''<!'' rest then
            rmap (\<lambda>stop. p\<lparr>p_rest := drop (stop + 1) rest\<rparr>) (ok_or Malformed (str_find ''>'' rest))
          else start_tag p)"

datatype 'a flow = Break 'a | Continue 'a

definition parse_step :: "parser \<Rightarrow> manifest_error + parser flow" where
  "parse_step p =
     (let rest = p_rest p in
      if rest = [] then Inr (Break p)
      else
        (case str_find ''<'' rest of
           Some index \<Rightarrow>
             rbind (push_text (p_stack p) (take index rest)) (\<lambda>stack.
             rmap Continue (markup (p\<lparr>p_stack := stack, p_rest := drop index rest\<rparr>)))
         | None \<Rightarrow> rmap (\<lambda>stack. Break (p\<lparr>p_stack := stack\<rparr>)) (push_text (p_stack p) rest)))"

lemma starts_find: "str_find [c] s = Some n \<Longrightarrow> \<exists>t. drop n s = c # t"
  using str_find_Some [of "[c]" s n] by (auto simp: starts_with_iff)

lemma length_drop_le: "length s \<le> n \<Longrightarrow> length (drop k s) \<le> n"
  by simp

lemma attach_rest: "attach n p = Inr p' \<Longrightarrow> p_rest p' = p_rest p"
  by (auto simp: attach_def split: list.splits node.splits if_splits)

lemma markup_rest:
  assumes "markup p = Inr p'" "p_rest p \<noteq> []"
  shows "length (p_rest p') < length (p_rest p)"
  using assms
  by (auto simp: markup_def end_tag_def start_tag_def Let_def result_simps dest!: attach_rest
      split: option.splits if_splits list.splits)

lemma parse_step_rest: "parse_step p = Inr (Continue p') \<Longrightarrow> length (p_rest p') < length (p_rest p)"
  by (auto simp: parse_step_def Let_def result_simps dest!: markup_rest str_find_less split: if_splits option.splits)

function parse_loop :: "parser \<Rightarrow> manifest_error + parser" where
  "parse_loop p =
     rbind (parse_step p) (\<lambda>flow.
     case flow of Break p' \<Rightarrow> Inr p' | Continue p' \<Rightarrow> parse_loop p')"
  by pat_completeness auto
termination
  by (relation "measure (\<lambda>p. length (p_rest p))") (auto simp: parse_step_rest)

declare parse_loop.simps [simp del]

definition parse_document :: "string \<Rightarrow> manifest_error + node" where
  "parse_document input =
     (let input = (case strip_prefix (char_utf8 0xFEFF) input of Some t \<Rightarrow> t | None \<Rightarrow> input) in
      rbind (parse_loop \<lparr>p_stack = [], p_root = None, p_count = 0, p_rest = input\<rparr>) (\<lambda>p.
      if p_stack p \<noteq> [] then Inl Malformed else ok_or Malformed (p_root p)))"

end
