(* ===== verification/Xml_Roundtrip.thy ===== *)
theory Xml_Roundtrip
  imports Xml_Correct
begin

text \<open>
  A printer for element trees and the proof that the reader of \<open>Xml\<close> inverts it: entity
  escaping, tags, text and nesting.
\<close>

section \<open>Printing\<close>

definition escape_char :: "char \<Rightarrow> string" where
  "escape_char c =
     (if c = CHR ''&'' then ''&amp;'' else if c = CHR ''<'' then ''&lt;''
      else if c = CHR ''>'' then ''&gt;'' else if c = CHR 0x22 then ''&quot;'' else [c])"

definition escape :: "string \<Rightarrow> string" where
  "escape s = concat (map escape_char s)"

definition render_attribute :: "string \<times> string \<Rightarrow> string" where
  "render_attribute a = CHR '' '' # fst a @ ''='' @ CHR 0x22 # escape (snd a) @ [CHR 0x22]"

definition render_attributes :: "(string \<times> string) list \<Rightarrow> string" where
  "render_attributes as = concat (map render_attribute as)"

fun render_node :: "node \<Rightarrow> string" where
  "render_node (Node name attributes children body) =
     (if children = [] \<and> body = [] then CHR ''<'' # name @ render_attributes attributes @ ''/>''
      else CHR ''<'' # name @ render_attributes attributes @ ''>'' @ escape body @
             concat (map render_node children) @ ''</'' @ name @ ''>'')"

definition name_char :: "char \<Rightarrow> bool" where
  "name_char c \<longleftrightarrow> is_ascii_alphanumeric c \<or> c = CHR ''-'' \<or> c = CHR ''_'' \<or> c = CHR ''.''"

definition name_ok :: "string \<Rightarrow> bool" where
  "name_ok s \<longleftrightarrow> s \<noteq> [] \<and> list_all name_char s"

text \<open>Names without a prefix, distinct attributes, and no text that is only white space.\<close>

fun printable :: "node \<Rightarrow> bool" where
  "printable (Node name attributes children body) \<longleftrightarrow>
     name_ok name \<and> list_all (\<lambda>a. name_ok (fst a)) attributes \<and> distinct (map fst attributes) \<and>
     (body = [] \<or> trim (escape body) \<noteq> []) \<and> list_all printable children"

section \<open>Characters\<close>

lemma name_char_plain: "name_char c \<Longrightarrow> plain_char c"
  by (auto simp: name_char_def plain_char_def is_ascii_alphanumeric_def is_ascii_digit_def
      is_ascii_alphabetic_def byte_def)

lemma name_char_other:
  assumes "name_char c"
  shows "c \<noteq> CHR ''<''" "c \<noteq> CHR ''>''" "c \<noteq> CHR ''/''" "c \<noteq> CHR ''!''" "c \<noteq> CHR ''?''"
    "c \<noteq> CHR '':''" "c \<noteq> CHR ''=''" "c \<noteq> CHR 0x22" "c \<noteq> CHR 0x27"
  using assms by (auto simp: name_char_def is_ascii_alphanumeric_def is_ascii_digit_def
      is_ascii_alphabetic_def byte_def)

lemma name_ok_plain: "name_ok s \<Longrightarrow> list_all plain_char s"
  by (auto simp: name_ok_def list_all_iff name_char_plain)

lemma name_ok_notin:
  assumes "name_ok s"
  shows "CHR ''<'' \<notin> set s" "CHR ''>'' \<notin> set s" "CHR '':'' \<notin> set s" "CHR ''='' \<notin> set s"
    "CHR 0x22 \<notin> set s" "CHR 0x27 \<notin> set s" "CHR ''/'' \<notin> set s"
proof -
  have "d \<notin> set s" if "\<not> name_char d" for d
    using assms that by (auto simp: name_ok_def list_all_iff)
  then show "CHR ''<'' \<notin> set s" "CHR ''>'' \<notin> set s" "CHR '':'' \<notin> set s" "CHR ''='' \<notin> set s"
    "CHR 0x22 \<notin> set s" "CHR 0x27 \<notin> set s" "CHR ''/'' \<notin> set s"
    by (simp_all add: name_char_def is_ascii_alphanumeric_def is_ascii_digit_def is_ascii_alphabetic_def byte_def)
qed

lemma escape_notin:
  "CHR ''<'' \<notin> set (escape s)" "CHR ''>'' \<notin> set (escape s)" "CHR 0x22 \<notin> set (escape s)"
  by (auto simp: escape_def escape_char_def split: if_splits)

lemma escape_Nil [simp]: "escape [] = []"
  by (simp add: escape_def)

lemma escape_Cons: "escape (c # s) = escape_char c @ escape s"
  by (simp add: escape_def)

lemma local_name_plain: "CHR '':'' \<notin> set s \<Longrightarrow> local_name s = s"
proof -
  have "after_last d s = None" if "d \<notin> set s" for d using that by (induction s) auto
  then show "CHR '':'' \<notin> set s \<Longrightarrow> local_name s = s" by (simp add: local_name_def)
qed

section \<open>Entities\<close>

lemma decode_loop_other: "c \<noteq> CHR ''&'' \<Longrightarrow> decode_loop d (c # s) = decode_loop (d @ [c]) s"
  by (subst (1 2) decode_loop.simps) (auto simp: starts_with_def split: option.splits)

lemma decode_loop_entity:
  assumes "CHR '';'' \<notin> set e" "entity_replacement e = Inr (Some n)" "char_utf8 n = [c]"
  shows "decode_loop d (CHR ''&'' # e @ CHR '';'' # s) = decode_loop (d @ [c]) s"
  using assms by (subst decode_loop.simps) (simp add: starts_with_def str_find_append)

lemma ascii_utf8:
  "char_utf8 38 = ''&''" "char_utf8 60 = ''<''" "char_utf8 62 = ''>''" "char_utf8 34 = [CHR 0x22]"
  by code_simp+

lemma decode_loop_escape_char: "decode_loop d (escape_char c @ s) = decode_loop (d @ [c]) s"
proof -
  note e = decode_loop_entity [where d = d and s = s]
  have "decode_loop d (''&amp;'' @ s) = decode_loop (d @ ''&'') s"
    using e [of "''amp''" 38 "CHR ''&''"] by (simp add: entity_replacement_def byte_def ascii_utf8)
  moreover have "decode_loop d (''&lt;'' @ s) = decode_loop (d @ ''<'') s"
    using e [of "''lt''" 60 "CHR ''<''"] by (simp add: entity_replacement_def byte_def ascii_utf8)
  moreover have "decode_loop d (''&gt;'' @ s) = decode_loop (d @ ''>'') s"
    using e [of "''gt''" 62 "CHR ''>''"] by (simp add: entity_replacement_def byte_def ascii_utf8)
  moreover have "decode_loop d (''&quot;'' @ s) = decode_loop (d @ [CHR 0x22]) s"
    using e [of "''quot''" 34 "CHR 0x22"] by (simp add: entity_replacement_def byte_def ascii_utf8)
  ultimately show ?thesis by (auto simp: escape_char_def decode_loop_other)
qed

lemma decode_loop_escape: "decode_loop d (escape s) = Inr (d @ s)"
  by (induction s arbitrary: d) (simp_all add: decode_loop.simps [of _ "[]"] escape_Cons decode_loop_escape_char)

lemma decode_escape: "decode_entities (escape s) = Inr s"
proof -
  have "escape s = s" if "CHR ''&'' \<notin> set (escape s)"
    using that by (induction s) (auto simp: escape_Cons escape_char_def split: if_splits)
  then show ?thesis by (simp add: decode_entities_def decode_loop_escape)
qed

section \<open>Tags\<close>

lemma render_attributes_simps [simp]:
  "render_attributes [] = []"
  "render_attributes (a # as) = render_attribute a @ render_attributes as"
  by (simp_all add: render_attributes_def)

lemma attributes_space: "render_attributes as = [] \<or> (\<exists>s. render_attributes as = CHR '' '' # s)"
  by (cases as) (auto simp: render_attribute_def)

lemma space_front: "ws_len (CHR '' '' # s) = 1"
  by (rule ascii_ws_ends) (simp add: ascii_ws_def byte_def)

lemma trim_start_attribute:
  "name_ok (fst a) \<Longrightarrow> trim_start (render_attributes (a # as)) =
     fst a @ ''='' @ CHR 0x22 # escape (snd a) @ CHR 0x22 # render_attributes as"
  by (cases "fst a") (auto simp: name_ok_def trim_start_def render_attribute_def drop_ws.simps [of _ "CHR '' '' # _"]
      space_front drop_ws_fix plain_front name_char_plain)

lemma parse_attributes_print:
  "\<lbrakk>list_all (\<lambda>a. name_ok (fst a)) as; distinct (map fst (ds @ as))\<rbrakk> \<Longrightarrow>
     parse_attributes ds (trim_start (render_attributes as)) = Inr (ds @ as)"
proof (induction as arbitrary: ds)
  case Nil
  then show ?case by (simp add: parse_attributes.simps)
next
  case (Cons a as)
  then have ok: "name_ok (fst a)" and fresh: "\<not> list_ex (\<lambda>e. fst e = fst a) ds"
    by (auto simp: list_ex_iff rev_image_eqI)
  let ?tail = "CHR 0x22 # escape (snd a) @ CHR 0x22 # render_attributes as"
  have "plain_char (CHR 0x22)" by (simp add: plain_char_def byte_def)
  then have "attribute_value (trim_start ?tail) = Inr (escape (snd a), render_attributes as)"
    by (simp add: trim_start_plain attribute_value_def escape_notin)
  moreover have "fst a @ CHR ''='' # ?tail \<noteq> []" "split_once (CHR ''='') (fst a @ CHR ''='' # ?tail) = Some (fst a, ?tail)"
    using name_ok_notin [OF ok] by simp_all
  ultimately show ?case
    using Cons.IH [of "ds @ [a]"] Cons.prems fresh ok name_ok_plain [OF ok] name_ok_notin [OF ok]
    unfolding trim_start_attribute [OF ok]
    by (subst parse_attributes.simps)
       (simp add: trim_plain contains_ws_plain local_name_plain decode_escape name_ok_def)
qed

lemma parse_tag_print:
  assumes "name_ok name" "list_all (\<lambda>a. name_ok (fst a)) as" "distinct (map fst as)"
  shows "parse_tag (name @ render_attributes as) = Inr (name, as)"
proof -
  have "ws_index (render_attributes as) = 0"
    using attributes_space [of as] by (auto simp: space_front)
  with assms show ?thesis
    using parse_attributes_print [of as "[]"] name_ok_notin [OF assms(1)] name_ok_plain [OF assms(1)]
    by (simp add: parse_tag_def ws_index_plain trim_plain local_name_plain name_ok_def)
qed

lemma find_tag_end_outside:
  "\<lbrakk>CHR 0x22 \<notin> set s; CHR 0x27 \<notin> set s; CHR ''>'' \<notin> set s\<rbrakk> \<Longrightarrow>
     find_tag_end None (s @ t) = map_option ((+) (length s)) (find_tag_end None t)"
  by (cases "find_tag_end None t"; induction s) auto

lemma find_tag_end_inside:
  "q \<notin> set s \<Longrightarrow>
     find_tag_end (Some q) (s @ q # t) = map_option ((+) (Suc (length s))) (find_tag_end None t)"
  by (cases "find_tag_end None t"; induction s) auto

lemma find_tag_end_attributes:
  "list_all (\<lambda>a. name_ok (fst a)) as \<Longrightarrow>
     find_tag_end None (render_attributes as @ t) =
       map_option ((+) (length (render_attributes as))) (find_tag_end None t)"
proof (induction as)
  case (Cons a as)
  then have ok: "name_ok (fst a)" by simp
  have "find_tag_end None ((CHR '' '' # fst a @ ''='') @ CHR 0x22 # escape (snd a) @ CHR 0x22 # u) =
     map_option ((+) (length (render_attribute a))) (find_tag_end None u)" for u
    using name_ok_notin [OF ok]
    by (subst find_tag_end_outside; cases "find_tag_end None u")
       (auto simp: find_tag_end_inside escape_notin render_attribute_def)
  from this [of "render_attributes as @ t"] Cons show ?case
    by (cases "find_tag_end None t") (auto simp: render_attribute_def)
qed (cases "find_tag_end None t"; simp)

section \<open>Elements\<close>

definition tag_text :: "string \<Rightarrow> (string \<times> string) list \<Rightarrow> string" where
  "tag_text name as = name @ render_attributes as"

definition tag_ok :: "string \<Rightarrow> (string \<times> string) list \<Rightarrow> bool" where
  "tag_ok name as \<longleftrightarrow>
     name_ok name \<and> list_all (\<lambda>a. name_ok (fst a)) as \<and> distinct (map fst as)"

lemma tag_text_last: "tag_ok name as \<Longrightarrow> \<exists>s c. tag_text name as = s @ [c] \<and> plain_char c \<and> c \<noteq> CHR ''/''"
proof (cases as rule: rev_cases)
  case Nil
  assume "tag_ok name as"
  with Nil show ?thesis
    by (cases name rule: rev_cases)
       (auto simp: tag_ok_def tag_text_def name_ok_def name_char_plain name_char_other)
next
  case (snoc bs b)
  have "plain_char (CHR 0x22)" by (simp add: plain_char_def byte_def)
  moreover have "tag_text name as =
      (name @ render_attributes bs @ CHR '' '' # fst b @ CHR ''='' # CHR 0x22 # escape (snd b)) @ [CHR 0x22]"
    by (simp add: snoc tag_text_def render_attributes_def render_attribute_def)
  ultimately show ?thesis by (intro exI conjI) auto
qed

lemma tag_end:
  assumes "tag_ok name as" "CHR ''>'' \<notin> set t" "CHR 0x22 \<notin> set t" "CHR 0x27 \<notin> set t"
  shows "find_tag_end None (CHR ''<'' # tag_text name as @ t @ CHR ''>'' # r) =
    Some (Suc (length (tag_text name as @ t)))"
proof -
  have "find_tag_end None ((CHR ''<'' # name) @ render_attributes as @ t @ CHR ''>'' # r) =
    Some (Suc (length (tag_text name as @ t)))"
    using assms name_ok_notin [of name]
    by (simp add: find_tag_end_outside find_tag_end_attributes tag_ok_def tag_text_def)
  then show ?thesis by (simp add: tag_text_def)
qed

lemma start_tag_open:
  assumes "tag_ok name as" "p_rest p = CHR ''<'' # tag_text name as @ ''>'' @ r"
    "p_count p < max_nodes" "length (p_stack p) < max_depth"
  shows "start_tag p =
    Inr (p\<lparr>p_count := p_count p + 1, p_rest := r, p_stack := Node name as [] [] # p_stack p\<rparr>)"
proof -
  obtain s c where last: "tag_text name as = s @ [c]" "plain_char c" "c \<noteq> CHR ''/''"
    using tag_text_last [OF assms(1)] by blast
  have fin: "find_tag_end None (p_rest p) = Some (Suc (length (tag_text name as)))"
    using tag_end [OF assms(1), of "[]" r] assms(2) by simp
  have inner: "trim_end (drop 1 (take (Suc (length (tag_text name as))) (p_rest p))) = tag_text name as"
    using trim_end_plain [OF last(2), of s] by (simp add: assms(2) last(1))
  have "strip_suffix ''/'' (tag_text name as) = None" "\<not> ends_with ''/'' (tag_text name as)"
    using last(1,3) by (auto simp: ends_with_def strip_suffix_def)
  moreover have "trim_end (tag_text name as) = tag_text name as"
    using trim_end_plain [OF last(2), of s] by (simp add: last(1))
  moreover have "parse_tag (tag_text name as) = Inr (name, as)"
    using assms(1) by (simp add: tag_ok_def tag_text_def parse_tag_print)
  ultimately show ?thesis
    using assms(3,4) unfolding start_tag_def fin ok_or_simps rbind_simps Let_def inner
    by (simp add: assms(2))
qed

lemma start_tag_closed:
  assumes "tag_ok name as" "p_rest p = CHR ''<'' # tag_text name as @ ''/>'' @ r" "p_count p < max_nodes"
  shows "start_tag p = attach (Node name as [] []) (p\<lparr>p_count := p_count p + 1, p_rest := r\<rparr>)"
proof -
  obtain s c where last: "tag_text name as = s @ [c]" "plain_char c"
    using tag_text_last [OF assms(1)] by blast
  have fin: "find_tag_end None (p_rest p) = Some (Suc (Suc (length (tag_text name as))))"
    using tag_end [OF assms(1), of "''/''" r] assms(2) by simp
  have "plain_char (CHR ''/'')" by (simp add: plain_char_def byte_def)
  then have inner: "trim_end (drop 1 (take (Suc (Suc (length (tag_text name as)))) (p_rest p))) = tag_text name as @ ''/''"
    by (simp add: assms(2) trim_end_plain)
  have "strip_suffix ''/'' (tag_text name as @ ''/'') = Some (tag_text name as)"
    "ends_with ''/'' (tag_text name as @ ''/'')"
    by (simp_all add: strip_suffix_Some ends_with_iff)
  moreover have "trim_end (tag_text name as) = tag_text name as"
    using trim_end_plain [OF last(2), of s] by (simp add: last(1))
  moreover have "parse_tag (tag_text name as) = Inr (name, as)"
    using assms(1) by (simp add: tag_ok_def tag_text_def parse_tag_print)
  ultimately show ?thesis
    using assms(3) unfolding start_tag_def fin ok_or_simps rbind_simps Let_def inner
    by (simp add: assms(2))
qed

lemma end_tag_print:
  assumes "name_ok name" "p_stack p = Node name as cs b # st" "p_rest p = ''</'' @ name @ ''>'' @ r"
  shows "end_tag (name @ ''>'' @ r) p = attach (Node name as cs b) (p\<lparr>p_stack := st, p_rest := r\<rparr>)"
  using assms name_ok_notin [OF assms(1)] name_ok_plain [OF assms(1)]
  by (simp add: end_tag_def str_find_append trim_plain local_name_plain name_ok_def)

lemma markup_start:
  assumes "tag_ok name as" "p_rest p = CHR ''<'' # tag_text name as @ r"
  shows "markup p = start_tag p"
proof -
  obtain c s where "tag_text name as = c # s" "name_char c"
    using assms(1) by (cases name) (auto simp: tag_ok_def tag_text_def name_ok_def)
  with name_char_other [of c] show ?thesis
    by (simp add: markup_def Let_def assms(2) starts_with_def)
qed

lemma markup_end:
  "p_rest p = ''</'' @ r \<Longrightarrow> markup p = end_tag r p"
  by (simp add: markup_def)

section \<open>The loop\<close>

lemma parse_step_markup:
  "p_rest p = CHR ''<'' # r \<Longrightarrow> parse_step p = rmap Continue (markup p)"
  by (cases p) (simp add: parse_step_def push_text_def starts_with_def)

lemma parse_step_text:
  assumes "p_stack p = Node name as cs [] # st" "p_rest p = escape b @ CHR ''<'' # r"
    "b = [] \<or> trim (escape b) \<noteq> []"
  shows "parse_step p =
    rmap Continue (markup (p\<lparr>p_stack := Node name as cs b # st, p_rest := CHR ''<'' # r\<rparr>))"
proof (cases "b = []")
  case True
  with assms have same: "p\<lparr>p_stack := Node name as cs b # st, p_rest := CHR ''<'' # r\<rparr> = p"
    by (cases p) simp
  show ?thesis unfolding same by (rule parse_step_markup) (simp add: assms(2) True)
next
  case False
  with assms show ?thesis
    by (simp add: parse_step_def str_find_append escape_notin push_text_def decode_escape)
qed

lemma parse_loop_text:
  assumes "p_stack p = Node name as cs [] # st" "p_rest p = escape b @ CHR ''<'' # r"
    "b = [] \<or> trim (escape b) \<noteq> []"
  shows "parse_loop p = parse_loop (p\<lparr>p_stack := Node name as cs b # st, p_rest := CHR ''<'' # r\<rparr>)"
  by (subst (1 2) parse_loop.simps) (simp add: parse_step_text [OF assms] parse_step_markup)

lemma parse_loop_markup:
  "p_rest p = CHR ''<'' # r \<Longrightarrow> markup p = Inr p' \<Longrightarrow> parse_loop p = parse_loop p'"
  by (subst parse_loop.simps) (simp add: parse_step_markup)

text \<open>Attaching where it succeeds.\<close>

definition can_attach :: "parser \<Rightarrow> bool" where
  "can_attach p \<longleftrightarrow> p_stack p \<noteq> [] \<or> p_root p = None"

definition attached :: "node \<Rightarrow> parser \<Rightarrow> parser" where
  "attached n p =
     (case p_stack p of
        Node name as cs b # st \<Rightarrow> p\<lparr>p_stack := Node name as (cs @ [n]) b # st\<rparr>
      | [] \<Rightarrow> p\<lparr>p_root := Some n\<rparr>)"

lemma attach_can: "can_attach p \<Longrightarrow> attach n p = Inr (attached n p)"
  by (auto simp: can_attach_def attach_def attached_def split: list.splits node.splits)

lemma attached_update [simp]:
  "attached n (p\<lparr>p_rest := r\<rparr>) = (attached n p)\<lparr>p_rest := r\<rparr>"
  "attached n (p\<lparr>p_count := c\<rparr>) = (attached n p)\<lparr>p_count := c\<rparr>"
  by (auto simp: attached_def split: list.splits node.splits)

lemma can_attach_update [simp]:
  "can_attach (p\<lparr>p_rest := r\<rparr>) = can_attach p" "can_attach (p\<lparr>p_count := c\<rparr>) = can_attach p"
  by (simp_all add: can_attach_def)

definition room :: "nat \<Rightarrow> node list \<Rightarrow> parser \<Rightarrow> bool" where
  "room k ns p \<longleftrightarrow>
     length (p_stack p) + k \<le> max_depth \<and> p_count p + sum_list (map node_total ns) \<le> max_nodes"

lemma parse_children:
  assumes each: "\<And>c p r. c \<in> set cs \<Longrightarrow> can_attach p \<Longrightarrow> room k [c] p \<Longrightarrow> p_rest p = render_node c @ r \<Longrightarrow>
      parse_loop p = parse_loop ((attached c p)\<lparr>p_count := p_count p + node_total c, p_rest := r\<rparr>)"
  shows "p_stack p = Node name as ds b # st \<Longrightarrow> room k cs p \<Longrightarrow>
    p_rest p = concat (map render_node cs) @ r \<Longrightarrow>
    parse_loop p = parse_loop (p\<lparr>p_stack := Node name as (ds @ cs) b # st,
      p_count := p_count p + sum_list (map node_total cs), p_rest := r\<rparr>)"
  using each
proof (induction cs arbitrary: p ds)
  case Nil
  then have "p\<lparr>p_stack := Node name as (ds @ []) b # st,
      p_count := p_count p + sum_list (map node_total []), p_rest := r\<rparr> = p" by simp
  then show ?case by simp
next
  case (Cons c cs)
  let ?q = "p\<lparr>p_stack := Node name as (ds @ [c]) b # st, p_count := p_count p + node_total c,
    p_rest := concat (map render_node cs) @ r\<rparr>"
  have "parse_loop p = parse_loop ?q"
    using Cons.prems(1-3) by (subst Cons.prems(4) [of c]) (auto simp: can_attach_def room_def attached_def)
  also have "\<dots> = parse_loop (?q\<lparr>p_stack := Node name as ((ds @ [c]) @ cs) b # st,
      p_count := p_count ?q + sum_list (map node_total cs), p_rest := r\<rparr>)"
    using Cons.prems by (intro Cons.IH) (auto simp: room_def)
  finally show ?case by (simp add: add.assoc)
qed

lemma render_open:
  "cs \<noteq> [] \<or> b \<noteq> [] \<Longrightarrow> render_node (Node name as cs b) @ r =
     CHR ''<'' # tag_text name as @ ''>'' @ escape b @ concat (map render_node cs) @ ''</'' @ name @ ''>'' @ r"
  by (auto simp: tag_text_def)

lemma render_starts: "\<exists>s. concat (map render_node cs) @ ''</'' @ t = CHR ''<'' # s"
  by (cases cs; cases "hd cs") auto

lemma parse_node:
  assumes "printable n" "nests k n" "can_attach p" "room k [n] p" "p_rest p = render_node n @ r"
  shows "parse_loop p = parse_loop ((attached n p)\<lparr>p_count := p_count p + node_total n, p_rest := r\<rparr>)"
  using assms
proof (induction n arbitrary: k p r)
  case (Node name as cs b)
  then have tag: "tag_ok name as" by (simp add: tag_ok_def)
  show ?case
  proof (cases "cs = [] \<and> b = []")
    case True
    with Node.prems have rest: "p_rest p = CHR ''<'' # tag_text name as @ ''/>'' @ r"
      by (simp add: tag_text_def)
    have "markup p = Inr (attached (Node name as [] []) (p\<lparr>p_count := p_count p + 1, p_rest := r\<rparr>))"
      using Node.prems True
      by (simp add: markup_start [OF tag rest] start_tag_closed [OF tag rest] attach_can room_def)
    with True show ?thesis
      by (subst parse_loop_markup) (auto simp: rest)
  next
    case False
    let ?t = "''</'' @ name @ ''>'' @ r" and ?c = "concat (map render_node cs)"
    have rest: "p_rest p = CHR ''<'' # tag_text name as @ ''>'' @ escape b @ ?c @ ?t"
      using Node.prems(5) False by (simp only: render_open de_Morgan_conj not_False_eq_True)
    define p1 where "p1 = p\<lparr>p_count := p_count p + 1, p_rest := escape b @ ?c @ ?t,
      p_stack := Node name as [] [] # p_stack p\<rparr>"
    define p2 where "p2 = p1\<lparr>p_stack := Node name as [] b # p_stack p, p_rest := ?c @ ?t\<rparr>"
    define p3 where "p3 = p2\<lparr>p_stack := Node name as cs b # p_stack p,
      p_count := p_count p2 + sum_list (map node_total cs), p_rest := ?t\<rparr>"
    obtain s where s: "?c @ ?t = CHR ''<'' # s" using render_starts by blast
    have "0 < k" using Node.prems(2) False by auto
    then have "markup p = Inr p1"
      using Node.prems(4)
      by (simp add: markup_start [OF tag rest] start_tag_open [OF tag rest] room_def p1_def)
    then have "parse_loop p = parse_loop p1" by (intro parse_loop_markup) (auto simp: rest)
    also have "\<dots> = parse_loop p2"
    proof -
      have "p_rest p1 = escape b @ CHR ''<'' # s" unfolding p1_def s by simp
      moreover have "p2 = p1\<lparr>p_stack := Node name as [] b # p_stack p, p_rest := CHR ''<'' # s\<rparr>"
        by (simp only: p2_def s)
      ultimately show ?thesis
        using Node.prems(1) by (simp only:) (rule parse_loop_text, auto simp: p1_def)
    qed
    also have "\<dots> = parse_loop (p2\<lparr>p_stack := Node name as ([] @ cs) b # p_stack p,
        p_count := p_count p2 + sum_list (map node_total cs), p_rest := ?t\<rparr>)"
    proof (rule parse_children [where k = "k - 1"])
      show "p_rest p2 = ?c @ ?t" "p_stack p2 = Node name as [] b # p_stack p" by (simp_all add: p2_def)
      show "room (k - 1) cs p2" using Node.prems(4) \<open>0 < k\<close> by (simp add: room_def p2_def p1_def)
      fix c q u
      assume "c \<in> set cs" "can_attach q" "room (k - 1) [c] q" "p_rest q = render_node c @ u"
      with Node.IH [of c "k - 1" q u] Node.prems(1,2) False
      show "parse_loop q = parse_loop ((attached c q)\<lparr>p_count := p_count q + node_total c, p_rest := u\<rparr>)"
        by (auto simp: list_all_iff)
    qed
    also have "\<dots> = parse_loop p3" by (simp add: p3_def)
    also have "\<dots> = parse_loop ((attached (Node name as cs b) p)\<lparr>p_count := p_count p3, p_rest := r\<rparr>)"
    proof (rule parse_loop_markup)
      show rest3: "p_rest p3 = CHR ''<'' # CHR ''/'' # name @ ''>'' @ r" by (simp add: p3_def)
      have "name_ok name" using tag by (simp add: tag_ok_def)
      moreover have "p_stack p3 = Node name as cs b # p_stack p" by (simp add: p3_def)
      ultimately have "markup p3 = attach (Node name as cs b) (p3\<lparr>p_stack := p_stack p, p_rest := r\<rparr>)"
        using end_tag_print [of name p3 as cs b "p_stack p" r] markup_end [of p3 "name @ ''>'' @ r"]
        by (simp add: rest3)
      also have "p3\<lparr>p_stack := p_stack p, p_rest := r\<rparr> = p\<lparr>p_count := p_count p3, p_rest := r\<rparr>"
        by (simp add: p3_def p2_def p1_def)
      finally show "markup p3 = Inr ((attached (Node name as cs b) p)\<lparr>p_count := p_count p3, p_rest := r\<rparr>)"
        using Node.prems(3) by (simp add: attach_can)
    qed
    finally show ?thesis by (simp add: p3_def p2_def p1_def)
  qed
qed

lemma document_print:
  assumes "printable n" "nests max_depth n" "node_total n \<le> max_nodes"
  shows "parse_document (render_node n) = Inr n"
proof -
  let ?p = "\<lparr>p_stack = [], p_root = None, p_count = 0, p_rest = render_node n\<rparr>"
  have bom: "strip_prefix (char_utf8 0xFEFF) (render_node n) = None"
  proof -
    have "char_utf8 0xFEFF = char_of (239 :: nat) # map char_of [187, 191 :: nat]" by (simp add: char_utf8_def)
    moreover have "char_of (239 :: nat) \<noteq> CHR ''<''" by (auto dest: arg_cong [of _ _ byte] simp: byte_def)
    ultimately show ?thesis by (cases n) simp
  qed
  have "parse_loop ?p = parse_loop ((attached n ?p)\<lparr>p_count := p_count ?p + node_total n, p_rest := []\<rparr>)"
    using assms by (intro parse_node [where k = max_depth]) (auto simp: can_attach_def room_def)
  also have "\<dots> = Inr ((attached n ?p)\<lparr>p_count := p_count ?p + node_total n, p_rest := []\<rparr>)"
    by (subst parse_loop.simps) (simp add: parse_step_def)
  finally show ?thesis by (simp add: parse_document_def bom attached_def)
qed

section \<open>Properties\<close>

definition demo_node :: node where
  "demo_node = Node ''MPD'' [(''type'', ''a<b&c'')] [Node ''Period'' [] [] [], Node ''BaseURL'' [] [] ''v?a=1&b=2''] []"

lemma demo_node_ok: "printable demo_node" "nests max_depth demo_node" "node_total demo_node \<le> max_nodes"
proof -
  have "trim (escape ''v?a=1&b=2'') \<noteq> []" by code_simp
  moreover have "name_ok ''MPD''" "name_ok ''Period''" "name_ok ''BaseURL''" "name_ok ''type''" by code_simp+
  ultimately show "printable demo_node" by (simp add: demo_node_def)
qed (simp_all add: demo_node_def max_depth_def max_nodes_def)

text \<open>
  C19.  Whatever the input, a document that is read has at most 64 nested elements with content,
  at most 100,000 elements, and no element with two attributes of one local name.
\<close>

theorem document_is_bounded:
  assumes "parse_document input = Inr n"
  shows "nests 64 n \<and> node_total n \<le> 100000 \<and> unambiguous n"
  using document_ok [OF assms] by (simp add: max_depth_def max_nodes_def)

lemma document_is_bounded_witness:
  "nests 64 demo_node \<and> node_total demo_node \<le> 100000 \<and> unambiguous demo_node"
  by (rule document_is_bounded, rule document_print [OF demo_node_ok])

text \<open>
  C20.  Every element tree within the bounds, with plain names, distinct attributes and no blank
  text, is read back exactly from its printed form: attributes, nesting, order, escaped text.
\<close>

theorem document_roundtrip:
  assumes "printable n" "nests 64 n" "node_total n \<le> 100000"
  shows "parse_document (render_node n) = Inr n"
  using document_print [of n] assms by (simp add: max_depth_def max_nodes_def)

lemma document_roundtrip_witness:
  "parse_document (render_node demo_node) = Inr demo_node \<and>
   render_node demo_node = ''<MPD type='' @ [CHR 0x22] @ ''a&lt;b&amp;c'' @ [CHR 0x22] @
     ''><Period/><BaseURL>v?a=1&amp;b=2</BaseURL></MPD>''"
proof
  show "parse_document (render_node demo_node) = Inr demo_node"
    using demo_node_ok by (intro document_roundtrip) (simp_all add: max_depth_def max_nodes_def)
qed code_simp

text \<open>
  Entity decoding undoes entity escaping for every string.
\<close>

theorem entities_roundtrip: "decode_entities (escape s) = Inr s"
  by (rule decode_escape)

end
