(* ===== verification/Http_Range.thy ===== *)
theory Http_Range
  imports Text
begin

text \<open>
  What a resumed HTTP transfer relies on: the \<open>Content-Range\<close> of a partial response
  (\<open>crates/gunda-http/src/range.rs\<close>), the strong entity tag that identifies a representation
  (\<open>validator.rs\<close>) and the durable checkpoint (\<open>resume_state.rs\<close>), with the errors of \<open>error.rs\<close>.
\<close>

section \<open>Errors\<close>

datatype http_error =
    HeConfiguration | HeInvalidRequest | HeTimeout | HeTransport | HeRedirect
  | HeUnexpectedStatus u16 | HeInvalidMetadata | HeUnsupportedEncoding | HeBodyLengthMismatch
  | HeByteCountOverflow

fun http_error_display :: "http_error \<Rightarrow> string" where
  "http_error_display HeConfiguration = ''could not configure the HTTP client''"
| "http_error_display HeInvalidRequest = ''HTTP request context is invalid or unsupported''"
| "http_error_display HeTimeout = ''HTTP request timed out''"
| "http_error_display HeTransport = ''HTTP transport failed''"
| "http_error_display HeRedirect = ''HTTP redirect could not be followed safely''"
| "http_error_display (HeUnexpectedStatus status) =
     ''unexpected HTTP response status: '' @ show_word status"
| "http_error_display HeInvalidMetadata = ''HTTP response metadata is invalid''"
| "http_error_display HeUnsupportedEncoding = ''HTTP content encoding is not supported''"
| "http_error_display HeBodyLengthMismatch = ''HTTP body length does not match response metadata''"
| "http_error_display HeByteCountOverflow = ''HTTP body byte count exceeds the supported range''"

section \<open>Content ranges\<close>

record content_range =
  range_start :: u64
  range_end :: u64
  range_total :: u64

definition parse_decimal :: "string \<Rightarrow> http_error + u64" where
  "parse_decimal value =
     (if value = [] \<or> \<not> list_all is_ascii_digit value then Inl HeInvalidMetadata
      else ok_or HeInvalidMetadata (parse_uint value))"

definition content_range_parse :: "string \<Rightarrow> http_error + content_range" where
  "content_range_parse value =
     rbind (ok_or HeInvalidMetadata (split_once (CHR '' '') value)) (\<lambda>(unit, value).
     if \<not> eq_ignore_ascii_case unit ''bytes'' then Inl HeInvalidMetadata
     else
       rbind (ok_or HeInvalidMetadata (split_once (CHR ''/'') value)) (\<lambda>(interval, tot).
       rbind (ok_or HeInvalidMetadata (split_once (CHR ''-'') interval)) (\<lambda>(first, last).
       rbind (parse_decimal first) (\<lambda>first.
       rbind (parse_decimal last) (\<lambda>last.
       rbind (parse_decimal tot) (\<lambda>tot.
       if first > last \<or> last \<ge> tot then Inl HeInvalidMetadata
       else Inr \<lparr>range_start = first, range_end = last, range_total = tot\<rparr>))))))"

definition body_length :: "content_range \<Rightarrow> u64" where
  "body_length r = range_end r - range_start r + 1"

section \<open>Entity tags and checkpoints\<close>

datatype entity_tag = StrongEntityTag (tag_bytes: "u8 list")

datatype invalid_entity_tag = InvalidStrongEntityTag

definition tag_byte :: "u8 \<Rightarrow> bool" where
  "tag_byte b \<longleftrightarrow> b = 0x21 \<or> 0x23 \<le> b \<and> b \<le> 0x7e \<or> 0x80 \<le> b"

definition entity_tag_parse :: "u8 list \<Rightarrow> invalid_entity_tag + entity_tag" where
  "entity_tag_parse value =
     rbind (ok_or InvalidStrongEntityTag
         (Option.bind (strip_prefix [0x22] value) (strip_suffix [0x22]))) (\<lambda>opaque.
     if \<not> list_all tag_byte opaque then Inl InvalidStrongEntityTag
     else Inr (StrongEntityTag value))"

record http_resume_state =
  hrs_tag :: entity_tag
  hrs_total :: u64
  hrs_durable :: u64

datatype invalid_resume_state = InvalidHttpResumeState

definition http_resume_state_new ::
  "entity_tag \<Rightarrow> u64 \<Rightarrow> u64 \<Rightarrow> invalid_resume_state + http_resume_state" where
  "http_resume_state_new tag tot durable =
     (if durable > tot then Inl InvalidHttpResumeState
      else Inr \<lparr>hrs_tag = tag, hrs_total = tot, hrs_durable = durable\<rparr>)"

section \<open>Ranges\<close>

definition range_ok :: "content_range \<Rightarrow> bool" where
  "range_ok r \<longleftrightarrow> range_start r \<le> range_end r \<and> range_end r < range_total r"

definition range_text :: "content_range \<Rightarrow> string" where
  "range_text r = ''bytes '' @ show_word (range_start r) @ ''-'' @ show_word (range_end r) @ ''/'' @
     show_word (range_total r)"

lemma content_range_ok: "content_range_parse v = Inr r \<Longrightarrow> range_ok r"
  by (auto simp: content_range_parse_def range_ok_def result_simps split: if_splits)

lemma body_length_exact:
  assumes "range_ok r"
  shows "unat (body_length r) = unat (range_end r) - unat (range_start r) + 1"
    "unat (range_start r) + unat (body_length r) \<le> unat (range_total r)"
proof -
  from assms have le: "unat (range_start r) \<le> unat (range_end r)" "unat (range_end r) < unat (range_total r)"
    by (auto simp: range_ok_def word_le_nat_alt word_less_nat_alt)
  have "unat (range_end r - range_start r) = unat (range_end r) - unat (range_start r)"
    using assms by (simp add: range_ok_def unat_sub word_le_nat_alt)
  moreover have "unat (range_end r) - unat (range_start r) + 1 < 2 ^ 64"
    using le unat_less [of "range_total r"] by simp
  ultimately show len: "unat (body_length r) = unat (range_end r) - unat (range_start r) + 1"
    by (simp add: body_length_def unat_word_ariths)
  show "unat (range_start r) + unat (body_length r) \<le> unat (range_total r)"
    using le unfolding len by linarith
qed

lemma show_word_digits: "list_all is_ascii_digit (show_word w)" "show_word w \<noteq> []"
  using show_nat_digits [of "unat w"] by (simp_all add: show_word_def all_digits_def)

lemma show_word_other: "\<not> is_ascii_digit c \<Longrightarrow> c \<notin> set (show_word w)"
  using show_word_digits(1) [of w] by (auto simp: list_all_iff)

lemma parse_decimal_show: "parse_decimal (show_word w) = Inr w"
  using show_word_digits [of w] by (simp add: parse_decimal_def)

lemma content_range_text:
  "content_range_parse (range_text r) = (if range_ok r then Inr r else Inl HeInvalidMetadata)"
proof -
  have sep: "\<not> is_ascii_digit (CHR ''/'')" "\<not> is_ascii_digit (CHR ''-'')"
    by (simp_all add: is_ascii_digit_def byte_def)
  have unit: "split_once (CHR '' '') (range_text r) = Some (''bytes'', drop 6 (range_text r))"
    by (simp add: range_text_def)
  have "split_once (CHR ''/'') (drop 6 (range_text r)) =
      Some (show_word (range_start r) @ CHR ''-'' # show_word (range_end r), show_word (range_total r))"
    by (simp add: range_text_def split_once_Some show_word_other [OF sep(1)])
  moreover have "split_once (CHR ''-'') (show_word (range_start r) @ CHR ''-'' # show_word (range_end r)) =
      Some (show_word (range_start r), show_word (range_end r))"
    by (simp add: split_once_Some show_word_other [OF sep(2)])
  ultimately show ?thesis
    by (auto simp: content_range_parse_def unit parse_decimal_show range_ok_def not_less not_le)
qed

lemma parse_decimal_iff:
  "parse_decimal d = Inr w \<longleftrightarrow> d \<noteq> [] \<and> list_all is_ascii_digit d \<and> decimal d = unat w"
proof (cases "all_digits d")
  case True
  then have "strip_plus d = d"
    by (cases d) (auto simp: strip_plus_def all_digits_def is_ascii_digit_def byte_def)
  with True have "parse_uint d = Some w \<longleftrightarrow> decimal d < 2 ^ LENGTH(64) \<and> of_nat (decimal d) = w"
    by (simp add: parse_uint_def Let_def)
  also have "\<dots> \<longleftrightarrow> decimal d = unat w"
  proof
    assume "decimal d < 2 ^ LENGTH(64) \<and> of_nat (decimal d) = w"
    then have "of_nat (decimal d) = w" "decimal d < 2 ^ LENGTH(64)" by blast+
    then show "decimal d = unat w" by (rule of_nat_inverse [symmetric])
  next
    assume "decimal d = unat w"
    then show "decimal d < 2 ^ LENGTH(64) \<and> of_nat (decimal d) = w"
      using unsigned_less [of w, where ?'a = nat] by (simp only: of_nat_unat ucast_id simp_thms)
  qed
  finally show ?thesis using True by (auto simp: parse_decimal_def all_digits_def result_simps)
qed (auto simp: parse_decimal_def all_digits_def)

lemma parse_decimal_error: "parse_decimal d = Inl e \<Longrightarrow> e = HeInvalidMetadata"
  by (auto simp: parse_decimal_def ok_or_def split: if_splits option.splits)

lemma content_range_error:
  "case content_range_parse v of Inl e \<Rightarrow> e = HeInvalidMetadata | Inr _ \<Rightarrow> True"
  by (auto simp: content_range_parse_def rbind_def ok_or_def dest: parse_decimal_error
      split: sum.splits option.splits prod.splits if_splits)

lemma content_range_iff:
  "content_range_parse v = Inr r \<longleftrightarrow>
     (\<exists>unit a b c. v = unit @ '' '' @ a @ ''-'' @ b @ ''/'' @ c \<and>
        to_ascii_lowercase unit = ''bytes'' \<and>
        (a \<noteq> [] \<and> list_all is_ascii_digit a \<and> decimal a = unat (range_start r)) \<and>
        (b \<noteq> [] \<and> list_all is_ascii_digit b \<and> decimal b = unat (range_end r)) \<and>
        (c \<noteq> [] \<and> list_all is_ascii_digit c \<and> decimal c = unat (range_total r)) \<and>
        range_start r \<le> range_end r \<and> range_end r < range_total r)"
  (is "_ \<longleftrightarrow> ?text")
proof
  assume "content_range_parse v = Inr r"
  then obtain unit rest a b c first last tot where
    "split_once (CHR '' '') v = Some (unit, rest)" "eq_ignore_ascii_case unit ''bytes''"
    "split_once (CHR ''/'') rest = Some (a @ CHR ''-'' # b, c)"
    "parse_decimal a = Inr first" "parse_decimal b = Inr last" "parse_decimal c = Inr tot"
    "first \<le> last" "last < tot" "r = \<lparr>range_start = first, range_end = last, range_total = tot\<rparr>"
    by (auto simp: content_range_parse_def result_simps split_once_Some not_less not_le split: if_splits)
  moreover have "to_ascii_lowercase ''bytes'' = ''bytes''" by code_simp
  ultimately show ?text
    by (intro exI [of _ unit] exI [of _ a] exI [of _ b] exI [of _ c])
       (simp add: split_once_Some parse_decimal_iff eq_ignore_ascii_case_def)
next
  assume ?text
  then obtain unit a b c where v: "v = unit @ '' '' @ a @ ''-'' @ b @ ''/'' @ c"
    and unit: "to_ascii_lowercase unit = ''bytes''"
    and parts: "parse_decimal a = Inr (range_start r)" "parse_decimal b = Inr (range_end r)"
      "parse_decimal c = Inr (range_total r)"
    and ok: "range_start r \<le> range_end r" "range_end r < range_total r"
    by (auto simp: parse_decimal_iff)
  have "CHR '' '' \<notin> set unit"
  proof
    assume "CHR '' '' \<in> set unit"
    then have "ascii_lower (CHR '' '') \<in> set (to_ascii_lowercase unit)"
      by (auto simp: to_ascii_lowercase_def)
    then show False unfolding unit by (simp add: ascii_lower_def byte_def)
  qed
  then have "split_once (CHR '' '') v = Some (unit, a @ ''-'' @ b @ ''/'' @ c)" by (simp add: v)
  moreover have "CHR ''/'' \<notin> set a" "CHR ''-'' \<notin> set a" "CHR ''/'' \<notin> set b"
    using parts by (auto simp: parse_decimal_iff list_all_iff is_ascii_digit_def byte_def)
  then have "split_once (CHR ''/'') (a @ ''-'' @ b @ ''/'' @ c) = Some (a @ CHR ''-'' # b, c)"
    "split_once (CHR ''-'') (a @ CHR ''-'' # b) = Some (a, b)"
    by (simp_all add: split_once_Some)
  moreover have "eq_ignore_ascii_case unit ''bytes''"
    unfolding eq_ignore_ascii_case_def unit by code_simp
  ultimately show "content_range_parse v = Inr r"
    using parts ok by (simp add: content_range_parse_def not_less not_le)
qed

lemma entity_tag_iff:
  "entity_tag_parse v = Inr t \<longleftrightarrow>
     (\<exists>opaque. v = [0x22] @ opaque @ [0x22] \<and> list_all tag_byte opaque \<and> t = StrongEntityTag v)"
  by (auto simp: entity_tag_parse_def result_simps bind_eq_Some_conv strip_prefix_Some strip_suffix_Some)

section \<open>Properties\<close>

text \<open>
  C21.  A value is read as a content range exactly when it is the unit bytes in any case, a space and
  three nonempty runs of digits separated by a hyphen and a slash that stand for a nonempty
  interval inside its representation; the numbers are those of the range, and everything else
  is rejected as invalid metadata.
\<close>

theorem content_range_exactly:
  "(content_range_parse v = Inr r \<longleftrightarrow>
     (\<exists>unit a b c. v = unit @ '' '' @ a @ ''-'' @ b @ ''/'' @ c \<and>
        to_ascii_lowercase unit = ''bytes'' \<and>
        (a \<noteq> [] \<and> list_all is_ascii_digit a \<and> decimal a = unat (range_start r)) \<and>
        (b \<noteq> [] \<and> list_all is_ascii_digit b \<and> decimal b = unat (range_end r)) \<and>
        (c \<noteq> [] \<and> list_all is_ascii_digit c \<and> decimal c = unat (range_total r)) \<and>
        range_start r \<le> range_end r \<and> range_end r < range_total r)) \<and>
   (case content_range_parse v of Inl e \<Rightarrow> e = HeInvalidMetadata | Inr _ \<Rightarrow> True)"
  by (simp only: content_range_iff content_range_error)

text \<open>
  The body length of a range that was read does not wrap around, and the range ends inside
  the representation.
\<close>

theorem content_range_length_exact:
  assumes "content_range_parse v = Inr r"
  shows "unat (body_length r) = unat (range_end r) + 1 - unat (range_start r) \<and> 0 < unat (body_length r) \<and>
    unat (range_start r) + unat (body_length r) \<le> unat (range_total r)"
proof -
  have ok: "range_ok r" by (rule content_range_ok [OF assms])
  then have "unat (range_start r) \<le> unat (range_end r)" by (simp add: range_ok_def word_le_nat_alt)
  with body_length_exact [OF ok] show ?thesis by simp
qed

lemma content_range_length_exact_witness:
  "unat (body_length \<lparr>range_start = 5, range_end = 9, range_total = 10\<rparr>) = 5"
proof -
  have "content_range_parse (range_text \<lparr>range_start = 5, range_end = 9, range_total = 10\<rparr>) =
      Inr \<lparr>range_start = 5, range_end = 9, range_total = 10\<rparr>"
    by (simp add: content_range_text range_ok_def)
  from content_range_length_exact [OF this] show ?thesis by simp
qed

text \<open>
  Exactly the quoted strings of entity-tag characters are strong entity tags, and a tag keeps
  its bytes, quotes included.
\<close>

theorem entity_tag_exactly:
  "entity_tag_parse v = Inr t \<longleftrightarrow>
     (\<exists>opaque. v = [0x22] @ opaque @ [0x22] \<and>
        list_all (\<lambda>b. b = 0x21 \<or> 0x23 \<le> b \<and> b \<le> 0x7e \<or> 0x80 \<le> b) opaque \<and>
        t = StrongEntityTag v)"
  by (simp add: entity_tag_iff tag_byte_def [abs_def])

end
