(* ===== verification/Float64.thy ===== *)
theory Float64
  imports Text
begin

text \<open>
  The little of \<open>f64\<close> the manifests need: parsing a decimal literal to the nearest binary64 value,
  rounding to nearest even, multiplication and division with rounding, \<open>round\<close>, the saturating cast
  to \<open>u64\<close>, and printing with one decimal.  A finite value is a sign, a mantissa and an
  exponent of two.
\<close>

section \<open>Rounding\<close>

text \<open>The quotient of nonnegative integers, rounded to the nearest integer, ties to even.\<close>

definition div_half_even :: "int \<Rightarrow> int \<Rightarrow> int" where
  "div_half_even a b =
     (let d = a div b; r = a mod b in
      if 2 * r < b \<or> (2 * r = b \<and> even d) then d else d + 1)"

fun bit_length :: "int \<Rightarrow> nat" where
  "bit_length n = (if n \<le> 0 then 0 else Suc (bit_length (n div 2)))"

declare bit_length.simps [simp del]

text \<open>\<open>a / b\<close> over \<open>2^k\<close> as a fraction.\<close>

definition scaled :: "int \<Rightarrow> int \<Rightarrow> int \<Rightarrow> int \<times> int" where
  "scaled a b k = (if 0 \<le> k then (a, b * 2 ^ nat k) else (a * 2 ^ nat (- k), b))"

text \<open>\<open>floor (log2 (a / b))\<close> for positive \<open>a\<close> and \<open>b\<close>.\<close>

definition binary_exponent :: "int \<Rightarrow> int \<Rightarrow> int" where
  "binary_exponent a b =
     (let e = int (bit_length a) - int (bit_length b); (p, q) = scaled a b e in
      if q \<le> p then e else e - 1)"

datatype f64 = F64Nan | F64Infinite bool | F64Finite bool int int

text \<open>The binary64 value nearest to \<open>a / b\<close>, with the sign \<open>neg\<close>.\<close>

definition f64_of_ratio :: "bool \<Rightarrow> int \<Rightarrow> int \<Rightarrow> f64" where
  "f64_of_ratio neg a b =
     (if a = 0 then F64Finite neg 0 0
      else
        let k = max (binary_exponent a b - 52) (- 1074);
            (p, q) = scaled a b k;
            n = div_half_even p q
        in if k > 971 \<or> (k = 971 \<and> n \<ge> 2 ^ 53) then F64Infinite neg else F64Finite neg n k)"

section \<open>Parsing\<close>

definition decimal_int :: "string \<Rightarrow> int" where
  "decimal_int s = foldl (\<lambda>n c. 10 * n + int (digit_val c)) 0 s"

definition take_digits :: "string \<Rightarrow> string \<times> string" where
  "take_digits s = (takeWhile is_ascii_digit s, dropWhile is_ascii_digit s)"

definition parse_exponent :: "string \<Rightarrow> int option" where
  "parse_exponent s =
     (case s of
        [] \<Rightarrow> Some 0
      | c # t \<Rightarrow>
          if c \<noteq> CHR ''e'' \<and> c \<noteq> CHR ''E'' then None
          else
            let (neg, digits) = (case t of d # u \<Rightarrow> if d = CHR ''-'' then (True, u)
                                   else if d = CHR ''+'' then (False, u) else (False, t) | [] \<Rightarrow> (False, t))
            in if all_digits digits then Some (if neg then - decimal_int digits else decimal_int digits)
               else None)"

definition f64_of_decimal :: "bool \<Rightarrow> int \<Rightarrow> int \<Rightarrow> f64" where
  "f64_of_decimal neg digits exponent =
     (if digits = 0 then F64Finite neg 0 0
      else if 0 \<le> exponent then f64_of_ratio neg (digits * 10 ^ nat exponent) 1
      else f64_of_ratio neg digits (10 ^ nat (- exponent)))"

definition parse_f64_number :: "bool \<Rightarrow> string \<Rightarrow> f64 option" where
  "parse_f64_number neg s =
     (let (whole, rest) = take_digits s;
          (fraction, rest) =
            (case rest of c # t \<Rightarrow> if c = CHR ''.'' then take_digits t else ([], rest) | [] \<Rightarrow> ([], rest))
      in if whole = [] \<and> fraction = [] then None
         else
           map_option (\<lambda>e. f64_of_decimal neg (decimal_int (whole @ fraction)) (e - int (length fraction)))
             (parse_exponent rest))"

definition parse_f64 :: "string \<Rightarrow> f64 option" where
  "parse_f64 s =
     (let (neg, t) = (case s of c # u \<Rightarrow> if c = CHR ''-'' then (True, u)
                        else if c = CHR ''+'' then (False, u) else (False, s) | [] \<Rightarrow> (False, s))
      in if eq_ignore_ascii_case t ''inf'' \<or> eq_ignore_ascii_case t ''infinity'' then Some (F64Infinite neg)
         else if eq_ignore_ascii_case t ''nan'' then Some F64Nan
         else parse_f64_number neg t)"

section \<open>Operations on finite nonnegative values\<close>

definition f64_of_nat :: "int \<Rightarrow> f64" where
  "f64_of_nat n = f64_of_ratio False n 1"

definition fin_mult :: "int \<Rightarrow> int \<Rightarrow> int \<Rightarrow> f64" where
  "fin_mult m e c = (let (p, q) = scaled (m * c) 1 (- e) in f64_of_ratio False p q)"

definition fin_div :: "int \<Rightarrow> int \<Rightarrow> int \<Rightarrow> f64" where
  "fin_div m e c = (let (p, q) = scaled m c (- e) in f64_of_ratio False p q)"

text \<open>\<open>x.round() as u64\<close>: ties away from zero, then saturation.\<close>

definition fin_round :: "int \<Rightarrow> int \<Rightarrow> int" where
  "fin_round m e = (let (p, q) = scaled m 1 (- e) in (2 * p + q) div (2 * q))"

definition saturate_u64 :: "int \<Rightarrow> u64" where
  "saturate_u64 n = (if n \<le> 0 then 0 else if n \<ge> 2 ^ 64 then - 1 else of_int n)"

text \<open>\<open>format!("{:.1}", x)\<close>.\<close>

definition show_one_decimal :: "int \<Rightarrow> int \<Rightarrow> string" where
  "show_one_decimal m e =
     (let (p, q) = scaled (m * 10) 1 (- e); tenths = div_half_even p q
      in show_nat (nat (tenths div 10)) @ ''.'' @ show_nat (nat (tenths mod 10)))"

section \<open>Exactness\<close>

lemma scaled_ratio: "0 < b \<Longrightarrow> 0 < snd (scaled a b k)"
  by (simp add: scaled_def)

lemma div_half_even_bounds:
  assumes "0 < b"
  shows "2 * a - b \<le> 2 * b * div_half_even a b" "2 * b * div_half_even a b \<le> 2 * a + b"
proof -
  have eq: "a = b * (a div b) + a mod b" by simp
  have mod: "0 \<le> a mod b" "a mod b < b" using assms by simp_all
  have "2 * b * div_half_even a b = 2 * b * (a div b) \<and> 2 * (a mod b) \<le> b \<or>
      2 * b * div_half_even a b = 2 * b * (a div b) + 2 * b \<and> b \<le> 2 * (a mod b)"
    by (auto simp: div_half_even_def Let_def distrib_left)
  moreover have "2 * a = 2 * b * (a div b) + 2 * (a mod b)" using arg_cong [OF eq, of "\<lambda>x. 2 * x"] by (simp only: distrib_left mult.assoc)
  ultimately show "2 * a - b \<le> 2 * b * div_half_even a b" "2 * b * div_half_even a b \<le> 2 * a + b"
    using mod by linarith+
qed

lemma div_half_even_exact [simp]: "0 < b \<Longrightarrow> div_half_even (n * b) b = n"
  by (simp add: div_half_even_def)

section \<open>Evaluating numbers\<close>

lemma decimal_int: "int (decimal s) = decimal_int s"
proof -
  have "int (foldl (\<lambda>n c. 10 * n + digit_val c) n s) = foldl (\<lambda>n c. 10 * n + int (digit_val c)) (int n) s" for n
    by (induction s arbitrary: n) simp_all
  from this [of 0] show ?thesis by (simp add: decimal_def decimal_int_def)
qed

text \<open>Natural numbers evaluate in unary, so numbers of a manifest are evaluated as integers.\<close>

lemma parse_uint_code [code]:
  "(parse_uint s :: 'a::len word option) =
     (let d = strip_plus s in
      if all_digits d \<and> decimal_int d < 2 ^ LENGTH('a) then Some (of_int (decimal_int d)) else None)"
proof -
  have "(of_nat (decimal d) :: 'a word) = of_int (decimal_int d)" for d
    by (simp flip: decimal_int)
  moreover have "decimal d < 2 ^ LENGTH('a) \<longleftrightarrow> decimal_int d < 2 ^ LENGTH('a)" for d
    using of_nat_less_iff [of "decimal d" "2 ^ LENGTH('a)", where 'a = int] by (simp add: decimal_int)
  ultimately show ?thesis by (simp add: parse_uint_def Let_def)
qed

section \<open>Milliseconds as decimal seconds\<close>

lemma bit_length_bounds:
  "0 < n \<Longrightarrow> n < 2 ^ bit_length n \<and> 2 ^ bit_length n \<le> 2 * n \<and> 0 < bit_length n"
proof (induction n rule: bit_length.induct)
  case (1 n)
  show ?case
  proof (cases "n = 1")
    case True
    then show ?thesis by (simp add: bit_length.simps [of 1] bit_length.simps [of 0])
  next
    case False
    with 1 have "0 < n div 2" "bit_length n = Suc (bit_length (n div 2))"
      by (simp_all add: bit_length.simps [of n])
    with 1 show ?thesis by auto
  qed
qed

lemma binary_exponent_le:
  assumes "0 < a" "0 < b"
  shows "snd (scaled a b (binary_exponent a b)) \<le> fst (scaled a b (binary_exponent a b))"
proof -
  define e where "e = int (bit_length a) - int (bit_length b)"
  have a: "2 ^ bit_length a \<le> 2 * a" and b: "b < 2 ^ bit_length b" "0 < bit_length b"
    using bit_length_bounds [OF assms(1)] bit_length_bounds [OF assms(2)] by simp_all
  have "snd (scaled a b (e - 1)) \<le> fst (scaled a b (e - 1))"
  proof (cases "0 \<le> e - 1")
    case True
    then have "bit_length a = bit_length b + nat (e - 1) + 1" by (simp add: e_def)
    then have "2 ^ bit_length b * 2 ^ nat (e - 1) \<le> a" using a by (simp add: power_add)
    moreover have "b * 2 ^ nat (e - 1) \<le> 2 ^ bit_length b * 2 ^ nat (e - 1)"
      using b by (intro mult_right_mono) simp_all
    ultimately have "b * 2 ^ nat (e - 1) \<le> a" by linarith
    with True show ?thesis by (simp add: scaled_def)
  next
    case False
    then have "bit_length a + nat (1 - e) = bit_length b + 1" by (simp add: e_def)
    then have "2 ^ bit_length a * 2 ^ nat (1 - e) = 2 * (2 ^ bit_length b :: int)"
      by (simp flip: power_add)
    moreover have "2 ^ bit_length a * 2 ^ nat (1 - e) \<le> 2 * a * 2 ^ nat (1 - e)" using a by simp
    ultimately have "2 ^ bit_length b \<le> a * 2 ^ nat (1 - e)" by simp
    then show ?thesis using False b by (simp add: scaled_def)
  qed
  then show ?thesis
    by (auto simp: binary_exponent_def Let_def e_def [symmetric] split: prod.splits)
qed

text \<open>A quotient below \<open>2^(52 - j)\<close> is rounded at the binary digit \<open>j\<close> or a later one.\<close>

lemma f64_of_ratio_below:
  assumes "0 < a" "0 < b" "a < b * 2 ^ (52 - j)" "j \<le> 52"
  obtains l m where "j < l" "f64_of_ratio neg a b = F64Finite neg m (- int l)"
    "2 * a * 2 ^ l - b \<le> 2 * b * m" "2 * b * m \<le> 2 * a * 2 ^ l + b"
proof -
  define e where "e = binary_exponent a b"
  have low: "snd (scaled a b e) \<le> fst (scaled a b e)" unfolding e_def by (rule binary_exponent_le [OF assms(1,2)])
  have "e < int (52 - j)"
  proof (rule ccontr)
    assume "\<not> e < int (52 - j)"
    then have e: "0 \<le> e" "52 - j \<le> nat e" by linarith+
    then have "b * 2 ^ nat e \<le> a" using low by (simp add: scaled_def)
    moreover have "b * 2 ^ (52 - j) \<le> b * 2 ^ nat e" using e(2) assms(2) by (simp add: power_increasing)
    ultimately show False using assms(3) by linarith
  qed
  note below = this
  define l where "l = nat (- max (e - 52) (- 1074))"
  have neg: "max (e - 52) (- 1074) = - int l" "j < l"
    using below assms(4) by (auto simp: l_def max_def)
  have sc: "scaled a b (- int l) = (a * 2 ^ l, b)" using neg(2) by (simp add: scaled_def)
  have "f64_of_ratio neg a b = F64Finite neg (div_half_even (a * 2 ^ l) b) (- int l)"
    using assms(1) by (simp add: f64_of_ratio_def Let_def e_def [symmetric] neg(1) sc)
  with neg(2) show thesis
    using div_half_even_bounds [OF assms(2), of "a * 2 ^ l"] by (intro that [of l]) (simp_all add: mult.assoc)
qed

lemma fin_round_near:
  assumes "2 * n * 2 ^ l - 2 ^ l \<le> 2 * m" "2 * m < 2 * n * 2 ^ l + 2 ^ l" "0 < l"
  shows "fin_round m (- int l) = n"
proof -
  have "(2 * m + 2 ^ l) div (2 * 2 ^ l) = n"
    using assms(1,2) by (intro div_pos_pos_trivial [THEN trans] int_div_pos_eq [THEN trans, of _ _ n "2 * m + 2 ^ l - n * (2 * 2 ^ l)"])
      (auto simp: algebra_simps)
  then show ?thesis using assms(3) by (simp add: fin_round_def scaled_def)
qed

lemma milliseconds_rounded:
  assumes "0 < n" "n < 2 ^ 50"
  obtains m e m' e' where "f64_of_ratio False n 1000 = F64Finite False m e" "0 < m"
    "fin_mult m e 1000 = F64Finite False m' e'" "fin_round m' e' = n"
proof -
  have "n < 1000 * 2 ^ (52 - 11)" using assms by simp
  then obtain l m where l: "11 < l" and r: "f64_of_ratio False n 1000 = F64Finite False m (- int l)"
    and b: "2 * n * 2 ^ l - 1000 \<le> 2 * 1000 * m" "2 * 1000 * m \<le> 2 * n * 2 ^ l + 1000"
    using assms(1) by (elim f64_of_ratio_below [rotated 2, of n 1000 11]) simp_all
  have big: "4096 \<le> (2 :: int) ^ l" using power_increasing [of 12 l "2 :: int"] l by simp
  have low: "2 ^ l \<le> n * 2 ^ l" using assms(1) big by simp
  then have m: "0 < m" using b(1) big by linarith
  have "n \<le> 1125899906842623" using assms(2) by simp
  then have "n * 2 ^ l \<le> 1125899906842623 * 2 ^ l" by (intro mult_right_mono) simp_all
  then have "m * 1000 < 2251799813685248 * 2 ^ l" using b(2) big by linarith
  then have "m * 1000 < 2 ^ l * 2 ^ (52 - 1)" by simp
  then obtain k q where k: "1 < k" and r': "f64_of_ratio False (m * 1000) (2 ^ l) = F64Finite False q (- int k)"
    and c: "2 * (m * 1000) * 2 ^ k - 2 ^ l \<le> 2 * 2 ^ l * q" "2 * 2 ^ l * q \<le> 2 * (m * 1000) * 2 ^ k + 2 ^ l"
    using m by (elim f64_of_ratio_below [rotated 2, of "m * 1000" "2 ^ l" 1]) simp_all
  have "fin_mult m (- int l) 1000 = F64Finite False q (- int k)"
    by (simp add: fin_mult_def scaled_def r')
  moreover have "fin_round q (- int k) = n"
  proof (rule fin_round_near)
    define X Y :: int where "X = 2 ^ l" and "Y = 2 ^ k"
    have XY: "4096 \<le> X" "4 \<le> Y" using big power_increasing [of 2 k "2 :: int"] k by (simp_all add: X_def Y_def)
    have "4096 * Y \<le> X * Y" "X * 4 \<le> X * Y" using XY by (simp_all add: mult_left_mono mult_right_mono)
    then have slack: "1000 * Y + X < X * Y" using XY by linarith
    have "2 * n * X * Y - 1000 * Y \<le> 2000 * m * Y" "2000 * m * Y \<le> 2 * n * X * Y + 1000 * Y"
      using b [folded X_def] XY mult_right_mono [of "2 * n * X - 1000" "2000 * m" Y]
        mult_right_mono [of "2000 * m" "2 * n * X + 1000" Y] by (simp_all add: algebra_simps)
    then have near: "2 * n * X * Y - X * Y < X * (2 * q)" "X * (2 * q) < 2 * n * X * Y + X * Y"
      using c [folded X_def Y_def] slack by (simp_all add: algebra_simps)
    have "X * (2 * n * Y - Y) < X * (2 * q)" "X * (2 * q) < X * (2 * n * Y + Y)"
      using near by (simp_all add: algebra_simps)
    then show "2 * n * 2 ^ k - 2 ^ k \<le> 2 * q" "2 * q < 2 * n * 2 ^ k + 2 ^ k"
      using XY(1) by (simp_all add: mult_less_cancel_left X_def Y_def)
  qed (use k in simp)
  ultimately show thesis using that r m by blast
qed

end
