(* ===== verification/Hls.thy ===== *)
theory Hls
  imports Xml Float64 "HOL-Library.Product_Lexorder"
begin

text \<open>
  The HLS playlist parser, \<open>crates/gunda-stream/src/hls.rs\<close>: one step per line over the variables
  of \<open>parse\<close>.  Arithmetic on \<open>u64\<close> wraps where the code adds without a check, as the
  release build does; a build with overflow checks panics there.
\<close>

section \<open>Playlists\<close>

definition max_segments :: nat where "max_segments = 200000"

lemma max_segments_code [code_unfold]:
  "max_segments \<le> n \<longleftrightarrow> 200000 \<le> int n" "max_segments < n \<longleftrightarrow> 200000 < int n"
  "int (max_segments - n) = max 0 (200000 - int n)"
  by (auto simp: max_segments_def)

record byte_range =
  br_length :: u64
  br_offset :: "u64 option"

definition byte_range_parse :: "string \<Rightarrow> manifest_error + byte_range" where
  "byte_range_parse value =
     (let (len, offset) = (case split_once (CHR ''@'') value of
                             Some (len, offset) \<Rightarrow> (len, Some offset) | None \<Rightarrow> (value, None))
      in rbind (ok_or InvalidByteRange (parse_uint (trim len))) (\<lambda>len.
         if len = 0 then Inl InvalidByteRange
         else
           rmap (\<lambda>offset. \<lparr>br_length = len, br_offset = offset\<rparr>)
             (traverse_opt (\<lambda>offset. ok_or InvalidByteRange (parse_uint offset)) (map_option trim offset))))"

record resource_ref =
  ref_uri :: string
  ref_range :: "byte_range option"

record key_ref =
  key_method :: string
  key_uri :: "string option"
  key_iv :: "string option"

definition key_is_encrypted :: "key_ref \<Rightarrow> bool" where
  "key_is_encrypted k \<longleftrightarrow> \<not> eq_ignore_ascii_case (key_method k) ''NONE''"

record segment =
  seg_resource :: resource_ref
  seg_duration :: "u64 option"
  seg_sequence :: u64
  seg_init :: "resource_ref option"
  seg_key :: "key_ref option"
  seg_discontinuity :: bool

record media_playlist =
  mp_segments :: "segment list"
  mp_target_duration :: "u64 option"
  mp_ended :: bool

definition playlist_is_encrypted :: "media_playlist \<Rightarrow> bool" where
  "playlist_is_encrypted p \<longleftrightarrow>
     list_ex (\<lambda>s. case seg_key s of Some k \<Rightarrow> key_is_encrypted k | None \<Rightarrow> False) (mp_segments p)"

fun add_durations :: "u64 \<Rightarrow> segment list \<Rightarrow> u64 option" where
  "add_durations tot [] = Some tot"
| "add_durations tot (s # ss) =
     (case seg_duration s of None \<Rightarrow> None | Some d \<Rightarrow> add_durations (saturating_add tot d) ss)"

definition total_duration_millis :: "media_playlist \<Rightarrow> u64 option" where
  "total_duration_millis p = add_durations 0 (mp_segments p)"

record variant =
  var_uri :: string
  var_bandwidth :: "u64 option"
  var_width :: "u32 option"
  var_height :: "u32 option"
  var_codecs :: "string option"
  var_audio_group :: "string option"

definition variant_resolution :: "variant \<Rightarrow> (u32 \<times> u32) option" where
  "variant_resolution v = Option.bind (var_width v) (\<lambda>w. map_option (Pair w) (var_height v))"

record rendition =
  ren_kind :: string
  ren_group_id :: "string option"
  ren_name :: "string option"
  ren_language :: "string option"
  ren_uri :: "string option"
  ren_default :: bool

record master_playlist =
  ms_variants :: "variant list"
  ms_renditions :: "rendition list"
  ms_iframe_variants :: "variant list"

datatype playlist = Master master_playlist | Media media_playlist

text \<open>\<open>Iterator::max_by_key\<close> returns the last maximum, \<open>min_by_key\<close> the first minimum.\<close>

fun max_by_key :: "('a \<Rightarrow> 'k::linorder) \<Rightarrow> 'a list \<Rightarrow> 'a option" where
  "max_by_key key [] = None"
| "max_by_key key (x # xs) = Some (fold (\<lambda>y best. if key best \<le> key y then y else best) xs x)"

fun min_by_key :: "('a \<Rightarrow> 'k::linorder) \<Rightarrow> 'a list \<Rightarrow> 'a option" where
  "min_by_key key [] = None"
| "min_by_key key (x # xs) = Some (fold (\<lambda>y best. if key y < key best then y else best) xs x)"

definition variant_rank :: "variant \<Rightarrow> u64 \<times> u32 \<times> u32" where
  "variant_rank v = (unwrap_or 0 (var_bandwidth v), unwrap_or 0 (var_width v), unwrap_or 0 (var_height v))"

definition best_variant :: "master_playlist \<Rightarrow> variant option" where
  "best_variant m = max_by_key variant_rank (ms_variants m)"

definition default_audio_rendition :: "master_playlist \<Rightarrow> variant \<Rightarrow> rendition option" where
  "default_audio_rendition m v =
     Option.bind (var_audio_group v) (\<lambda>group.
     min_by_key (\<lambda>r. \<not> ren_default r)
       (filter (\<lambda>r. eq_ignore_ascii_case (ren_kind r) ''AUDIO'' \<and> ren_group_id r = Some group \<and>
          ren_uri r \<noteq> None) (ms_renditions m)))"

section \<open>Attribute lists\<close>

type_synonym hls_attributes = "(string \<times> string) list"

definition hls_get :: "hls_attributes \<Rightarrow> string \<Rightarrow> string option" where
  "hls_get pairs name = map_option snd (find (\<lambda>e. eq_ignore_ascii_case (fst e) name) pairs)"

definition hls_get_u64 :: "hls_attributes \<Rightarrow> string \<Rightarrow> manifest_error + u64 option" where
  "hls_get_u64 pairs name =
     traverse_opt (\<lambda>value. ok_or InvalidNumber (parse_uint (trim value))) (hls_get pairs name)"

definition hls_is_yes :: "hls_attributes \<Rightarrow> string \<Rightarrow> bool" where
  "hls_is_yes pairs name =
     (case hls_get pairs name of Some value \<Rightarrow> eq_ignore_ascii_case value ''YES'' | None \<Rightarrow> False)"

definition hls_value :: "string \<Rightarrow> manifest_error + string \<times> string" where
  "hls_value tail =
     (case strip_prefix [CHR 0x22] tail of
        Some quoted \<Rightarrow>
          rbind (ok_or Malformed (split_once (CHR 0x22) quoted)) (\<lambda>(value, tail).
          let tail = trim_start tail in
          case strip_prefix '','' tail of
            Some rest \<Rightarrow> Inr (value, rest)
          | None \<Rightarrow> if tail = [] then Inr (value, []) else Inl Malformed)
      | None \<Rightarrow>
          (case split_once (CHR '','') tail of
             Some (value, rest) \<Rightarrow> Inr (value, rest)
           | None \<Rightarrow> Inr (tail, [])))"

lemma hls_value_length: "hls_value s = Inr (v, t) \<Longrightarrow> length t \<le> length s"
proof -
  assume r: "hls_value s = Inr (v, t)"
  show "length t \<le> length s"
  proof (cases "strip_prefix [CHR 0x22] s")
    case None
    with r show ?thesis by (auto simp: hls_value_def dest: split_once_length split: option.splits)
  next
    case (Some quoted)
    with r obtain tail where sp: "split_once (CHR 0x22) quoted = Some (v, tail)"
      and t: "strip_prefix '','' (trim_start tail) = Some t \<or> t = []"
      by (auto simp: hls_value_def Let_def result_simps split: option.splits if_splits)
    have "length t \<le> length (trim_start tail)" using t by (auto simp: strip_prefix_Some)
    also have "\<dots> \<le> length tail" by simp
    also have "\<dots> \<le> length quoted" using split_once_length [OF sp] by simp
    finally show ?thesis using Some by (auto simp: strip_prefix_Some)
  qed
qed

lemma hls_attribute_shrinks:
  "split_once (CHR ''='') rest = Some (name, tail) \<Longrightarrow> hls_value tail = Inr (v, rest') \<Longrightarrow>
     length (trim_start rest') < length rest"
  using split_once_length [of "CHR ''=''" rest name tail] hls_value_length [of tail v rest']
    length_trim_start [of rest'] by linarith

function hls_attribute_loop :: "hls_attributes \<Rightarrow> string \<Rightarrow> manifest_error + hls_attributes" where
  "hls_attribute_loop pairs rest =
     (if rest = [] then Inr pairs
      else
        rbind (ok_or Malformed (split_once (CHR ''='') rest)) (\<lambda>(name, tail).
        let name = trim name in
        if name = [] \<or> contains_ws name then Inl Malformed
        else
          rbind (hls_value tail) (\<lambda>(value, rest').
          hls_attribute_loop (pairs @ [(name, value)]) (trim_start rest'))))"
  by pat_completeness auto
termination
  by (relation "measure (\<lambda>(pairs, rest). length rest)")
     (auto simp: result_simps dest: hls_attribute_shrinks)

declare hls_attribute_loop.simps [simp del]

definition hls_attributes :: "string \<Rightarrow> manifest_error + hls_attributes" where
  "hls_attributes input = hls_attribute_loop [] input"

section \<open>Values\<close>

definition parse_duration_millis :: "string \<Rightarrow> manifest_error + u64" where
  "parse_duration_millis value =
     rbind (ok_or InvalidNumber (parse_f64 (trim value))) (\<lambda>seconds.
     case seconds of
       F64Finite neg m e \<Rightarrow>
         if neg \<and> m > 0 then Inl InvalidNumber
         else
           Inr (case fin_mult m e 1000 of
                  F64Finite _ m e \<Rightarrow> saturate_u64 (fin_round m e)
                | _ \<Rightarrow> - 1)
     | _ \<Rightarrow> Inl InvalidNumber)"

definition parse_resolution :: "string \<Rightarrow> manifest_error + u32 \<times> u32" where
  "parse_resolution value =
     rbind (ok_or Malformed (split_once (CHR ''x'') value)) (\<lambda>(width, height).
     rbind (ok_or InvalidNumber (parse_uint (trim width))) (\<lambda>width.
     rmap (Pair width) (ok_or InvalidNumber (parse_uint (trim height)))))"

definition attributes_to_variant :: "hls_attributes \<Rightarrow> string \<Rightarrow> manifest_error + variant" where
  "attributes_to_variant attributes uri =
     rbind (traverse_opt parse_resolution (hls_get attributes ''RESOLUTION'')) (\<lambda>resolution.
     rmap (\<lambda>bandwidth.
         \<lparr>var_uri = uri, var_bandwidth = bandwidth, var_width = map_option fst resolution,
          var_height = map_option snd resolution, var_codecs = hls_get attributes ''CODECS'',
          var_audio_group = hls_get attributes ''AUDIO''\<rparr>)
       (hls_get_u64 attributes ''BANDWIDTH''))"

section \<open>Lines\<close>

record hls_state =
  h_master :: master_playlist
  h_media :: media_playlist
  h_pending_stream_inf :: "hls_attributes option"
  h_pending_duration :: "u64 option"
  h_pending_range :: "byte_range option"
  h_discontinuity :: bool
  h_key :: "key_ref option"
  h_map :: "resource_ref option"
  h_sequence :: u64
  h_last_range_end :: "(string \<times> u64) option"
  h_saw_master :: bool
  h_saw_media :: bool

definition hls_init :: hls_state where
  "hls_init =
     \<lparr>h_master = \<lparr>ms_variants = [], ms_renditions = [], ms_iframe_variants = []\<rparr>,
      h_media = \<lparr>mp_segments = [], mp_target_duration = None, mp_ended = False\<rparr>,
      h_pending_stream_inf = None, h_pending_duration = None, h_pending_range = None,
      h_discontinuity = False, h_key = None, h_map = None, h_sequence = 0, h_last_range_end = None,
      h_saw_master = False, h_saw_media = False\<rparr>"

text \<open>The offset a pending byte range gets: its own, or where the previous range of the same URI ended.\<close>

definition resolved_offset :: "hls_state \<Rightarrow> string \<Rightarrow> u64 option" where
  "resolved_offset st line =
     Option.bind (h_pending_range st) (\<lambda>range.
     case br_offset range of
       Some offset \<Rightarrow> Some offset
     | None \<Rightarrow>
         (case h_last_range_end st of
            Some (uri, stop) \<Rightarrow> if uri = line then Some stop else None
          | None \<Rightarrow> None))"

definition segment_line :: "string \<Rightarrow> hls_state \<Rightarrow> manifest_error + hls_state" where
  "segment_line line st =
     (let offset = resolved_offset st line;
          range = map_option (\<lambda>r. \<lparr>br_length = br_length r, br_offset = offset\<rparr>) (h_pending_range st);
          range_end = map_option (\<lambda>r. (line, unwrap_or 0 offset + br_length r)) range
      in if max_segments \<le> length (mp_segments (h_media st)) then Inl TooManySegments
         else
           Inr (st\<lparr>h_pending_range := None, h_last_range_end := range_end, h_saw_media := True,
             h_media := (h_media st)\<lparr>mp_segments := mp_segments (h_media st) @
               [\<lparr>seg_resource = \<lparr>ref_uri = line, ref_range = range\<rparr>,
                 seg_duration = h_pending_duration st, seg_sequence = h_sequence st,
                 seg_init = h_map st, seg_key = h_key st, seg_discontinuity = h_discontinuity st\<rparr>]\<rparr>,
             h_pending_duration := None, h_sequence := saturating_add (h_sequence st) 1,
             h_discontinuity := False\<rparr>))"

definition variant_line :: "string \<Rightarrow> hls_attributes \<Rightarrow> hls_state \<Rightarrow> manifest_error + hls_state" where
  "variant_line line attributes st =
     (if h_pending_range st \<noteq> None then Inl Malformed
      else
        rmap (\<lambda>v. st\<lparr>h_pending_stream_inf := None,
            h_master := (h_master st)\<lparr>ms_variants := ms_variants (h_master st) @ [v]\<rparr>,
            h_saw_master := True\<rparr>)
          (attributes_to_variant attributes line))"

definition uri_line :: "string \<Rightarrow> hls_state \<Rightarrow> manifest_error + hls_state" where
  "uri_line line st =
     (if starts_with ''data:'' line then Inl (Unsupported DataUriSegments)
      else
        (case h_pending_stream_inf st of
           None \<Rightarrow> segment_line line st
         | Some attributes \<Rightarrow> variant_line line attributes st))"

definition rendition_of :: "hls_attributes \<Rightarrow> manifest_error + rendition" where
  "rendition_of a =
     rmap (\<lambda>kind. \<lparr>ren_kind = kind, ren_group_id = hls_get a ''GROUP-ID'', ren_name = hls_get a ''NAME'',
         ren_language = hls_get a ''LANGUAGE'', ren_uri = hls_get a ''URI'', ren_default = hls_is_yes a ''DEFAULT''\<rparr>)
       (ok_or Malformed (hls_get a ''TYPE''))"

definition key_of :: "hls_attributes \<Rightarrow> manifest_error + key_ref option" where
  "key_of a =
     rmap (\<lambda>method.
         if eq_ignore_ascii_case method ''NONE'' then None
         else Some \<lparr>key_method = method, key_uri = hls_get a ''URI'', key_iv = hls_get a ''IV''\<rparr>)
       (ok_or Malformed (hls_get a ''METHOD''))"

definition map_of_attributes :: "hls_attributes \<Rightarrow> manifest_error + resource_ref" where
  "map_of_attributes a =
     rbind (ok_or Malformed (hls_get a ''URI'')) (\<lambda>uri.
     rmap (\<lambda>range. \<lparr>ref_uri = uri, ref_range = range\<rparr>)
       (traverse_opt byte_range_parse (hls_get a ''BYTERANGE'')))"

definition tag_line :: "string \<Rightarrow> string option \<Rightarrow> hls_state \<Rightarrow> manifest_error + hls_state" where
  "tag_line name value st =
     (if name = ''EXT-X-STREAM-INF'' then
        rmap (\<lambda>a. st\<lparr>h_pending_stream_inf := Some a, h_saw_master := True\<rparr>) (hls_attributes (unwrap_or [] value))
      else if name = ''EXT-X-I-FRAME-STREAM-INF'' then
        rbind (hls_attributes (unwrap_or [] value)) (\<lambda>a.
        rbind (ok_or Malformed (hls_get a ''URI'')) (\<lambda>uri.
        rmap (\<lambda>v. st\<lparr>h_master := (h_master st)\<lparr>ms_iframe_variants := ms_iframe_variants (h_master st) @ [v]\<rparr>,
            h_saw_master := True\<rparr>)
          (attributes_to_variant a uri)))
      else if name = ''EXT-X-MEDIA'' then
        rbind (hls_attributes (unwrap_or [] value)) (\<lambda>a.
        rmap (\<lambda>r. st\<lparr>h_master := (h_master st)\<lparr>ms_renditions := ms_renditions (h_master st) @ [r]\<rparr>,
            h_saw_master := True\<rparr>)
          (rendition_of a))
      else if name = ''EXTINF'' then
        rbind (ok_or Malformed value) (\<lambda>value.
        rmap (\<lambda>d. st\<lparr>h_pending_duration := Some d, h_saw_media := True\<rparr>)
          (parse_duration_millis (hd (split_on (CHR '','') value))))
      else if name = ''EXT-X-BYTERANGE'' then
        rbind (ok_or Malformed value) (\<lambda>value.
        rmap (\<lambda>r. st\<lparr>h_pending_range := Some r, h_saw_media := True\<rparr>) (byte_range_parse value))
      else if name = ''EXT-X-TARGETDURATION'' then
        rbind (ok_or Malformed value) (\<lambda>value.
        rmap (\<lambda>n. st\<lparr>h_media := (h_media st)\<lparr>mp_target_duration := Some n\<rparr>, h_saw_media := True\<rparr>)
          (ok_or InvalidNumber (parse_uint (trim value))))
      else if name = ''EXT-X-MEDIA-SEQUENCE'' then
        rbind (ok_or Malformed value) (\<lambda>value.
        rmap (\<lambda>n. st\<lparr>h_sequence := n, h_saw_media := True\<rparr>) (ok_or InvalidNumber (parse_uint (trim value))))
      else if name = ''EXT-X-ENDLIST'' then
        Inr (st\<lparr>h_media := (h_media st)\<lparr>mp_ended := True\<rparr>, h_saw_media := True\<rparr>)
      else if name = ''EXT-X-DISCONTINUITY'' then Inr (st\<lparr>h_discontinuity := True, h_saw_media := True\<rparr>)
      else if name = ''EXT-X-KEY'' then
        rbind (ok_or Malformed value) (\<lambda>value.
        rbind (hls_attributes value) (\<lambda>a.
        rmap (\<lambda>k. st\<lparr>h_key := k, h_saw_media := True\<rparr>) (key_of a)))
      else if name = ''EXT-X-MAP'' then
        rbind (ok_or Malformed value) (\<lambda>value.
        rbind (hls_attributes value) (\<lambda>a.
        rmap (\<lambda>m. st\<lparr>h_map := Some m, h_saw_media := True\<rparr>) (map_of_attributes a)))
      else Inr st)"

definition hls_line :: "string \<Rightarrow> hls_state \<Rightarrow> manifest_error + hls_state" where
  "hls_line line st =
     (let line = trim line in
      if line = [] then Inr st
      else
        (case strip_prefix ''#'' line of
           None \<Rightarrow> uri_line line st
         | Some tag \<Rightarrow>
             (case split_once (CHR '':'') tag of
                Some (name, value) \<Rightarrow> tag_line name (Some value) st
              | None \<Rightarrow> tag_line tag None st)))"

fun hls_lines :: "string list \<Rightarrow> hls_state \<Rightarrow> manifest_error + hls_state" where
  "hls_lines [] st = Inr st"
| "hls_lines (l # ls) st = rbind (hls_line l st) (hls_lines ls)"

definition hls_finish :: "hls_state \<Rightarrow> manifest_error + playlist" where
  "hls_finish st =
     (if h_pending_stream_inf st \<noteq> None then Inl Malformed
      else if h_saw_master st \<and> h_saw_media st then Inl AmbiguousPlaylist
      else if h_saw_master st then Inr (Master (h_master st))
      else if h_saw_media st then Inr (Media (h_media st))
      else Inl NotAManifest)"

definition byte_order_mark :: string where
  "byte_order_mark = char_utf8 0xFEFF"

lemma byte_order_mark_code [code]: "byte_order_mark = [CHR 0xEF, CHR 0xBB, CHR 0xBF]"
  by (simp add: byte_order_mark_def char_utf8_def) code_simp

definition hls_parse :: "string \<Rightarrow> manifest_error + playlist" where
  "hls_parse text =
     (let text = (case strip_prefix byte_order_mark text of Some t \<Rightarrow> t | None \<Rightarrow> text) in
      if find (\<lambda>l. l \<noteq> []) (map trim (lines text)) \<noteq> Some ''#EXTM3U'' then Inl NotAManifest
      else rbind (hls_lines (lines text) hls_init) hls_finish)"

end
