(* ===== verification/Hls_Correct.thy ===== *)
theory Hls_Correct
  imports Hls
begin

text \<open>
  What the playlist parser guarantees: an invariant of its loop, from which the shape of every
  parsed playlist follows, and the choice of the best variant.
\<close>

section \<open>Maxima and minima by a key\<close>

lemma max_fold:
  "fold (\<lambda>y best. if key best \<le> key y then y else best) xs x \<in> set (x # xs) \<and>
     (\<forall>z \<in> set (x # xs). key z \<le> (key (fold (\<lambda>y best. if key best \<le> key y then y else best) xs x) :: 'k::linorder))"
proof (induction xs arbitrary: x)
  case (Cons a xs)
  have "key x \<le> key (if key x \<le> key a then a else x)" "key a \<le> key (if key x \<le> key a then a else x)"
    by auto
  with Cons.IH [of "if key x \<le> key a then a else x"] show ?case
    by (simp only: fold.simps comp_apply list.set) (auto split: if_splits intro: order_trans)
qed simp

lemma max_by_key_Some:
  "max_by_key key xs = Some m \<Longrightarrow> m \<in> set xs \<and> (\<forall>z \<in> set xs. key z \<le> key m)"
  using max_fold [of key] by (cases xs) auto

lemma max_by_key_None [simp]: "max_by_key key xs = None \<longleftrightarrow> xs = []"
  by (cases xs) auto

lemma min_fold:
  "fold (\<lambda>y best. if key y < key best then y else best) xs x \<in> set (x # xs) \<and>
     (\<forall>z \<in> set (x # xs). (key (fold (\<lambda>y best. if key y < key best then y else best) xs x) :: 'k::linorder) \<le> key z)"
proof (induction xs arbitrary: x)
  case (Cons a xs)
  have "key (if key a < key x then a else x) \<le> key x" "key (if key a < key x then a else x) \<le> key a"
    by auto
  with Cons.IH [of "if key a < key x then a else x"] show ?case
    by (simp only: fold.simps comp_apply list.set) (auto split: if_splits intro: order_trans)
qed simp

lemma min_by_key_Some:
  "min_by_key key xs = Some m \<Longrightarrow> m \<in> set xs \<and> (\<forall>z \<in> set xs. key m \<le> key z)"
  using min_fold [of key] by (cases xs) auto

lemma min_by_key_None [simp]: "min_by_key key xs = None \<longleftrightarrow> xs = []"
  by (cases xs) auto

section \<open>The invariant of the loop\<close>

definition byte_range_ok :: "byte_range option \<Rightarrow> bool" where
  "byte_range_ok r = (case r of None \<Rightarrow> True | Some r \<Rightarrow> br_length r \<noteq> 0)"

definition key_ok :: "key_ref option \<Rightarrow> bool" where
  "key_ok k = (case k of None \<Rightarrow> True | Some k \<Rightarrow> key_is_encrypted k)"

definition uri_ok :: "string \<Rightarrow> bool" where
  "uri_ok u \<longleftrightarrow> u \<noteq> [] \<and> \<not> starts_with ''#'' u \<and> \<not> starts_with ''data:'' u"

definition map_ok :: "resource_ref option \<Rightarrow> bool" where
  "map_ok m = (case m of None \<Rightarrow> True | Some r \<Rightarrow> byte_range_ok (ref_range r))"

definition segment_ok :: "segment \<Rightarrow> bool" where
  "segment_ok s \<longleftrightarrow> uri_ok (ref_uri (seg_resource s)) \<and> byte_range_ok (ref_range (seg_resource s)) \<and>
     map_ok (seg_init s) \<and> key_ok (seg_key s)"

definition hls_ok :: "hls_state \<Rightarrow> bool" where
  "hls_ok st \<longleftrightarrow>
     list_all segment_ok (mp_segments (h_media st)) \<and> length (mp_segments (h_media st)) \<le> max_segments \<and>
     list_all (\<lambda>v. uri_ok (var_uri v)) (ms_variants (h_master st)) \<and>
     key_ok (h_key st) \<and> map_ok (h_map st) \<and> byte_range_ok (h_pending_range st) \<and>
     (h_pending_stream_inf st \<noteq> None \<longrightarrow> h_saw_master st) \<and>
     (\<not> h_saw_master st \<longrightarrow> ms_variants (h_master st) = []) \<and>
     (\<not> h_saw_media st \<longrightarrow> mp_segments (h_media st) = [])"

lemma hls_ok_init: "hls_ok hls_init"
  by (simp add: hls_ok_def hls_init_def key_ok_def map_ok_def byte_range_ok_def)

lemma byte_range_parse_ok: "byte_range_parse v = Inr r \<Longrightarrow> byte_range_ok (Some r)"
  by (auto simp: byte_range_parse_def byte_range_ok_def result_simps split: option.splits if_splits)

lemma key_of_ok: "key_of a = Inr k \<Longrightarrow> key_ok k"
  by (auto simp: key_of_def key_ok_def key_is_encrypted_def result_simps)

lemma map_of_attributes_ok: "map_of_attributes a = Inr m \<Longrightarrow> map_ok (Some m)"
  by (auto simp: map_of_attributes_def map_ok_def result_simps byte_range_ok_def
      dest: byte_range_parse_ok split: option.splits)
     (auto simp: traverse_opt_def result_simps byte_range_ok_def dest!: byte_range_parse_ok split: option.splits)

lemma variant_uri: "attributes_to_variant a uri = Inr v \<Longrightarrow> var_uri v = uri"
  by (auto simp: attributes_to_variant_def result_simps)

lemma segment_line_ok:
  "segment_line line st = Inr st' \<Longrightarrow> uri_ok line \<Longrightarrow> hls_ok st \<Longrightarrow> h_pending_stream_inf st = None \<Longrightarrow> hls_ok st'"
  by (auto simp: segment_line_def hls_ok_def segment_ok_def Let_def byte_range_ok_def
      split: if_splits option.splits)

lemma variant_line_ok:
  "variant_line line a st = Inr st' \<Longrightarrow> uri_ok line \<Longrightarrow> hls_ok st \<Longrightarrow> hls_ok st'"
  by (auto simp: variant_line_def hls_ok_def result_simps variant_uri split: if_splits)

lemma uri_line_ok: "uri_line line st = Inr st' \<Longrightarrow> line \<noteq> [] \<Longrightarrow> \<not> starts_with ''#'' line \<Longrightarrow> hls_ok st \<Longrightarrow> hls_ok st'"
  unfolding uri_line_def
  by (cases "h_pending_stream_inf st")
     (auto simp: uri_ok_def intro: segment_line_ok [unfolded uri_ok_def] variant_line_ok [unfolded uri_ok_def]
      split: if_splits)

lemma hls_ok_updates:
  assumes "hls_ok st"
  shows "hls_ok (st\<lparr>h_pending_stream_inf := Some a, h_saw_master := True\<rparr>)"
    "hls_ok (st\<lparr>h_master := (h_master st)\<lparr>ms_iframe_variants := vs\<rparr>, h_saw_master := True\<rparr>)"
    "hls_ok (st\<lparr>h_master := (h_master st)\<lparr>ms_renditions := rs\<rparr>, h_saw_master := True\<rparr>)"
    "hls_ok (st\<lparr>h_pending_duration := d, h_saw_media := True\<rparr>)"
    "byte_range_ok r \<Longrightarrow> hls_ok (st\<lparr>h_pending_range := r, h_saw_media := True\<rparr>)"
    "hls_ok (st\<lparr>h_media := (h_media st)\<lparr>mp_target_duration := t\<rparr>, h_saw_media := True\<rparr>)"
    "hls_ok (st\<lparr>h_sequence := n, h_saw_media := True\<rparr>)"
    "hls_ok (st\<lparr>h_media := (h_media st)\<lparr>mp_ended := True\<rparr>, h_saw_media := True\<rparr>)"
    "hls_ok (st\<lparr>h_discontinuity := True, h_saw_media := True\<rparr>)"
    "key_ok k \<Longrightarrow> hls_ok (st\<lparr>h_key := k, h_saw_media := True\<rparr>)"
    "map_ok m \<Longrightarrow> hls_ok (st\<lparr>h_map := m, h_saw_media := True\<rparr>)"
  using assms by (simp_all add: hls_ok_def)

lemma tag_line_ok: "tag_line name value st = Inr st' \<Longrightarrow> hls_ok st \<Longrightarrow> hls_ok st'"
  unfolding tag_line_def
  by (simp only: result_simps split: if_split_asm)
     (auto intro!: hls_ok_updates dest: byte_range_parse_ok key_of_ok map_of_attributes_ok)

lemma hls_line_ok: "hls_line line st = Inr st' \<Longrightarrow> hls_ok st \<Longrightarrow> hls_ok st'"
  by (auto simp: hls_line_def Let_def starts_with_def intro: uri_line_ok tag_line_ok
      split: if_splits option.splits)

lemma hls_lines_ok: "hls_lines ls st = Inr st' \<Longrightarrow> hls_ok st \<Longrightarrow> hls_ok st'"
  by (induction ls arbitrary: st) (auto simp: result_simps dest: hls_line_ok)

lemma hls_parse_state:
  assumes "hls_parse text = Inr p"
  obtains st where "hls_ok st" "hls_finish st = Inr p"
  using assms hls_lines_ok [OF _ hls_ok_init]
  by (auto simp: hls_parse_def Let_def result_simps split: if_splits)

lemma media_parsed:
  assumes "hls_parse text = Inr (Media m)"
  shows "list_all segment_ok (mp_segments m)" "length (mp_segments m) \<le> max_segments"
proof -
  from hls_parse_state [OF assms] obtain st where "hls_ok st" "hls_finish st = Inr (Media m)" .
  then show "list_all segment_ok (mp_segments m)" "length (mp_segments m) \<le> max_segments"
    by (auto simp: hls_finish_def hls_ok_def split: if_splits)
qed

lemma encrypted_iff:
  assumes "list_all segment_ok (mp_segments m)"
  shows "playlist_is_encrypted m \<longleftrightarrow> list_ex (\<lambda>s. seg_key s \<noteq> None) (mp_segments m)"
  using assms by (auto simp: playlist_is_encrypted_def segment_ok_def key_ok_def list_all_iff list_ex_iff
      split: option.splits)

section \<open>The references of a playlist\<close>

text \<open>What a playlist refers to, read off its text: the lines that are neither blank nor start with a hash.\<close>

definition reference_lines :: "string list \<Rightarrow> string list" where
  "reference_lines ls = filter (\<lambda>l. l \<noteq> [] \<and> \<not> starts_with ''#'' l) (map trim ls)"

definition content_lines :: "string \<Rightarrow> string list" where
  "content_lines text = lines (case strip_prefix byte_order_mark text of Some t \<Rightarrow> t | None \<Rightarrow> text)"

abbreviation segment_uris :: "hls_state \<Rightarrow> string list" where
  "segment_uris st \<equiv> map (ref_uri \<circ> seg_resource) (mp_segments (h_media st))"

lemma tag_line_segments:
  "tag_line name value st = Inr st' \<Longrightarrow>
     mp_segments (h_media st') = mp_segments (h_media st) \<and> (h_saw_master st \<longrightarrow> h_saw_master st')"
  unfolding tag_line_def by (auto simp: result_simps split: if_split_asm)

lemma uri_line_segments:
  "uri_line line st = Inr st' \<Longrightarrow> \<not> h_saw_master st' \<Longrightarrow> hls_ok st \<Longrightarrow>
     \<not> h_saw_master st \<and> segment_uris st' = segment_uris st @ [line]"
  by (auto simp: uri_line_def segment_line_def variant_line_def Let_def result_simps hls_ok_def
      split: if_splits option.splits)

lemma hls_line_segments:
  assumes "hls_line line st = Inr st'" "\<not> h_saw_master st'" "hls_ok st"
  shows "\<not> h_saw_master st \<and> segment_uris st' = segment_uris st @ reference_lines [line]"
  using assms
  by (auto simp: hls_line_def Let_def reference_lines_def starts_with_def
      dest: tag_line_segments uri_line_segments split: if_splits option.splits)

lemma hls_lines_segments:
  "hls_lines ls st = Inr st' \<Longrightarrow> \<not> h_saw_master st' \<Longrightarrow> hls_ok st \<Longrightarrow>
     \<not> h_saw_master st \<and> segment_uris st' = segment_uris st @ reference_lines ls"
proof (induction ls arbitrary: st)
  case (Cons l ls)
  then obtain mid where mid: "hls_line l st = Inr mid" "hls_lines ls mid = Inr st'"
    by (auto simp: result_simps)
  from Cons.IH [OF mid(2) Cons.prems(2) hls_line_ok [OF mid(1) Cons.prems(3)]]
    hls_line_segments [OF mid(1) _ Cons.prems(3)]
  show ?case by (auto simp: reference_lines_def comp_def)
qed (simp add: reference_lines_def)

lemma media_references:
  assumes "hls_parse text = Inr (Media m)"
  shows "map (ref_uri \<circ> seg_resource) (mp_segments m) = reference_lines (content_lines text)"
proof -
  obtain st where "hls_lines (content_lines text) hls_init = Inr st" "hls_finish st = Inr (Media m)"
    using assms by (auto simp: hls_parse_def content_lines_def Let_def result_simps split: if_splits)
  with hls_lines_segments [OF _ _ hls_ok_init, of "content_lines text" st] show ?thesis
    by (auto simp: hls_finish_def hls_init_def split: if_splits)
qed

section \<open>Properties\<close>

text \<open>
  C33.  A parsed media playlist has one segment for every line of its text that is neither blank
  nor starts with a hash, in order, whose URI is that line without its surrounding space and never
  a data URI; its byte range is nonempty if it has one, as is that of its initialization map, and
  its key, if it has one, encrypts. There are at most 200,000 segments, and the playlist counts as
  encrypted exactly when some segment has a key. Nothing is said about the scheme of a segment's
  URI, which the planner checks, nor about the URI of a map or a key, which the parser takes as it is.
\<close>

theorem media_playlist_is_well_formed:
  assumes "hls_parse text = Inr (Media m)"
  shows "map (ref_uri \<circ> seg_resource) (mp_segments m) = reference_lines (content_lines text) \<and>
    (\<forall>s \<in> set (mp_segments m).
      uri_ok (ref_uri (seg_resource s)) \<and> byte_range_ok (ref_range (seg_resource s)) \<and>
      map_ok (seg_init s) \<and> key_ok (seg_key s)) \<and>
    length (mp_segments m) \<le> 200000 \<and>
    (playlist_is_encrypted m \<longleftrightarrow> (\<exists>s \<in> set (mp_segments m). seg_key s \<noteq> None))"
  using media_parsed [OF assms] encrypted_iff [of m] media_references [OF assms]
  by (auto simp: list_all_iff list_ex_iff segment_ok_def max_segments_def)

definition sample_text :: string where
  "sample_text = unlines [''#EXTM3U'', ''#EXT-X-KEY:METHOD=AES-128,URI='' @ CHR 0x22 # ''k'' @ [CHR 0x22],
     ''#EXTINF:4.5,'', ''#EXT-X-BYTERANGE:3@1'', ''a.ts'', ''#EXT-X-ENDLIST'']"

theorem media_playlist_is_well_formed_witness:
  "\<exists>m. hls_parse sample_text = Inr (Media m) \<and> playlist_is_encrypted m \<and> length (mp_segments m) = 1 \<and>
     length (mp_segments m) \<le> 200000"
proof -
  have "case hls_parse sample_text of
      Inr (Media m) \<Rightarrow> playlist_is_encrypted m \<and> length (mp_segments m) = 1 | _ \<Rightarrow> False"
    by code_simp
  then show ?thesis using media_playlist_is_well_formed by (auto split: sum.splits playlist.splits)
qed

text \<open>
  The best variant is one of the playlist's variants, none of which has a higher bandwidth
  or, at that bandwidth, a larger picture; there is one whenever the playlist has a variant.
\<close>

theorem best_variant_is_maximal:
  "(case best_variant m of
      None \<Rightarrow> ms_variants m = []
    | Some v \<Rightarrow> v \<in> set (ms_variants m) \<and> (\<forall>w \<in> set (ms_variants m). variant_rank w \<le> variant_rank v))"
  using max_by_key_Some [of variant_rank "ms_variants m"] by (simp add: best_variant_def split: option.splits)

theorem best_variant_is_maximal_witness:
  "\<exists>v. best_variant
     \<lparr>ms_variants =
        [\<lparr>var_uri = ''a'', var_bandwidth = Some 1, var_width = None, var_height = None, var_codecs = None,
          var_audio_group = None\<rparr>,
         \<lparr>var_uri = ''b'', var_bandwidth = Some 2, var_width = None, var_height = None, var_codecs = None,
          var_audio_group = None\<rparr>],
      ms_renditions = [], ms_iframe_variants = []\<rparr> = Some v \<and> var_uri v = ''b''"
  (is "\<exists>v. best_variant ?m = Some v \<and> _")
proof -
  from best_variant_is_maximal [of ?m] obtain v where v: "best_variant ?m = Some v" "v \<in> set (ms_variants ?m)"
    and "\<forall>w \<in> set (ms_variants ?m). variant_rank w \<le> variant_rank v"
    by (cases "best_variant ?m") simp_all
  moreover have "\<not> (2 :: u64) \<le> 1" by (simp add: word_le_nat_alt)
  ultimately have "var_uri v = ''b''" by (auto simp: variant_rank_def unwrap_or_def less_eq_prod_def)
  with v show ?thesis by blast
qed

text \<open>
  The end of a byte range is added without a check: after a range of 2^64 - 1 bytes at
  offset 1, a range of the same resource that gives no offset starts at 0, where a build that
  checks the addition panics.
\<close>

definition wrapping_text :: string where
  "wrapping_text = unlines [''#EXTM3U'', ''#EXT-X-BYTERANGE:18446744073709551615@1'', ''a'', ''#EXT-X-BYTERANGE:5'', ''a'']"

lemma implicit_offset_wraps:
  "(case hls_parse wrapping_text of
      Inr (Media m) \<Rightarrow> map (\<lambda>s. ref_range (seg_resource s)) (mp_segments m) =
        [Some \<lparr>br_length = 18446744073709551615, br_offset = Some 1\<rparr>, Some \<lparr>br_length = 5, br_offset = Some 0\<rparr>]
    | _ \<Rightarrow> False)"
  by code_simp

end
