(* ===== verification/Hls_Roundtrip.thy ===== *)
theory Hls_Roundtrip
  imports Hls_Correct
begin

text \<open>
  A printer for media playlists and the proof that the parser inverts it: durations in seconds
  with three decimals, byte ranges, keys, initialization maps, discontinuities and sequence
  numbers.
\<close>

section \<open>Printing\<close>

definition quoted :: "string \<times> string \<Rightarrow> string" where
  "quoted a = fst a @ ''='' @ CHR 0x22 # snd a @ [CHR 0x22]"

fun attribute_list :: "(string \<times> string) list \<Rightarrow> string" where
  "attribute_list [] = []"
| "attribute_list [a] = quoted a"
| "attribute_list (a # as) = quoted a @ CHR '','' # attribute_list as"

definition optional_attribute :: "string \<Rightarrow> string option \<Rightarrow> (string \<times> string) list" where
  "optional_attribute name v = (case v of Some s \<Rightarrow> [(name, s)] | None \<Rightarrow> [])"

definition digit_char :: "nat \<Rightarrow> char" where
  "digit_char d = char_of (48 + d)"

definition show_seconds :: "nat \<Rightarrow> string" where
  "show_seconds n = show_nat (n div 1000) @ ''.'' @
     [digit_char (n div 100 mod 10), digit_char (n div 10 mod 10), digit_char (n mod 10)]"

definition byte_range_shown :: "byte_range \<Rightarrow> string" where
  "byte_range_shown r = show_word (br_length r) @
     (case br_offset r of Some offset \<Rightarrow> ''@'' @ show_word offset | None \<Rightarrow> [])"

definition key_attributes :: "key_ref option \<Rightarrow> (string \<times> string) list" where
  "key_attributes k =
     (case k of
        None \<Rightarrow> [(''METHOD'', ''NONE'')]
      | Some k \<Rightarrow> (''METHOD'', key_method k) # optional_attribute ''URI'' (key_uri k) @
          optional_attribute ''IV'' (key_iv k))"

definition map_attributes :: "resource_ref \<Rightarrow> (string \<times> string) list" where
  "map_attributes m = (''URI'', ref_uri m) # optional_attribute ''BYTERANGE'' (map_option byte_range_shown (ref_range m))"

definition key_lines :: "segment \<Rightarrow> string list" where
  "key_lines s = [''#EXT-X-MEDIA-SEQUENCE:'' @ show_word (seg_sequence s),
      ''#EXT-X-KEY:'' @ attribute_list (key_attributes (seg_key s))]"

definition map_lines :: "segment \<Rightarrow> string list" where
  "map_lines s =
     (case seg_init s of Some m \<Rightarrow> [''#EXT-X-MAP:'' @ attribute_list (map_attributes m)] | None \<Rightarrow> [])"

definition flag_lines :: "segment \<Rightarrow> string list" where
  "flag_lines s =
     (if seg_discontinuity s then [''#EXT-X-DISCONTINUITY''] else []) @
     (case seg_duration s of Some d \<Rightarrow> [''#EXTINF:'' @ show_seconds (unat d) @ '','' ] | None \<Rightarrow> []) @
     (case ref_range (seg_resource s) of Some r \<Rightarrow> [''#EXT-X-BYTERANGE:'' @ byte_range_shown r] | None \<Rightarrow> [])"

definition segment_lines :: "segment \<Rightarrow> string list" where
  "segment_lines s = (key_lines s @ map_lines s @ flag_lines s) @ [ref_uri (seg_resource s)]"

definition playlist_lines :: "media_playlist \<Rightarrow> string list" where
  "playlist_lines p = ''#EXTM3U'' #
     (case mp_target_duration p of Some n \<Rightarrow> [''#EXT-X-TARGETDURATION:'' @ show_word n] | None \<Rightarrow> []) @
     concat (map segment_lines (mp_segments p)) @
     (if mp_ended p then [''#EXT-X-ENDLIST''] else [])"

definition playlist_text :: "media_playlist \<Rightarrow> string" where
  "playlist_text p = unlines (playlist_lines p)"

text \<open>Values without quotes and line breaks, and URIs that are lines of their own.\<close>

definition value_ok :: "string \<Rightarrow> bool" where
  "value_ok s \<longleftrightarrow> CHR 0x22 \<notin> set s \<and> CHR 0x0A \<notin> set s"

definition line_uri_ok :: "string \<Rightarrow> bool" where
  "line_uri_ok u \<longleftrightarrow> uri_ok u \<and> trim u = u \<and> CHR 0x0A \<notin> set u \<and> strip_cr u = u"

definition printable_segment :: "segment \<Rightarrow> bool" where
  "printable_segment s \<longleftrightarrow>
     line_uri_ok (ref_uri (seg_resource s)) \<and>
     (case ref_range (seg_resource s) of None \<Rightarrow> True | Some r \<Rightarrow> br_length r \<noteq> 0 \<and> br_offset r \<noteq> None) \<and>
     (case seg_duration s of None \<Rightarrow> True | Some d \<Rightarrow> unat d < 2 ^ 50) \<and>
     (case seg_key s of None \<Rightarrow> True | Some k \<Rightarrow> key_is_encrypted k \<and> value_ok (key_method k) \<and>
        list_all value_ok (map snd (optional_attribute ''URI'' (key_uri k) @ optional_attribute ''IV'' (key_iv k)))) \<and>
     (case seg_init s of None \<Rightarrow> True | Some m \<Rightarrow> value_ok (ref_uri m) \<and>
        (case ref_range m of None \<Rightarrow> True | Some r \<Rightarrow> br_length r \<noteq> 0))"

text \<open>The format cannot take an initialization map back.\<close>

fun maps_stay :: "resource_ref option \<Rightarrow> segment list \<Rightarrow> bool" where
  "maps_stay m [] \<longleftrightarrow> True"
| "maps_stay m (s # ss) \<longleftrightarrow> (seg_init s = None \<longrightarrow> m = None) \<and> maps_stay (seg_init s) ss"

definition printable_playlist :: "media_playlist \<Rightarrow> bool" where
  "printable_playlist p \<longleftrightarrow> mp_segments p \<noteq> [] \<and> length (mp_segments p) \<le> max_segments \<and>
     list_all printable_segment (mp_segments p) \<and> maps_stay None (mp_segments p)"

section \<open>Numbers and lists\<close>

lemma show_word_plain: "list_all plain_char (show_word w)" "show_word w \<noteq> []"
  using show_nat_digits [of "unat w"]
  by (auto simp: show_word_def all_digits_def list_all_iff plain_char_def is_ascii_digit_def)

lemma show_nat_all_digits: "list_all is_ascii_digit (show_nat n)" "show_nat n \<noteq> []"
  using show_nat_digits [of n] by (auto simp: all_digits_def)

lemma digit_char [simp]: "d < 10 \<Longrightarrow> is_ascii_digit (digit_char d)" "d < 10 \<Longrightarrow> digit_val (digit_char d) = d"
  by (simp_all add: digit_char_def is_ascii_digit_def digit_val_def)

lemma seconds_digits:
  "decimal (show_nat (n div 1000) @ [digit_char (n div 100 mod 10), digit_char (n div 10 mod 10), digit_char (n mod 10)]) = n"
proof -
  have "n = 1000 * (n div 1000) + 100 * (n div 100 mod 10) + 10 * (n div 10 mod 10) + n mod 10"
    using mod_mult2_eq [of n 100 10] mod_mult2_eq [of n 10 10] div_mult_mod_eq [of n 1000] by simp
  moreover have "decimal [a, b, c] = 100 * digit_val a + 10 * digit_val b + digit_val c" for a b c
    by (simp add: decimal_def)
  ultimately show ?thesis by (simp add: decimal_append_all)
qed

lemma takeWhile_digits:
  "list_all is_ascii_digit s \<Longrightarrow> \<not> is_ascii_digit c \<Longrightarrow> takeWhile is_ascii_digit (s @ c # t) = s"
  "list_all is_ascii_digit s \<Longrightarrow> \<not> is_ascii_digit c \<Longrightarrow> dropWhile is_ascii_digit (s @ c # t) = c # t"
  by (induction s) simp_all

lemma parse_seconds: "parse_f64 (show_seconds n) = Some (f64_of_decimal False (int n) (- 3))"
proof -
  obtain c s where cs: "show_nat (n div 1000) = c # s" "is_ascii_digit c"
    using show_nat_all_digits [of "n div 1000"] by (cases "show_nat (n div 1000)") auto
  have dot: "\<not> is_ascii_digit (CHR ''.'')" by (simp add: is_ascii_digit_def byte_def)
  have "c \<noteq> CHR ''-''" "c \<noteq> CHR ''+''" using cs(2) by (auto simp: is_ascii_digit_def byte_def)
  moreover have "ascii_lower c \<noteq> CHR ''i''" "ascii_lower c \<noteq> CHR ''n''"
    using cs(2) by (auto simp: is_ascii_digit_def byte_def ascii_lower_def)
  moreover have "parse_f64_number False (show_seconds n) = Some (f64_of_decimal False (int n) (- 3))"
    using seconds_digits [of n]
    by (simp add: parse_f64_number_def take_digits_def show_seconds_def takeWhile_digits [OF show_nat_all_digits(1) dot]
        dot parse_exponent_def decimal_int [symmetric])
  ultimately show ?thesis
    by (simp add: parse_f64_def show_seconds_def cs(1) eq_ignore_ascii_case_def to_ascii_lowercase_def)
       (simp add: ascii_lower_def byte_def)?
qed

lemma seconds_chars: "c \<in> set (show_seconds n) \<Longrightarrow> is_ascii_digit c \<or> c = CHR ''.''"
  using show_nat_all_digits [of "n div 1000"] by (auto simp: show_seconds_def list_all_iff)

lemma show_seconds_plain: "list_all plain_char (show_seconds n)"
  using show_nat_all_digits [of "n div 1000"]
  by (auto simp: show_seconds_def list_all_iff plain_char_def is_ascii_digit_def digit_char_def byte_def)

lemma duration_seconds: "n < 2 ^ 50 \<Longrightarrow> parse_duration_millis (show_seconds n) = Inr (of_nat n)"
proof (cases "n = 0")
  case True
  then show ?thesis
    by (simp add: parse_duration_millis_def trim_plain [OF show_seconds_plain] parse_seconds f64_of_decimal_def
        fin_mult_def scaled_def f64_of_ratio_def fin_round_def saturate_u64_def)
next
  case False
  assume n: "n < 2 ^ 50"
  then have "0 < int n" "int n < 2 ^ 50" using False by simp_all
  then obtain m e m' e' where r: "f64_of_ratio False (int n) 1000 = F64Finite False m e" "0 < m"
    "fin_mult m e 1000 = F64Finite False m' e'" "fin_round m' e' = int n"
    by (rule milliseconds_rounded)
  have "f64_of_decimal False (int n) (- 3) = F64Finite False m e"
    using r(1) False by (simp add: f64_of_decimal_def)
  moreover have "saturate_u64 (int n) = of_nat n" using n False by (simp add: saturate_u64_def)
  ultimately show ?thesis
    using r by (simp add: parse_duration_millis_def trim_plain [OF show_seconds_plain] parse_seconds)
qed

lemma byte_range_text: "br_length r \<noteq> 0 \<Longrightarrow> byte_range_parse (byte_range_shown r) = Inr r"
proof -
  assume nz: "br_length r \<noteq> 0"
  have at: "CHR ''@'' \<notin> set (show_word w)" for w :: u64
    using show_nat_digits [of "unat w"]
    by (auto simp: show_word_def all_digits_def list_all_iff is_ascii_digit_def byte_def)
  then have "split_once (CHR ''@'') (show_word w) = None" for w :: u64 by (simp add: split_once_None)
  with nz at show ?thesis
    by (cases "br_offset r")
       (simp_all add: byte_range_parse_def byte_range_shown_def trim_plain [OF show_word_plain(1)])
qed

section \<open>Attribute lists\<close>

definition attribute_ok :: "string \<times> string \<Rightarrow> bool" where
  "attribute_ok a \<longleftrightarrow> fst a \<noteq> [] \<and> list_all plain_char (fst a) \<and> CHR ''='' \<notin> set (fst a) \<and>
     CHR 0x22 \<notin> set (snd a)"

lemma attribute_step:
  assumes "attribute_ok a" "tail = [] \<or> (\<exists>c t. tail = CHR '','' # c # t \<and> plain_char c)"
  shows "hls_attribute_loop as (quoted a @ tail) = hls_attribute_loop (as @ [a]) (drop 1 tail)"
proof -
  have eq: "split_once (CHR ''='') (quoted a @ tail) = Some (fst a, CHR 0x22 # snd a @ CHR 0x22 # tail)"
    using assms(1) by (simp add: quoted_def attribute_ok_def split_once_Some)
  have comma: "plain_char (CHR '','')" by (simp add: plain_char_def byte_def)
  have "hls_value (CHR 0x22 # snd a @ CHR 0x22 # tail) = Inr (snd a, drop 1 tail)"
    using assms by (auto simp: hls_value_def attribute_ok_def trim_start_plain [OF comma])
  moreover have "trim_start (drop 1 tail) = drop 1 tail" using assms(2) by (auto simp: trim_start_plain)
  moreover have "quoted a \<noteq> []" by (simp add: quoted_def)
  ultimately show ?thesis
    using assms(1) eq by (subst hls_attribute_loop.simps)
      (simp add: attribute_ok_def trim_plain contains_ws_plain)
qed

lemma attribute_list_front: "as \<noteq> [] \<Longrightarrow> list_all attribute_ok as \<Longrightarrow>
    \<exists>c t. attribute_list as = c # t \<and> plain_char c"
  by (cases as rule: attribute_list.cases; cases "fst (hd as)") (auto simp: quoted_def attribute_ok_def)

lemma attribute_list_loop:
  "list_all attribute_ok as \<Longrightarrow> hls_attribute_loop ds (attribute_list as) = Inr (ds @ as)"
proof (induction as arbitrary: ds rule: attribute_list.induct)
  case 1
  then show ?case by (simp add: hls_attribute_loop.simps)
next
  case (2 a)
  then show ?case using attribute_step [of a "[]" ds] by (simp add: hls_attribute_loop.simps [of _ "[]"])
next
  case (3 a b as)
  then obtain c t where ct: "attribute_list (b # as) = c # t" "plain_char c"
    using attribute_list_front [of "b # as"] by auto
  then have "hls_attribute_loop ds (attribute_list (a # b # as)) = hls_attribute_loop (ds @ [a]) (attribute_list (b # as))"
    using attribute_step [of a "CHR '','' # attribute_list (b # as)" ds] 3 by auto
  with 3 show ?case by simp
qed

lemma attribute_list_parsed: "list_all attribute_ok as \<Longrightarrow> hls_attributes (attribute_list as) = Inr as"
  by (simp add: hls_attributes_def attribute_list_loop)

lemma known_names:
  "attribute_ok (''METHOD'', v) = (CHR 0x22 \<notin> set v)" "attribute_ok (''URI'', v) = (CHR 0x22 \<notin> set v)"
  "attribute_ok (''IV'', v) = (CHR 0x22 \<notin> set v)" "attribute_ok (''BYTERANGE'', v) = (CHR 0x22 \<notin> set v)"
  by (simp_all add: attribute_ok_def plain_char_def byte_def)

lemma distinct_names:
  "eq_ignore_ascii_case ''METHOD'' ''METHOD''" "eq_ignore_ascii_case ''URI'' ''URI''"
  "eq_ignore_ascii_case ''IV'' ''IV''" "eq_ignore_ascii_case ''BYTERANGE'' ''BYTERANGE''"
  "\<not> eq_ignore_ascii_case ''METHOD'' ''URI''" "\<not> eq_ignore_ascii_case ''METHOD'' ''IV''"
  "\<not> eq_ignore_ascii_case ''URI'' ''IV''" "\<not> eq_ignore_ascii_case ''IV'' ''URI''"
  "\<not> eq_ignore_ascii_case ''URI'' ''BYTERANGE''"
  by code_simp+

lemma byte_range_chars: "CHR 0x22 \<notin> set (byte_range_shown r)" "CHR 0x0A \<notin> set (byte_range_shown r)"
proof -
  have "c \<notin> set (show_word w)" if "\<not> is_ascii_digit c" for c and w :: u64
    using show_nat_digits [of "unat w"] that by (auto simp: show_word_def all_digits_def list_all_iff)
  then show "CHR 0x22 \<notin> set (byte_range_shown r)" "CHR 0x0A \<notin> set (byte_range_shown r)"
    by (auto simp: byte_range_shown_def is_ascii_digit_def byte_def split: option.splits)
qed

lemma key_parsed:
  assumes "case k of None \<Rightarrow> True | Some k \<Rightarrow> key_is_encrypted k \<and> value_ok (key_method k) \<and>
        list_all value_ok (map snd (optional_attribute ''URI'' (key_uri k) @ optional_attribute ''IV'' (key_iv k)))"
  shows "rbind (hls_attributes (attribute_list (key_attributes k))) key_of = Inr k"
proof (cases k)
  case None
  have "key_of [(''METHOD'', ''NONE'')] = Inr None" by code_simp
  moreover have "hls_attributes (attribute_list [(''METHOD'', ''NONE'')]) = Inr [(''METHOD'', ''NONE'')]"
    by (rule attribute_list_parsed) (simp add: known_names)
  ultimately show ?thesis using None by (simp add: key_attributes_def)
next
  case (Some r)
  with assms have "list_all attribute_ok (key_attributes k)"
    by (auto simp: key_attributes_def known_names value_ok_def optional_attribute_def split: option.splits)
  moreover have "key_of (key_attributes k) = Inr k"
    using assms Some
    by (cases r; cases "key_uri r"; cases "key_iv r")
       (simp_all add: key_of_def key_attributes_def hls_get_def optional_attribute_def distinct_names key_is_encrypted_def)
  ultimately show ?thesis by (simp add: attribute_list_parsed)
qed

lemma map_parsed:
  assumes "value_ok (ref_uri m)" "case ref_range m of None \<Rightarrow> True | Some r \<Rightarrow> br_length r \<noteq> 0"
  shows "rbind (hls_attributes (attribute_list (map_attributes m))) map_of_attributes = Inr m"
proof -
  have "list_all attribute_ok (map_attributes m)"
    using assms(1) by (auto simp: map_attributes_def known_names value_ok_def optional_attribute_def byte_range_chars
        split: option.splits)
  moreover have "map_of_attributes (map_attributes m) = Inr m"
    using assms(2)
    by (cases m; cases "ref_range m")
       (simp_all add: map_of_attributes_def map_attributes_def hls_get_def optional_attribute_def distinct_names
         byte_range_text)
  ultimately show ?thesis by (simp add: attribute_list_parsed)
qed

section \<open>Lines\<close>

text \<open>A tag line whose last character is printable.\<close>

lemma tag_line_text:
  assumes "plain_char d" "CHR '':'' \<notin> set name" "value = v @ [d]"
  shows "hls_line (CHR ''#'' # name @ CHR '':'' # value) st = tag_line name (Some value) st"
proof -
  have "plain_char (CHR ''#'')" by (simp add: plain_char_def byte_def)
  then have "trim (CHR ''#'' # (name @ CHR '':'' # v) @ [d]) = CHR ''#'' # (name @ CHR '':'' # v) @ [d]"
    using assms(1) by (rule trim_plain_ends)
  then show ?thesis using assms(2,3) by (simp add: hls_line_def)
qed

lemma bare_tag_line:
  assumes "plain_char d" "CHR '':'' \<notin> set name" "name = v @ [d]"
  shows "hls_line (CHR ''#'' # name) st = tag_line name None st"
proof -
  have "plain_char (CHR ''#'')" by (simp add: plain_char_def byte_def)
  then have "trim (CHR ''#'' # v @ [d]) = CHR ''#'' # v @ [d]" using assms(1) by (rule trim_plain_ends)
  moreover have "split_once (CHR '':'') name = None" using assms(2) by (simp add: split_once_None)
  ultimately show ?thesis using assms(3) by (simp add: hls_line_def)
qed

lemma plain_last: "list_all plain_char s \<Longrightarrow> s \<noteq> [] \<Longrightarrow> \<exists>v d. s = v @ [d] \<and> plain_char d"
  by (cases s rule: rev_cases) auto

lemma quote_plain: "plain_char (CHR 0x22)" by (simp add: plain_char_def byte_def)

lemma attribute_list_last: "as \<noteq> [] \<Longrightarrow> \<exists>v. attribute_list as = v @ [CHR 0x22]"
  by (induction as rule: attribute_list.induct) (auto simp: quoted_def)

lemma word_value_last: "\<exists>v d. show_word w = v @ [d] \<and> plain_char d"
  by (rule plain_last [OF show_word_plain])

lemma sequence_line:
  "hls_line (''#EXT-X-MEDIA-SEQUENCE:'' @ show_word n) st = Inr (st\<lparr>h_sequence := n, h_saw_media := True\<rparr>)"
proof -
  from word_value_last obtain v d where "show_word n = v @ [d]" "plain_char d" by blast
  then have "hls_line (CHR ''#'' # ''EXT-X-MEDIA-SEQUENCE'' @ CHR '':'' # show_word n) st =
      tag_line ''EXT-X-MEDIA-SEQUENCE'' (Some (show_word n)) st"
    by (intro tag_line_text) simp_all
  then show ?thesis by (simp add: tag_line_def trim_plain [OF show_word_plain(1)])
qed

lemma target_line:
  "hls_line (''#EXT-X-TARGETDURATION:'' @ show_word n) st =
     Inr (st\<lparr>h_media := (h_media st)\<lparr>mp_target_duration := Some n\<rparr>, h_saw_media := True\<rparr>)"
proof -
  from word_value_last obtain v d where "show_word n = v @ [d]" "plain_char d" by blast
  then have "hls_line (CHR ''#'' # ''EXT-X-TARGETDURATION'' @ CHR '':'' # show_word n) st =
      tag_line ''EXT-X-TARGETDURATION'' (Some (show_word n)) st"
    by (intro tag_line_text) simp_all
  then show ?thesis by (simp add: tag_line_def trim_plain [OF show_word_plain(1)])
qed

lemma key_line:
  assumes "rbind (hls_attributes (attribute_list (key_attributes k))) key_of = Inr k"
  shows "hls_line (''#EXT-X-KEY:'' @ attribute_list (key_attributes k)) st = Inr (st\<lparr>h_key := k, h_saw_media := True\<rparr>)"
proof -
  have "key_attributes k \<noteq> []" by (cases k) (simp_all add: key_attributes_def)
  then obtain v where "attribute_list (key_attributes k) = v @ [CHR 0x22]" using attribute_list_last by blast
  with quote_plain have "hls_line (CHR ''#'' # ''EXT-X-KEY'' @ CHR '':'' # attribute_list (key_attributes k)) st =
      tag_line ''EXT-X-KEY'' (Some (attribute_list (key_attributes k))) st"
    by (intro tag_line_text) simp_all
  then show ?thesis using assms by (auto simp: tag_line_def result_simps)
qed

lemma map_line:
  assumes "rbind (hls_attributes (attribute_list (map_attributes m))) map_of_attributes = Inr m"
  shows "hls_line (''#EXT-X-MAP:'' @ attribute_list (map_attributes m)) st = Inr (st\<lparr>h_map := Some m, h_saw_media := True\<rparr>)"
proof -
  have "map_attributes m \<noteq> []" by (simp add: map_attributes_def)
  then obtain v where "attribute_list (map_attributes m) = v @ [CHR 0x22]" using attribute_list_last by blast
  with quote_plain have "hls_line (CHR ''#'' # ''EXT-X-MAP'' @ CHR '':'' # attribute_list (map_attributes m)) st =
      tag_line ''EXT-X-MAP'' (Some (attribute_list (map_attributes m))) st"
    by (intro tag_line_text) simp_all
  then show ?thesis using assms by (auto simp: tag_line_def result_simps)
qed

lemma duration_line:
  assumes "unat d < 2 ^ 50"
  shows "hls_line (''#EXTINF:'' @ show_seconds (unat d) @ '','') st =
    Inr (st\<lparr>h_pending_duration := Some d, h_saw_media := True\<rparr>)"
proof -
  have "plain_char (CHR '','')" by (simp add: plain_char_def byte_def)
  then have "hls_line (CHR ''#'' # ''EXTINF'' @ CHR '':'' # (show_seconds (unat d) @ '','')) st =
      tag_line ''EXTINF'' (Some (show_seconds (unat d) @ '','')) st"
    by (intro tag_line_text [where v = "show_seconds (unat d)"]) simp_all
  moreover have "CHR '','' \<notin> set (show_seconds (unat d))"
    using seconds_chars [of "CHR '',''" "unat d"] by (auto simp: is_ascii_digit_def byte_def)
  then have "hd (split_on (CHR '','') (show_seconds (unat d) @ '','')) = show_seconds (unat d)"
    by (simp add: split_on_append)
  ultimately show ?thesis using duration_seconds [OF assms] by (simp add: tag_line_def)
qed

lemma range_line:
  assumes "br_length r \<noteq> 0"
  shows "hls_line (''#EXT-X-BYTERANGE:'' @ byte_range_shown r) st = Inr (st\<lparr>h_pending_range := Some r, h_saw_media := True\<rparr>)"
proof -
  have "\<exists>v d. byte_range_shown r = v @ [d] \<and> plain_char d"
    using word_value_last [of "br_length r"] word_value_last [of "the (br_offset r)"]
    by (cases "br_offset r") (auto simp: byte_range_shown_def)
  then obtain v d where "byte_range_shown r = v @ [d]" "plain_char d" by blast
  then have "hls_line (CHR ''#'' # ''EXT-X-BYTERANGE'' @ CHR '':'' # byte_range_shown r) st =
      tag_line ''EXT-X-BYTERANGE'' (Some (byte_range_shown r)) st"
    by (intro tag_line_text) simp_all
  then show ?thesis using byte_range_text [OF assms] by (simp add: tag_line_def)
qed

lemma bare_lines:
  "hls_line ''#EXT-X-DISCONTINUITY'' st = Inr (st\<lparr>h_discontinuity := True, h_saw_media := True\<rparr>)"
  "hls_line ''#EXT-X-ENDLIST'' st = Inr (st\<lparr>h_media := (h_media st)\<lparr>mp_ended := True\<rparr>, h_saw_media := True\<rparr>)"
  "hls_line ''#EXTM3U'' st = Inr st"
proof -
  have p: "plain_char (CHR ''Y'')" "plain_char (CHR ''T'')" "plain_char (CHR ''U'')"
    by (simp_all add: plain_char_def byte_def)
  show "hls_line ''#EXT-X-DISCONTINUITY'' st = Inr (st\<lparr>h_discontinuity := True, h_saw_media := True\<rparr>)"
    by (subst bare_tag_line [OF p(1), where v = "''EXT-X-DISCONTINUIT''"]) (simp_all add: tag_line_def)
  show "hls_line ''#EXT-X-ENDLIST'' st = Inr (st\<lparr>h_media := (h_media st)\<lparr>mp_ended := True\<rparr>, h_saw_media := True\<rparr>)"
    by (subst bare_tag_line [OF p(2), where v = "''EXT-X-ENDLIS''"]) (simp_all add: tag_line_def)
  show "hls_line ''#EXTM3U'' st = Inr st"
    by (subst bare_tag_line [OF p(3), where v = "''EXTM3''"]) (simp_all add: tag_line_def)
qed

lemma uri_line_read: "line_uri_ok u \<Longrightarrow> hls_line u st = uri_line u st"
  by (auto simp: line_uri_ok_def uri_ok_def hls_line_def starts_with_def split: option.splits)

section \<open>Segments\<close>

text \<open>The state between two segments.\<close>

definition between :: "media_playlist \<Rightarrow> resource_ref option \<Rightarrow> hls_state \<Rightarrow> bool" where
  "between m i st \<longleftrightarrow> h_media st = m \<and> h_map st = i \<and> h_pending_stream_inf st = None \<and>
     h_pending_duration st = None \<and> h_pending_range st = None \<and> \<not> h_discontinuity st \<and>
     \<not> h_saw_master st"

lemma hls_lines_append: "hls_lines (a @ b) st = rbind (hls_lines a st) (hls_lines b)"
proof (induction a arbitrary: st)
  case (Cons l a)
  then show ?case by (cases "hls_line l st") simp_all
qed simp

text \<open>The state after the tags of a segment, before its URI.\<close>

definition ready_for :: "segment \<Rightarrow> media_playlist \<Rightarrow> hls_state \<Rightarrow> bool" where
  "ready_for s m st \<longleftrightarrow> h_media st = m \<and> h_map st = seg_init s \<and> h_key st = seg_key s \<and>
     h_sequence st = seg_sequence s \<and> h_discontinuity st = seg_discontinuity s \<and>
     h_pending_duration st = seg_duration s \<and> h_pending_range st = ref_range (seg_resource s) \<and>
     h_pending_stream_inf st = None \<and> \<not> h_saw_master st"

lemma explicit_offset:
  assumes "printable_segment s" "h_pending_range st = ref_range (seg_resource s)"
  shows "resolved_offset st u = Option.bind (ref_range (seg_resource s)) br_offset"
    and "map_option (\<lambda>r. \<lparr>br_length = br_length r, br_offset = Option.bind (ref_range (seg_resource s)) br_offset\<rparr>)
      (ref_range (seg_resource s)) = ref_range (seg_resource s)"
  using assms by (auto simp: resolved_offset_def printable_segment_def split: option.splits)

lemma segment_uri_read:
  assumes "printable_segment s" "ready_for s m st" "length (mp_segments m) < max_segments"
  shows "\<exists>st'. hls_line (ref_uri (seg_resource s)) st = Inr st' \<and> h_saw_media st' \<and>
    between (m\<lparr>mp_segments := mp_segments m @ [s]\<rparr>) (seg_init s) st'"
proof -
  have u: "line_uri_ok (ref_uri (seg_resource s))" using assms(1) by (simp add: printable_segment_def)
  have pend: "h_pending_range st = ref_range (seg_resource s)" using assms(2) by (simp add: ready_for_def)
  have "hls_line (ref_uri (seg_resource s)) st = segment_line (ref_uri (seg_resource s)) st"
    using u assms(2) by (simp add: uri_line_read uri_line_def ready_for_def line_uri_ok_def uri_ok_def)
  moreover have "\<lparr>seg_resource = \<lparr>ref_uri = ref_uri (seg_resource s), ref_range = ref_range (seg_resource s)\<rparr>,
      seg_duration = seg_duration s, seg_sequence = seg_sequence s, seg_init = seg_init s, seg_key = seg_key s,
      seg_discontinuity = seg_discontinuity s\<rparr> = s"
    by simp
  ultimately show ?thesis
    using assms(2,3) unfolding segment_line_def Let_def explicit_offset [OF assms(1) pend]
    by (simp add: pend explicit_offset [OF assms(1) pend] ready_for_def between_def)
qed

lemma key_lines_read:
  assumes "printable_segment s"
  shows "hls_lines (key_lines s) st = Inr (st\<lparr>h_sequence := seg_sequence s, h_saw_media := True, h_key := seg_key s\<rparr>)"
proof -
  have key: "rbind (hls_attributes (attribute_list (key_attributes (seg_key s)))) key_of = Inr (seg_key s)"
    using assms by (intro key_parsed) (auto simp: printable_segment_def)
  show ?thesis
    by (simp only: key_lines_def hls_lines.simps sequence_line key_line [OF key] rbind_simps) simp
qed

lemma map_lines_read:
  assumes "printable_segment s" "seg_init s = None \<longrightarrow> h_map st = None" "h_saw_media st"
  shows "hls_lines (map_lines s) st = Inr (st\<lparr>h_map := seg_init s\<rparr>)"
proof (cases "seg_init s")
  case None
  with assms(2) show ?thesis by (cases st) (simp add: map_lines_def)
next
  case (Some r)
  then have "rbind (hls_attributes (attribute_list (map_attributes r))) map_of_attributes = Inr r"
    using assms(1) by (intro map_parsed) (auto simp: printable_segment_def)
  with Some assms(3) show ?thesis
    by (cases st) (simp only: map_lines_def hls_lines.simps option.case map_line rbind_simps, simp)
qed

lemma flag_lines_read:
  assumes "printable_segment s" "\<not> h_discontinuity st" "h_pending_duration st = None"
    "h_pending_range st = None" "h_saw_media st"
  shows "hls_lines (flag_lines s) st = Inr (st\<lparr>h_discontinuity := seg_discontinuity s,
    h_pending_duration := seg_duration s, h_pending_range := ref_range (seg_resource s)\<rparr>)"
  using assms
  by (cases st; cases "seg_duration s"; cases "ref_range (seg_resource s)"; cases "seg_discontinuity s")
     (simp_all del: append.simps add: flag_lines_def hls_lines_append printable_segment_def
        duration_line range_line bare_lines)

lemma segment_lines_read:
  assumes "printable_segment s" "between m i st" "seg_init s = None \<longrightarrow> i = None"
    "length (mp_segments m) < max_segments"
  shows "\<exists>st'. hls_lines (segment_lines s) st = Inr st' \<and> h_saw_media st' \<and>
    between (m\<lparr>mp_segments := mp_segments m @ [s]\<rparr>) (seg_init s) st'"
proof -
  define st1 where "st1 = st\<lparr>h_sequence := seg_sequence s, h_saw_media := True, h_key := seg_key s, h_map := seg_init s,
    h_discontinuity := seg_discontinuity s, h_pending_duration := seg_duration s,
    h_pending_range := ref_range (seg_resource s)\<rparr>"
  have "hls_lines (key_lines s @ map_lines s @ flag_lines s) st = Inr st1"
    using assms(2,3) by (simp add: hls_lines_append key_lines_read [OF assms(1)] map_lines_read [OF assms(1)]
      flag_lines_read [OF assms(1)] between_def st1_def)
  moreover have "ready_for s m st1" using assms(2) by (simp add: ready_for_def st1_def between_def)
  then obtain st2 where "hls_line (ref_uri (seg_resource s)) st1 = Inr st2" "h_saw_media st2"
    "between (m\<lparr>mp_segments := mp_segments m @ [s]\<rparr>) (seg_init s) st2"
    using segment_uri_read [OF assms(1) _ assms(4)] by blast
  ultimately show ?thesis unfolding segment_lines_def hls_lines_append [of "key_lines s @ _"] by simp
qed

lemma all_segments_read:
  assumes "list_all printable_segment ss" "between m i st" "maps_stay i ss"
    "length (mp_segments m) + length ss \<le> max_segments"
  shows "\<exists>st' j. hls_lines (concat (map segment_lines ss)) st = Inr st' \<and> (ss \<noteq> [] \<longrightarrow> h_saw_media st') \<and>
    between (m\<lparr>mp_segments := mp_segments m @ ss\<rparr>) j st'"
  using assms
proof (induction ss arbitrary: m i st)
  case Nil
  then show ?case by auto
next
  case (Cons s ss)
  obtain st1 where st1: "hls_lines (segment_lines s) st = Inr st1" "h_saw_media st1"
    "between (m\<lparr>mp_segments := mp_segments m @ [s]\<rparr>) (seg_init s) st1"
    using segment_lines_read [of s m i st] Cons.prems by auto
  obtain st2 j where "hls_lines (concat (map segment_lines ss)) st1 = Inr st2" "ss \<noteq> [] \<longrightarrow> h_saw_media st2"
    "between (m\<lparr>mp_segments := mp_segments m @ s # ss\<rparr>) j st2"
    using Cons.IH [OF _ st1(3)] Cons.prems by auto
  moreover from this(1) st1(1) have "hls_lines (concat (map segment_lines (s # ss))) st = Inr st2"
    by (simp add: hls_lines_append)
  ultimately show ?case using st1(2) by (cases ss) auto
qed

section \<open>The whole playlist\<close>

definition one_line :: "string \<Rightarrow> bool" where
  "one_line l \<longleftrightarrow> CHR 0x0A \<notin> set l \<and> strip_cr l = l"

lemma one_lineI: "CHR 0x0A \<notin> set v \<Longrightarrow> plain_char d \<Longrightarrow> one_line (v @ [d])"
  by (auto simp: one_line_def plain_char_def byte_def intro!: strip_cr_snoc)

lemma one_line_append: "CHR 0x0A \<notin> set a \<Longrightarrow> b \<noteq> [] \<Longrightarrow> CHR 0x0A \<notin> set b \<Longrightarrow> plain_char (last b) \<Longrightarrow> one_line (a @ b)"
  using one_lineI [of "a @ butlast b" "last b"] by (auto dest: in_set_butlastD)

lemma word_text: "CHR 0x0A \<notin> set (show_word w)" "plain_char (last (show_word w))"
  using show_word_plain [of w] by (auto simp: list_all_iff plain_char_def byte_def dest: last_in_set)

lemma byte_range_last: "byte_range_shown r \<noteq> []" "plain_char (last (byte_range_shown r))"
  using word_text [where 'a = 64] show_word_plain(2) by (auto simp: byte_range_shown_def split: option.splits)

lemma attribute_list_text:
  "list_all (\<lambda>a. attribute_ok a \<and> CHR 0x0A \<notin> set (snd a)) as \<Longrightarrow> CHR 0x0A \<notin> set (attribute_list as)"
  by (induction as rule: attribute_list.induct)
     (auto simp: quoted_def attribute_ok_def list_all_iff plain_char_def byte_def)

lemma attribute_line:
  assumes "list_all (\<lambda>a. attribute_ok a \<and> CHR 0x0A \<notin> set (snd a)) as" "as \<noteq> []" "CHR 0x0A \<notin> set a"
  shows "one_line (a @ attribute_list as)"
proof -
  from attribute_list_last [OF assms(2)] obtain v where v: "attribute_list as = v @ [CHR 0x22]" by blast
  then have "one_line ((a @ v) @ [CHR 0x22])"
    using assms(3) attribute_list_text [OF assms(1)] by (intro one_lineI) (auto simp: quote_plain)
  with v show ?thesis by simp
qed

lemma key_and_map_lines:
  assumes "printable_segment s"
  shows "list_all one_line (key_lines s)" "list_all one_line (map_lines s)"
proof -
  have "one_line (''#EXT-X-KEY:'' @ attribute_list (key_attributes (seg_key s)))"
    using assms by (intro attribute_line)
      (auto simp: printable_segment_def key_attributes_def known_names value_ok_def optional_attribute_def
        split: option.splits)
  moreover have "one_line (''#EXT-X-MEDIA-SEQUENCE:'' @ show_word (seg_sequence s))"
    by (rule one_line_append) (simp_all add: word_text show_word_plain)
  ultimately show "list_all one_line (key_lines s)" by (simp add: key_lines_def)
  have "one_line (''#EXT-X-MAP:'' @ attribute_list (map_attributes m))" if "seg_init s = Some m" for m
    using assms that by (intro attribute_line)
      (auto simp: printable_segment_def map_attributes_def known_names value_ok_def optional_attribute_def
        byte_range_chars split: option.splits)
  then show "list_all one_line (map_lines s)" by (simp add: map_lines_def split: option.splits)
qed

lemma flag_lines_single: "list_all one_line (flag_lines s)"
proof -
  have plain: "plain_char (CHR ''Y'')" "plain_char (CHR '','')" by (simp_all add: plain_char_def byte_def)
  have "one_line (''#EXT-X-DISCONTINUIT'' @ ''Y'')" by (rule one_line_append) (simp_all add: plain)
  moreover have "one_line ((''#EXTINF:'' @ show_seconds n) @ '','')" for n
    by (rule one_line_append) (use seconds_chars [of "CHR 0x0A" n] in \<open>auto simp: plain is_ascii_digit_def byte_def\<close>)
  moreover have "one_line (''#EXT-X-BYTERANGE:'' @ byte_range_shown r)" for r
    by (rule one_line_append) (simp_all add: byte_range_last byte_range_chars)
  ultimately show ?thesis by (simp add: flag_lines_def split: option.splits)
qed

lemma playlist_lines_single: "list_all printable_segment (mp_segments p) \<Longrightarrow> list_all one_line (playlist_lines p)"
proof -
  assume ok: "list_all printable_segment (mp_segments p)"
  have plain: "plain_char (CHR ''U'')" "plain_char (CHR ''T'')" by (simp_all add: plain_char_def byte_def)
  have "one_line (''#EXTM3'' @ ''U'')" "one_line (''#EXT-X-ENDLIS'' @ ''T'')"
    by (rule one_line_append; simp add: plain)+
  moreover have "one_line (''#EXT-X-TARGETDURATION:'' @ show_word n)" for n :: u64
    by (rule one_line_append) (simp_all add: word_text show_word_plain)
  moreover have "list_all one_line (segment_lines s)" if "s \<in> set (mp_segments p)" for s
    using ok that key_and_map_lines [of s] flag_lines_single [of s]
    by (auto simp: segment_lines_def list_all_iff printable_segment_def line_uri_ok_def one_line_def)
  ultimately show ?thesis by (auto simp: playlist_lines_def list_all_iff split: option.splits)
qed

lemma playlist_front:
  assumes "list_all one_line (playlist_lines p)"
  shows "hls_parse (playlist_text p) = rbind (hls_lines (playlist_lines p) hls_init) hls_finish"
proof -
  have ls: "lines (playlist_text p) = playlist_lines p"
    using assms by (simp add: playlist_text_def lines_unlines one_line_def [abs_def])
  obtain r where r: "playlist_text p = CHR ''#'' # r" by (simp add: playlist_text_def playlist_lines_def unlines_def)
  have "strip_prefix byte_order_mark (CHR ''#'' # r) = None"
    by (simp add: byte_order_mark_code)
  moreover have "trim ''#EXTM3U'' = ''#EXTM3U''" by code_simp
  moreover obtain rest where "playlist_lines p = ''#EXTM3U'' # rest" by (simp add: playlist_lines_def)
  ultimately show ?thesis using r ls by (simp add: hls_parse_def)
qed

lemma playlist_read:
  assumes "printable_playlist p"
  shows "hls_parse (playlist_text p) = Inr (Media p)"
proof -
  have ok: "list_all printable_segment (mp_segments p)" using assms by (simp add: printable_playlist_def)
  define m0 where "m0 = \<lparr>mp_segments = [], mp_target_duration = mp_target_duration p, mp_ended = False\<rparr>"
  define st0 where "st0 = hls_init\<lparr>h_media := m0, h_saw_media := mp_target_duration p \<noteq> None\<rparr>"
  have init: "hls_lines (case mp_target_duration p of Some n \<Rightarrow> [''#EXT-X-TARGETDURATION:'' @ show_word n] | None \<Rightarrow> [])
      hls_init = Inr st0"
    by (cases "mp_target_duration p")
       (simp_all del: append.simps add: target_line st0_def m0_def hls_init_def)
  have "between m0 None st0" by (simp add: between_def st0_def hls_init_def)
  then obtain st1 j where st1: "hls_lines (concat (map segment_lines (mp_segments p))) st0 = Inr st1" "h_saw_media st1"
    "between (m0\<lparr>mp_segments := mp_segments m0 @ mp_segments p\<rparr>) j st1"
    using all_segments_read [OF ok, of m0 None st0] assms by (auto simp: printable_playlist_def m0_def)
  have "rbind (hls_lines (if mp_ended p then [''#EXT-X-ENDLIST''] else []) st1) hls_finish = Inr (Media p)"
    using st1(2,3) by (cases p) (simp add: bare_lines hls_finish_def between_def m0_def)
  with init st1(1) have "rbind (hls_lines (playlist_lines p) hls_init) hls_finish = Inr (Media p)"
    by (simp add: playlist_lines_def hls_lines_append bare_lines)
  with playlist_front [OF playlist_lines_single [OF ok]] show ?thesis by simp
qed

text \<open>
  C34.  The playlist parser inverts the printer: every media playlist with exact millisecond
  durations below 2^50, resolved byte ranges, encrypting keys and values without quotes or line
  breaks is read back from its text, with each segment's URI, range, sequence number, key,
  initialization map and discontinuity mark.
\<close>

theorem playlist_roundtrip:
  "printable_playlist p \<Longrightarrow> hls_parse (playlist_text p) = Inr (Media p)"
  by (rule playlist_read)

definition sample_playlist :: media_playlist where
  "sample_playlist =
     \<lparr>mp_segments =
        [\<lparr>seg_resource = \<lparr>ref_uri = ''a.ts'', ref_range = None\<rparr>, seg_duration = Some 6006, seg_sequence = 7,
          seg_init = None, seg_key = None, seg_discontinuity = False\<rparr>,
         \<lparr>seg_resource = \<lparr>ref_uri = ''b.mp4'', ref_range = Some \<lparr>br_length = 9, br_offset = Some 4\<rparr>\<rparr>,
          seg_duration = None, seg_sequence = 8,
          seg_init = Some \<lparr>ref_uri = ''i.mp4'', ref_range = Some \<lparr>br_length = 5, br_offset = None\<rparr>\<rparr>,
          seg_key = Some \<lparr>key_method = ''AES-128'', key_uri = Some ''k'', key_iv = None\<rparr>,
          seg_discontinuity = True\<rparr>],
      mp_target_duration = Some 10, mp_ended = True\<rparr>"

lemma sample_printable: "printable_playlist sample_playlist"
proof -
  have "line_uri_ok ''a.ts''" "line_uri_ok ''b.mp4''" "\<not> eq_ignore_ascii_case ''AES-128'' ''NONE''"
    by code_simp+
  then show ?thesis
    by (simp add: printable_playlist_def sample_playlist_def max_segments_def printable_segment_def value_ok_def
        key_is_encrypted_def optional_attribute_def)
qed

theorem playlist_roundtrip_witness:
  "hls_parse (playlist_text sample_playlist) = Inr (Media sample_playlist)"
  by (rule playlist_roundtrip [OF sample_printable])

end
