(* ===== verification/Selection.thy ===== *)
theory Selection
  imports Hls Download
begin

text \<open>
  The selectors stored with a job, \<open>crates/gunda-stream/src/selection.rs\<close>: which variant or
  representation of a presentation to download, printed as text and read back when the job runs.
  A \<open>usize\<close> has 64 bits.
\<close>

section \<open>Selectors\<close>

record hls_selected =
  sel_variant :: u64
  sel_bandwidth :: "u64 option"
  sel_resolution :: "(u32 \<times> u32) option"
  sel_declared_total :: "u64 option"
  sel_audio_rendition :: "u64 option"
  sel_audio_language :: "string option"

record dash_selected =
  sel_video_set :: "u64 option"
  sel_video_representation :: "u64 option"
  sel_video_bandwidth :: "u64 option"
  sel_audio_set :: "u64 option"
  sel_audio_representation :: "u64 option"
  sel_audio_bandwidth :: "u64 option"

definition optional_number :: "'a::len word option \<Rightarrow> string" where
  "optional_number v = (case v of None \<Rightarrow> ''-'' | Some n \<Rightarrow> show_word n)"

text \<open>\<open>width\<close> and \<open>height\<close> of the selector, both dashes without a resolution.\<close>

definition resolution_fields :: "variant \<Rightarrow> string \<times> string" where
  "resolution_fields v =
     (case variant_resolution v of
        Some (w, h) \<Rightarrow> (show_word w, show_word h)
      | None \<Rightarrow> (''-'', ''-''))"

fun joined :: "string list \<Rightarrow> string" where
  "joined [] = []"
| "joined [f] = f"
| "joined (f # fs) = f @ CHR '':'' # joined fs"

definition new_selection :: "string \<Rightarrow> manifest_error + execution_selection" where
  "new_selection text = map_err (\<lambda>_. Malformed) (selection_new text)"

definition hls_selection :: "u64 \<Rightarrow> variant \<Rightarrow> manifest_error + execution_selection" where
  "hls_selection variant_index v =
     (let (width, height) = resolution_fields v in
      new_selection
        (joined [''hls'', ''1'', show_word variant_index, optional_number (var_bandwidth v), width, height]))"

text \<open>One character of the result per character of the UTF-8 text: continuation bytes go away.\<close>

definition sanitize_language :: "string \<Rightarrow> string" where
  "sanitize_language s =
     map (\<lambda>c. if is_ascii_alphanumeric c \<or> c = CHR ''-'' \<or> c = CHR ''_'' then c else CHR ''-'')
       (filter (\<lambda>c. \<not> (0x80 \<le> byte c \<and> byte c < 0xC0)) s)"

definition hls_selection_with_audio ::
    "u64 \<Rightarrow> variant \<Rightarrow> u64 \<Rightarrow> string option \<Rightarrow> manifest_error + execution_selection" where
  "hls_selection_with_audio variant_index v audio_index lang =
     (let (width, height) = resolution_fields v;
          lang = sanitize_language (unwrap_or ''-'' lang)
      in new_selection
           (joined [''hls'', ''2'', show_word variant_index, optional_number (var_bandwidth v), width, height,
              show_word audio_index, lang]))"

definition track_fields :: "(u64 \<times> u64 \<times> u64 option) option \<Rightarrow> string list" where
  "track_fields t =
     (case t of
        None \<Rightarrow> [''-'', ''-'', ''-'']
      | Some (s, representation, bandwidth) \<Rightarrow>
          [show_word s, show_word representation, optional_number bandwidth])"

definition dash_selection ::
    "(u64 \<times> u64 \<times> u64 option) option \<Rightarrow> (u64 \<times> u64 \<times> u64 option) option \<Rightarrow> manifest_error + execution_selection" where
  "dash_selection video audio =
     new_selection (joined ([''dash'', ''1''] @ track_fields video @ track_fields audio))"

section \<open>Reading selectors\<close>

text \<open>The \<open>n\<close>-th item of the iterator over the parts.\<close>

definition part :: "string list \<Rightarrow> nat \<Rightarrow> string option" where
  "part ps n = (if n < length ps then Some (ps ! n) else None)"

definition number :: "string option \<Rightarrow> manifest_error + u64" where
  "number v = rbind (ok_or SelectionUnavailable v) (\<lambda>v. ok_or SelectionUnavailable (parse_uint v))"

definition optional_usize :: "string option \<Rightarrow> manifest_error + u64 option" where
  "optional_usize v =
     (case v of
        None \<Rightarrow> Inr None
      | Some v \<Rightarrow> if v = ''-'' then Inr None else rmap Some (ok_or SelectionUnavailable (parse_uint v)))"

definition optional_number_value :: "string option \<Rightarrow> manifest_error + u64 option" where
  "optional_number_value v =
     (case v of
        None \<Rightarrow> Inr None
      | Some v \<Rightarrow> if v = ''-'' then Inr None else rmap Some (ok_or SelectionUnavailable (parse_uint v)))"

definition u32_try_from :: "u64 \<Rightarrow> manifest_error + u32" where
  "u32_try_from n = (if n < 2 ^ 32 then Inr (ucast n) else Inl SelectionUnavailable)"

definition selected_resolution :: "u64 option \<Rightarrow> u64 option \<Rightarrow> manifest_error + (u32 \<times> u32) option" where
  "selected_resolution width height =
     (case (width, height) of
        (Some w, Some h) \<Rightarrow> rbind (u32_try_from w) (\<lambda>w. rmap (\<lambda>h. Some (w, h)) (u32_try_from h))
      | (None, None) \<Rightarrow> Inr None
      | _ \<Rightarrow> Inl SelectionUnavailable)"

definition parse_hls :: "execution_selection \<Rightarrow> manifest_error + hls_selected" where
  "parse_hls selection =
     (let ps = split_on (CHR '':'') (selection_str selection) in
      if part ps 0 \<noteq> Some ''hls'' then Inl SelectionUnavailable
      else
        rbind (ok_or SelectionUnavailable (part ps 1)) (\<lambda>version.
        if version \<noteq> ''1'' \<and> version \<noteq> ''2'' then Inl SelectionUnavailable
        else
          rbind (number (part ps 2)) (\<lambda>v.
          rbind (optional_number_value (part ps 3)) (\<lambda>bandwidth.
          rbind (optional_number_value (part ps 4)) (\<lambda>width.
          rbind (optional_number_value (part ps 5)) (\<lambda>height.
          rbind
            (if version = ''2'' then
               rbind (optional_usize (part ps 6)) (\<lambda>audio.
               let lang = (case part ps 7 of Some l \<Rightarrow> if l \<noteq> ''-'' then Some l else None | None \<Rightarrow> None) in
               rmap (\<lambda>tot. (audio, lang, tot, 9)) (optional_number_value (part ps 8)))
             else rmap (\<lambda>tot. (None, None, tot, 7)) (optional_number_value (part ps 6)))
            (\<lambda>(audio, lang, tot, next_part).
          if part ps next_part \<noteq> None then Inl SelectionUnavailable
          else
            rmap (\<lambda>resolution.
                \<lparr>sel_variant = v, sel_bandwidth = bandwidth, sel_resolution = resolution,
                 sel_declared_total = tot, sel_audio_rendition = audio, sel_audio_language = lang\<rparr>)
              (selected_resolution width height))))))))"

definition parse_dash :: "execution_selection \<Rightarrow> manifest_error + dash_selected" where
  "parse_dash selection =
     (let ps = split_on (CHR '':'') (selection_str selection) in
      if part ps 0 \<noteq> Some ''dash'' \<or> part ps 1 \<noteq> Some ''1'' then Inl SelectionUnavailable
      else
        rbind (optional_usize (part ps 2)) (\<lambda>video_set.
        rbind (optional_usize (part ps 3)) (\<lambda>video_representation.
        rbind (optional_number_value (part ps 4)) (\<lambda>video_bandwidth.
        rbind (optional_usize (part ps 5)) (\<lambda>audio_set.
        rbind (optional_usize (part ps 6)) (\<lambda>audio_representation.
        rbind (optional_number_value (part ps 7)) (\<lambda>audio_bandwidth.
        if part ps 8 \<noteq> None then Inl SelectionUnavailable
        else
          Inr \<lparr>sel_video_set = video_set, sel_video_representation = video_representation,
            sel_video_bandwidth = video_bandwidth, sel_audio_set = audio_set,
            sel_audio_representation = audio_representation, sel_audio_bandwidth = audio_bandwidth\<rparr>)))))))"

definition read_language :: "string \<Rightarrow> string option" where
  "read_language l = (if sanitize_language l = ''-'' then None else Some (sanitize_language l))"

section \<open>Reading back what was printed\<close>

lemma split_fields:
  "fs \<noteq> [] \<Longrightarrow> list_all (\<lambda>f. CHR '':'' \<notin> set f) fs \<Longrightarrow> split_on (CHR '':'') (joined fs) = fs"
  by (induction fs rule: joined.induct) (simp_all add: split_on_append split_on_no_sep)

lemma show_word_field: "CHR '':'' \<notin> set (show_word w)" "show_word w \<noteq> ''-''"
  using show_nat_digits [of "unat w"]
  by (auto simp: show_word_def all_digits_def list_all_iff is_ascii_digit_def byte_def)

lemma optional_number_field: "CHR '':'' \<notin> set (optional_number v)"
  by (simp add: optional_number_def show_word_field(1) split: option.splits)

lemma optional_number_read [simp]: "optional_number_value (Some (optional_number v)) = Inr v"
  by (simp add: optional_number_value_def optional_number_def show_word_field split: option.splits)

lemma new_selection_Inr [result_simps]:
  "new_selection text = Inr s \<longleftrightarrow>
     text \<noteq> [] \<and> length text \<le> selection_max_len \<and> list_all selection_byte text \<and> s = ExecutionSelection text"
  by (simp add: new_selection_def result_simps)

lemma unat_u32: "unat (ucast n :: u64) = unat n" for n :: u32
proof -
  have "unat n < 2 ^ 32" using unat_less [of n] by simp
  then show ?thesis by (simp add: unsigned_ucast_eq take_bit_nat_eq_self)
qed

lemma show_u32: "show_word (ucast n :: u64) = show_word n" for n :: u32
  by (simp only: show_word_def unat_u32)

lemma u32_try_from_ucast: "u32_try_from (ucast n) = Inr n" for n :: u32
proof -
  have "(ucast n :: u64) < 2 ^ 32" using unat_less [of n] by (simp add: word_less_nat_alt unat_u32)
  moreover have "(ucast (ucast n :: u64) :: u32) = n"
    by (rule bit_word_eqI) (auto simp: bit_simps)
  ultimately show ?thesis by (simp add: u32_try_from_def)
qed

lemma resolution_read:
  assumes "resolution_fields v = (width, height)"
  shows "CHR '':'' \<notin> set width" "CHR '':'' \<notin> set height"
    "\<exists>w h. optional_number_value (Some width) = Inr w \<and> optional_number_value (Some height) = Inr h \<and>
       selected_resolution w h = Inr (variant_resolution v)"
proof -
  show "CHR '':'' \<notin> set width" "CHR '':'' \<notin> set height"
    using assms by (auto simp: resolution_fields_def show_word_field split: option.splits)
  have read: "optional_number_value (Some (show_word n)) = Inr (Some (ucast n)) \<and> u32_try_from (ucast n) = Inr n"
    for n :: u32
    by (simp add: optional_number_value_def show_word_field(2) show_u32 [symmetric] u32_try_from_ucast)
  show "\<exists>w h. optional_number_value (Some width) = Inr w \<and> optional_number_value (Some height) = Inr h \<and>
       selected_resolution w h = Inr (variant_resolution v)"
  proof (cases "variant_resolution v")
    case None
    with assms have "width = ''-''" "height = ''-''" by (auto simp: resolution_fields_def)
    with None show ?thesis by (simp add: optional_number_value_def selected_resolution_def)
  next
    case (Some wh)
    with assms show ?thesis
      by (cases wh) (auto simp: resolution_fields_def selected_resolution_def read)
  qed
qed

lemma hls_read:
  assumes "hls_selection i v = Inr s"
  shows "parse_hls s = Inr \<lparr>sel_variant = i, sel_bandwidth = var_bandwidth v, sel_resolution = variant_resolution v,
    sel_declared_total = None, sel_audio_rendition = None, sel_audio_language = None\<rparr>"
proof -
  obtain width height where r: "resolution_fields v = (width, height)" by (cases "resolution_fields v")
  from resolution_read [OF r] obtain w h where wh: "optional_number_value (Some width) = Inr w"
    "optional_number_value (Some height) = Inr h" "selected_resolution w h = Inr (variant_resolution v)" by blast
  have "s = ExecutionSelection (joined [''hls'', ''1'', show_word i, optional_number (var_bandwidth v), width, height])"
    using assms by (simp add: hls_selection_def r new_selection_Inr)
  moreover have "split_on (CHR '':'') (joined [''hls'', ''1'', show_word i, optional_number (var_bandwidth v), width, height])
      = [''hls'', ''1'', show_word i, optional_number (var_bandwidth v), width, height]"
    using resolution_read(1,2) [OF r] by (intro split_fields) (simp_all add: show_word_field(1) optional_number_field)
  ultimately show ?thesis
    by (simp add: parse_hls_def part_def number_def wh optional_number_value_def [of None])
qed

lemma sanitized_field: "CHR '':'' \<notin> set (sanitize_language l)"
  by (auto simp: sanitize_language_def is_ascii_alphanumeric_def is_ascii_digit_def is_ascii_alphabetic_def byte_def)

lemma hls_audio_read:
  assumes "hls_selection_with_audio i v a lang = Inr s"
  shows "parse_hls s = Inr \<lparr>sel_variant = i, sel_bandwidth = var_bandwidth v, sel_resolution = variant_resolution v,
    sel_declared_total = None, sel_audio_rendition = Some a,
    sel_audio_language = read_language (unwrap_or ''-'' lang)\<rparr>"
proof -
  obtain width height where r: "resolution_fields v = (width, height)" by (cases "resolution_fields v")
  from resolution_read [OF r] obtain w h where wh: "optional_number_value (Some width) = Inr w"
    "optional_number_value (Some height) = Inr h" "selected_resolution w h = Inr (variant_resolution v)" by blast
  define l where "l = sanitize_language (unwrap_or ''-'' lang)"
  define fs where "fs = [''hls'', ''2'', show_word i, optional_number (var_bandwidth v), width, height, show_word a, l]"
  have "s = ExecutionSelection (joined fs)"
    using assms by (simp add: hls_selection_with_audio_def r new_selection_Inr Let_def fs_def l_def)
  moreover have "split_on (CHR '':'') (joined fs) = fs"
    using resolution_read(1,2) [OF r] unfolding fs_def
    by (intro split_fields) (simp_all add: show_word_field(1) optional_number_field l_def sanitized_field)
  ultimately show ?thesis
    by (simp add: fs_def parse_hls_def part_def number_def wh optional_number_value_def [of None] optional_usize_def
        show_word_field(2) read_language_def l_def [symmetric] Let_def)
qed

lemma track_fields_read:
  "list_all (\<lambda>f. CHR '':'' \<notin> set f) (track_fields t)"
  "length (track_fields t) = 3"
  "optional_usize (Some (track_fields t ! 0)) = Inr (map_option fst t)"
  "optional_usize (Some (track_fields t ! Suc 0)) = Inr (map_option (fst \<circ> snd) t)"
  "optional_number_value (Some (track_fields t ! 2)) = Inr (Option.bind t (snd \<circ> snd))"
  by (cases t; auto simp: track_fields_def show_word_field optional_number_field optional_usize_def
      optional_number_value_def [of "Some ''-''"])+

lemma dash_read:
  assumes "dash_selection video audio = Inr s"
  shows "parse_dash s = Inr \<lparr>sel_video_set = map_option fst video,
    sel_video_representation = map_option (fst \<circ> snd) video, sel_video_bandwidth = Option.bind video (snd \<circ> snd),
    sel_audio_set = map_option fst audio, sel_audio_representation = map_option (fst \<circ> snd) audio,
    sel_audio_bandwidth = Option.bind audio (snd \<circ> snd)\<rparr>"
proof -
  define fs where "fs = [''dash'', ''1''] @ track_fields video @ track_fields audio"
  have "s = ExecutionSelection (joined fs)"
    using assms by (simp add: dash_selection_def new_selection_Inr fs_def)
  moreover have "split_on (CHR '':'') (joined fs) = fs"
    unfolding fs_def by (intro split_fields) (simp_all add: track_fields_read(1))
  moreover have "fs ! 2 = track_fields video ! 0" "fs ! 3 = track_fields video ! 1" "fs ! 4 = track_fields video ! 2"
    "fs ! 5 = track_fields audio ! 0" "fs ! 6 = track_fields audio ! 1" "fs ! 7 = track_fields audio ! 2"
    "fs ! 0 = ''dash''" "fs ! 1 = ''1''" "length fs = 8" "fs \<noteq> []"
    by (simp_all add: fs_def nth_append nth_Cons' track_fields_read(2))
  ultimately show ?thesis by (simp add: parse_dash_def part_def track_fields_read)
qed

text \<open>
  C35.  A selector stored with a job is read back as the choice it was made for: the variant with
  its bandwidth and resolution, the audio rendition with its language in the alphabet of selectors,
  and for DASH the sets and representations of both tracks.
\<close>

theorem selections_roundtrip:
  "(hls_selection i v = Inr s \<longrightarrow>
      parse_hls s = Inr \<lparr>sel_variant = i, sel_bandwidth = var_bandwidth v, sel_resolution = variant_resolution v,
        sel_declared_total = None, sel_audio_rendition = None, sel_audio_language = None\<rparr>) \<and>
   (hls_selection_with_audio i v a lang = Inr s \<longrightarrow>
      parse_hls s = Inr \<lparr>sel_variant = i, sel_bandwidth = var_bandwidth v, sel_resolution = variant_resolution v,
        sel_declared_total = None, sel_audio_rendition = Some a,
        sel_audio_language = read_language (unwrap_or ''-'' lang)\<rparr>) \<and>
   (dash_selection video audio = Inr s \<longrightarrow>
      parse_dash s = Inr \<lparr>sel_video_set = map_option fst video,
        sel_video_representation = map_option (fst \<circ> snd) video,
        sel_video_bandwidth = Option.bind video (snd \<circ> snd),
        sel_audio_set = map_option fst audio, sel_audio_representation = map_option (fst \<circ> snd) audio,
        sel_audio_bandwidth = Option.bind audio (snd \<circ> snd)\<rparr>)"
  using hls_read hls_audio_read dash_read by blast

definition sample_variant :: variant where
  "sample_variant = \<lparr>var_uri = ''v'', var_bandwidth = Some 900, var_width = Some 64, var_height = Some 48,
     var_codecs = None, var_audio_group = None\<rparr>"

theorem selections_roundtrip_witness:
  "hls_selection_with_audio 2 sample_variant 1 (Some ''pt.BR'') = Inr (ExecutionSelection ''hls:2:2:900:64:48:1:pt-BR'') \<and>
   parse_hls (ExecutionSelection ''hls:2:2:900:64:48:1:pt-BR'') =
     Inr \<lparr>sel_variant = 2, sel_bandwidth = Some 900, sel_resolution = Some (64, 48), sel_declared_total = None,
       sel_audio_rendition = Some 1, sel_audio_language = Some ''pt-BR''\<rparr>"
proof -
  have r: "hls_selection_with_audio 2 sample_variant 1 (Some ''pt.BR'') =
      Inr (ExecutionSelection ''hls:2:2:900:64:48:1:pt-BR'')"
    "read_language (unwrap_or ''-'' (Some ''pt.BR'')) = Some ''pt-BR''"
    by code_simp+
  then show ?thesis
    using selections_roundtrip [of 2 sample_variant _ 1 "Some ''pt.BR''" None None]
    by (simp add: sample_variant_def variant_resolution_def)
qed

end
