(* ===== verification/Dash.thy ===== *)
theory Dash
  imports Hls
begin

text \<open>
  The DASH manifest parser, \<open>crates/gunda-stream/src/dash.rs\<close>, over the nodes of the XML reader:
  periods, adaptation sets, representations and the three addressing schemes with their
  inheritance, ISO 8601 durations, and the expansion of segment timelines.
\<close>

section \<open>Manifests\<close>

datatype mpd_kind = StaticMpd | DynamicMpd

text \<open>The repeat count is an \<open>i64\<close>: its word is read as a signed number.\<close>

record timeline_entry =
  te_time :: "u64 option"
  te_duration :: u64
  te_repeat :: u64

record segment_template =
  st_timescale :: "u64 option"
  st_duration :: "u64 option"
  st_start_number :: "u64 option"
  st_media :: "string option"
  st_initialization :: "string option"
  st_presentation_time_offset :: "u64 option"
  st_timeline :: "timeline_entry list option"

definition template_default :: segment_template where
  "template_default =
     \<lparr>st_timescale = None, st_duration = None, st_start_number = None, st_media = None,
      st_initialization = None, st_presentation_time_offset = None, st_timeline = None\<rparr>"

definition template_timescale :: "segment_template \<Rightarrow> u64" where
  "template_timescale t =
     (case st_timescale t of Some timescale \<Rightarrow> if timescale > 0 then timescale else 1 | None \<Rightarrow> 1)"

definition template_start_number :: "segment_template \<Rightarrow> u64" where
  "template_start_number t = unwrap_or 1 (st_start_number t)"

definition template_inherit :: "segment_template \<Rightarrow> segment_template \<Rightarrow> segment_template" where
  "template_inherit t outer =
     \<lparr>st_timescale = or_else (st_timescale t) (st_timescale outer),
      st_duration = or_else (st_duration t) (st_duration outer),
      st_start_number = or_else (st_start_number t) (st_start_number outer),
      st_media = or_else (st_media t) (st_media outer),
      st_initialization = or_else (st_initialization t) (st_initialization outer),
      st_presentation_time_offset =
        or_else (st_presentation_time_offset t) (st_presentation_time_offset outer),
      st_timeline = or_else (st_timeline t) (st_timeline outer)\<rparr>"

record segment_url =
  su_media :: "string option"
  su_media_range :: "(u64 \<times> u64) option"

record segment_initialization =
  si_source_url :: string
  si_range :: "(u64 \<times> u64) option"

record segment_list =
  sl_timescale :: "u64 option"
  sl_duration :: "u64 option"
  sl_start_number :: "u64 option"
  sl_initialization :: "segment_initialization option"
  sl_segment_urls :: "segment_url list option"

definition list_default :: segment_list where
  "list_default =
     \<lparr>sl_timescale = None, sl_duration = None, sl_start_number = None, sl_initialization = None,
      sl_segment_urls = None\<rparr>"

definition list_inherit :: "segment_list \<Rightarrow> segment_list \<Rightarrow> segment_list" where
  "list_inherit l outer =
     \<lparr>sl_timescale = or_else (sl_timescale l) (sl_timescale outer),
      sl_duration = or_else (sl_duration l) (sl_duration outer),
      sl_start_number = or_else (sl_start_number l) (sl_start_number outer),
      sl_initialization = or_else (sl_initialization l) (sl_initialization outer),
      sl_segment_urls = or_else (sl_segment_urls l) (sl_segment_urls outer)\<rparr>"

record segment_base =
  sb_index_range :: "string option"
  sb_initialization :: "string option"

record representation =
  rp_id :: "string option"
  rp_bandwidth :: "u64 option"
  rp_codecs :: "string option"
  rp_mime_type :: "string option"
  rp_width :: "u32 option"
  rp_height :: "u32 option"
  rp_base_urls :: "string list"
  rp_segment_template :: "segment_template option"
  rp_segment_list :: "segment_list option"
  rp_segment_base :: "segment_base option"

definition representation_resolution :: "representation \<Rightarrow> (u32 \<times> u32) option" where
  "representation_resolution r = Option.bind (rp_width r) (\<lambda>w. map_option (Pair w) (rp_height r))"

definition is_single_file :: "representation \<Rightarrow> bool" where
  "is_single_file r \<longleftrightarrow> rp_segment_template r = None \<and> rp_segment_list r = None \<and> rp_segment_base r = None"

record adaptation_set =
  as_content_type :: "string option"
  as_mime_type :: "string option"
  as_lang :: "string option"
  as_base_urls :: "string list"
  as_segment_template :: "segment_template option"
  as_segment_list :: "segment_list option"
  as_representations :: "representation list"

datatype track_kind = VideoTrack | AudioTrack | TextTrack | UnknownTrack

definition content_kind :: "string \<Rightarrow> track_kind option" where
  "content_kind content_type =
     (if eq_ignore_ascii_case content_type ''video'' then Some VideoTrack
      else if eq_ignore_ascii_case content_type ''audio'' then Some AudioTrack
      else if eq_ignore_ascii_case content_type ''text'' \<or> eq_ignore_ascii_case content_type ''subtitle''
        then Some TextTrack
      else None)"

definition set_kind :: "adaptation_set \<Rightarrow> track_kind" where
  "set_kind s =
     (case Option.bind (as_content_type s) content_kind of
        Some kind \<Rightarrow> kind
      | None \<Rightarrow>
          (let mime = or_else (as_mime_type s)
                 (case as_representations s of r # _ \<Rightarrow> rp_mime_type r | [] \<Rightarrow> None);
               from_mime = map_option (\<lambda>mime. to_ascii_lowercase (hd (split_on (CHR ''/'') mime))) mime;
               other = (if list_ex (\<lambda>r. rp_width r \<noteq> None) (as_representations s) then VideoTrack else UnknownTrack)
           in case from_mime of
                None \<Rightarrow> other
              | Some m \<Rightarrow>
                  if m = ''video'' then VideoTrack
                  else if m = ''audio'' then AudioTrack
                  else if m = ''text'' \<or> m = ''application'' then TextTrack
                  else other))"

record period =
  pd_id :: "string option"
  pd_duration_millis :: "u64 option"
  pd_base_urls :: "string list"
  pd_segment_template :: "segment_template option"
  pd_segment_list :: "segment_list option"
  pd_adaptation_sets :: "adaptation_set list"

definition period_is_empty :: "period \<Rightarrow> bool" where
  "period_is_empty p \<longleftrightarrow> list_all (\<lambda>s. as_representations s = []) (pd_adaptation_sets p)"

record mpd =
  mpd_type :: mpd_kind
  mpd_duration_millis :: "u64 option"
  mpd_min_buffer_millis :: "u64 option"
  mpd_base_urls :: "string list"
  mpd_periods :: "period list"

definition media_period :: "mpd \<Rightarrow> manifest_error + period" where
  "media_period m =
     (case filter (\<lambda>p. \<not> period_is_empty p) (mpd_periods m) of
        [] \<Rightarrow> Inl Malformed
      | [p] \<Rightarrow> Inr p
      | _ \<Rightarrow> Inl (Unsupported MultiPeriod))"

section \<open>Addressing\<close>

datatype representation_addressing =
  TemplateAddressing segment_template | ListAddressing segment_list | BaseAddressing segment_base | SingleFile

definition merge_template ::
    "segment_template option \<Rightarrow> segment_template option \<Rightarrow> segment_template option \<Rightarrow> segment_template option" where
  "merge_template inner set_level period_level =
     (let merged = unwrap_or template_default inner in
      if inner = None \<and> set_level = None \<and> period_level = None then None
      else
        let merged = (case set_level of Some s \<Rightarrow> template_inherit merged s | None \<Rightarrow> merged);
            merged = (case period_level of Some p \<Rightarrow> template_inherit merged p | None \<Rightarrow> merged)
        in Some merged)"

definition merge_list ::
    "segment_list option \<Rightarrow> segment_list option \<Rightarrow> segment_list option \<Rightarrow> segment_list option" where
  "merge_list inner set_level period_level =
     (if inner = None \<and> set_level = None \<and> period_level = None then None
      else
        let merged = unwrap_or list_default inner;
            merged = (case set_level of Some s \<Rightarrow> list_inherit merged s | None \<Rightarrow> merged);
            merged = (case period_level of Some p \<Rightarrow> list_inherit merged p | None \<Rightarrow> merged)
        in Some merged)"

definition addressing :: "representation \<Rightarrow> adaptation_set \<Rightarrow> period \<Rightarrow> representation_addressing" where
  "addressing r s p =
     (let template = merge_template (rp_segment_template r) (as_segment_template s) (pd_segment_template p);
          listed = merge_list (rp_segment_list r) (as_segment_list s) (pd_segment_list p)
      in case (template, listed) of
           (Some template, _) \<Rightarrow> TemplateAddressing template
         | (None, Some listed) \<Rightarrow> ListAddressing listed
         | (None, None) \<Rightarrow>
             (case rp_segment_base r of Some base \<Rightarrow> BaseAddressing base | None \<Rightarrow> SingleFile))"

section \<open>Durations\<close>

text \<open>
  The code's totals are never negative, so sums and products of nonnegative \<open>f64\<close> values are enough.
  A multi-byte character is never part of a number, so the loop runs over bytes.
\<close>

definition f64_plus :: "f64 \<Rightarrow> f64 \<Rightarrow> f64" where
  "f64_plus x y =
     (case (x, y) of
        (F64Finite _ m e, F64Finite _ m' e') \<Rightarrow>
          (let k = min e e'; n = m * 2 ^ nat (e - k) + m' * 2 ^ nat (e' - k); (p, q) = scaled n 1 (- k)
           in f64_of_ratio False p q)
      | (F64Finite _ _ _, y) \<Rightarrow> y
      | (x, _) \<Rightarrow> x)"

definition f64_times :: "f64 \<Rightarrow> int \<Rightarrow> f64" where
  "f64_times x c = (case x of F64Finite _ m e \<Rightarrow> fin_mult m e c | x \<Rightarrow> x)"

definition unit_seconds :: "f64 \<Rightarrow> char \<Rightarrow> bool \<Rightarrow> f64 option" where
  "unit_seconds magnitude unit in_time =
     (if unit = CHR ''Y'' then Some (f64_times (f64_times magnitude 365) 86400)
      else if unit = CHR ''M'' \<and> \<not> in_time then Some (f64_times (f64_times magnitude 30) 86400)
      else if unit = CHR ''W'' then Some (f64_times (f64_times magnitude 7) 86400)
      else if unit = CHR ''D'' then Some (f64_times magnitude 86400)
      else if unit = CHR ''H'' then Some (f64_times magnitude 3600)
      else if unit = CHR ''M'' then Some (f64_times magnitude 60)
      else if unit = CHR ''S'' then Some magnitude
      else None)"

fun duration_loop :: "string \<Rightarrow> f64 \<Rightarrow> bool \<Rightarrow> string \<Rightarrow> bool \<Rightarrow> manifest_error + f64 \<times> string \<times> bool" where
  "duration_loop [] tot in_time num saw = Inr (tot, num, saw)"
| "duration_loop (c # rest) tot in_time num saw =
     (if c = CHR ''T'' then duration_loop rest tot True num saw
      else if is_ascii_digit c \<or> c = CHR ''.'' \<or> c = CHR '','' then
        duration_loop rest tot in_time (num @ [if c = CHR '','' then CHR ''.'' else c]) saw
      else
        rbind (ok_or InvalidNumber (parse_f64 num)) (\<lambda>magnitude.
        rbind (ok_or InvalidNumber (unit_seconds magnitude c in_time)) (\<lambda>seconds.
        duration_loop rest (f64_plus tot seconds) in_time [] True)))"

definition parse_iso8601_duration_millis :: "string \<Rightarrow> manifest_error + u64" where
  "parse_iso8601_duration_millis value =
     rbind (ok_or InvalidNumber (strip_prefix ''P'' (trim value))) (\<lambda>rest.
     rbind (duration_loop rest (F64Finite False 0 0) False [] False) (\<lambda>(tot, num, saw).
     case tot of
       F64Finite neg m e \<Rightarrow>
         if num \<noteq> [] \<or> \<not> saw then Inl InvalidNumber
         else
           Inr (case fin_mult m e 1000 of F64Finite _ m e \<Rightarrow> saturate_u64 (fin_round m e) | _ \<Rightarrow> - 1)
     | _ \<Rightarrow> Inl InvalidNumber))"

section \<open>Parsing\<close>

definition text_children :: "node \<Rightarrow> string \<Rightarrow> string list" where
  "text_children n name = filter (\<lambda>t. t \<noteq> []) (map node_text (children_named n name))"

definition parse_byte_range :: "string \<Rightarrow> manifest_error + u64 \<times> u64" where
  "parse_byte_range value =
     rbind (ok_or InvalidByteRange (split_once (CHR ''-'') value)) (\<lambda>(a, b).
     rbind (ok_or InvalidByteRange (parse_uint (trim a))) (\<lambda>a.
     rbind (ok_or InvalidByteRange (parse_uint (trim b))) (\<lambda>b.
     if b < a then Inl InvalidByteRange else Inr (a, b))))"

definition parse_timeline_entry :: "node \<Rightarrow> manifest_error + timeline_entry" where
  "parse_timeline_entry entry =
     rbind (attribute_u64 entry ''t'') (\<lambda>t.
     rbind (rbind (attribute_u64 entry ''d'') (ok_or Malformed)) (\<lambda>d.
     rmap (\<lambda>r. \<lparr>te_time = t, te_duration = d, te_repeat = unwrap_or 0 r\<rparr>)
       (attribute_i64 entry ''r'')))"

definition parse_segment_template :: "node \<Rightarrow> manifest_error + segment_template" where
  "parse_segment_template n =
     rbind (traverse_opt (\<lambda>timeline. traverse_list parse_timeline_entry (children_named timeline ''S''))
       (child n ''SegmentTimeline'')) (\<lambda>timeline.
     rbind (attribute_u64 n ''timescale'') (\<lambda>timescale.
     rbind (attribute_u64 n ''duration'') (\<lambda>duration.
     rbind (attribute_u64 n ''startNumber'') (\<lambda>start_number.
     rmap (\<lambda>offset.
         \<lparr>st_timescale = timescale, st_duration = duration, st_start_number = start_number,
          st_media = attribute n ''media'', st_initialization = attribute n ''initialization'',
          st_presentation_time_offset = offset, st_timeline = timeline\<rparr>)
       (attribute_u64 n ''presentationTimeOffset'')))))"

definition parse_segment_url :: "node \<Rightarrow> manifest_error + segment_url" where
  "parse_segment_url n =
     rmap (\<lambda>range. \<lparr>su_media = attribute n ''media'', su_media_range = range\<rparr>)
       (traverse_opt parse_byte_range (attribute n ''mediaRange''))"

definition parse_segment_initialization :: "node \<Rightarrow> manifest_error + segment_initialization" where
  "parse_segment_initialization n =
     rmap (\<lambda>range. \<lparr>si_source_url = unwrap_or [] (attribute n ''sourceURL''), si_range = range\<rparr>)
       (traverse_opt parse_byte_range (attribute n ''range''))"

definition parse_segment_list :: "node \<Rightarrow> manifest_error + segment_list" where
  "parse_segment_list n =
     rbind (traverse_list parse_segment_url (children_named n ''SegmentURL'')) (\<lambda>urls.
     rbind (attribute_u64 n ''timescale'') (\<lambda>timescale.
     rbind (attribute_u64 n ''duration'') (\<lambda>duration.
     rbind (attribute_u64 n ''startNumber'') (\<lambda>start_number.
     rmap (\<lambda>init.
         \<lparr>sl_timescale = timescale, sl_duration = duration, sl_start_number = start_number,
          sl_initialization = init, sl_segment_urls = (if urls = [] then None else Some urls)\<rparr>)
       (traverse_opt parse_segment_initialization (child n ''Initialization''))))))"

definition parse_segment_base :: "node \<Rightarrow> segment_base" where
  "parse_segment_base n =
     \<lparr>sb_index_range = attribute n ''indexRange'',
      sb_initialization = Option.bind (child n ''Initialization'') (\<lambda>init. attribute init ''sourceURL'')\<rparr>"

definition parse_representation :: "node \<Rightarrow> manifest_error + representation" where
  "parse_representation n =
     rbind (attribute_u64 n ''bandwidth'') (\<lambda>bandwidth.
     rbind (attribute_u32 n ''width'') (\<lambda>width.
     rbind (attribute_u32 n ''height'') (\<lambda>height.
     rbind (traverse_opt parse_segment_template (child n ''SegmentTemplate'')) (\<lambda>template.
     rmap (\<lambda>listed.
         \<lparr>rp_id = attribute n ''id'', rp_bandwidth = bandwidth, rp_codecs = attribute n ''codecs'',
          rp_mime_type = attribute n ''mimeType'', rp_width = width, rp_height = height,
          rp_base_urls = text_children n ''BaseURL'', rp_segment_template = template,
          rp_segment_list = listed,
          rp_segment_base = map_option parse_segment_base (child n ''SegmentBase'')\<rparr>)
       (traverse_opt parse_segment_list (child n ''SegmentList''))))))"

definition parse_adaptation_set :: "node \<Rightarrow> manifest_error + adaptation_set" where
  "parse_adaptation_set n =
     rbind (traverse_list parse_representation (children_named n ''Representation'')) (\<lambda>representations.
     rbind (traverse_opt parse_segment_template (child n ''SegmentTemplate'')) (\<lambda>template.
     rmap (\<lambda>listed.
         \<lparr>as_content_type = attribute n ''contentType'', as_mime_type = attribute n ''mimeType'',
          as_lang = attribute n ''lang'', as_base_urls = text_children n ''BaseURL'',
          as_segment_template = template, as_segment_list = listed,
          as_representations = representations\<rparr>)
       (traverse_opt parse_segment_list (child n ''SegmentList''))))"

definition parse_period :: "node \<Rightarrow> manifest_error + period" where
  "parse_period n =
     rbind (traverse_opt parse_iso8601_duration_millis (attribute n ''duration'')) (\<lambda>duration.
     rbind (traverse_list parse_adaptation_set (children_named n ''AdaptationSet'')) (\<lambda>sets.
     rbind (traverse_opt parse_segment_template (child n ''SegmentTemplate'')) (\<lambda>template.
     rmap (\<lambda>listed.
         \<lparr>pd_id = attribute n ''id'', pd_duration_millis = duration,
          pd_base_urls = text_children n ''BaseURL'', pd_segment_template = template,
          pd_segment_list = listed, pd_adaptation_sets = sets\<rparr>)
       (traverse_opt parse_segment_list (child n ''SegmentList'')))))"

definition dash_parse :: "string \<Rightarrow> manifest_error + mpd" where
  "dash_parse text =
     rbind (parse_document text) (\<lambda>root.
     if node_name root \<noteq> ''MPD'' then Inl NotAManifest
     else
       let kind = (case attribute root ''type'' of
                     Some k \<Rightarrow> if eq_ignore_ascii_case k ''dynamic'' then DynamicMpd else StaticMpd
                   | None \<Rightarrow> StaticMpd)
       in
       rbind (traverse_opt parse_iso8601_duration_millis (attribute root ''mediaPresentationDuration'')) (\<lambda>duration.
       rbind (traverse_opt parse_iso8601_duration_millis (attribute root ''minBufferTime'')) (\<lambda>min_buffer.
       rmap (\<lambda>periods.
           \<lparr>mpd_type = kind, mpd_duration_millis = duration, mpd_min_buffer_millis = min_buffer,
            mpd_base_urls = text_children root ''BaseURL'', mpd_periods = periods\<rparr>)
         (traverse_list parse_period (children_named root ''Period'')))))"

section \<open>Timelines\<close>

text \<open>The loop over the repeats of one entry: \<open>n\<close> more segments of duration \<open>d\<close>.\<close>

fun push_times :: "nat \<Rightarrow> u64 \<Rightarrow> u64 \<Rightarrow> u64 list \<Rightarrow> manifest_error + u64 \<times> u64 list" where
  "push_times 0 d time ts = Inr (time, ts)"
| "push_times (Suc n) d time ts =
     (if length ts \<ge> max_segments then Inl Malformed
      else
        rbind (ok_or InvalidNumber (checked_add time d)) (\<lambda>time'.
        push_times n d time' (ts @ [time])))"

definition entry_repeat :: "timeline_entry \<Rightarrow> u64 option \<Rightarrow> u64 \<Rightarrow> manifest_error + u64" where
  "entry_repeat entry period_end time =
     (if 0 <=s te_repeat entry then Inr (te_repeat entry)
      else if te_repeat entry = - 1 then
        rbind (ok_or (Unsupported IncompletePresentation) period_end) (\<lambda>stop.
        if stop \<le> time then Inl Malformed
        else Inr (saturating_sub ((stop - time) div te_duration entry) 1))
      else Inl Malformed)"

fun expand_entries ::
    "timeline_entry list \<Rightarrow> u64 option \<Rightarrow> u64 option \<Rightarrow> u64 list \<Rightarrow> manifest_error + u64 list" where
  "expand_entries [] period_end current ts = Inr ts"
| "expand_entries (entry # es) period_end current ts =
     (if te_duration entry = 0 then Inl Malformed
      else
        rbind (ok_or Malformed (or_else (te_time entry) current)) (\<lambda>time.
        rbind (entry_repeat entry period_end time) (\<lambda>repeat.
        rbind (push_times (Suc (unat repeat)) (te_duration entry) time ts) (\<lambda>(time, ts).
        expand_entries es period_end (Some time) ts))))"

definition expand_timeline :: "timeline_entry list \<Rightarrow> u64 option \<Rightarrow> manifest_error + u64 list" where
  "expand_timeline entries period_end = expand_entries entries period_end None []"

end
