(* ===== verification/Container.thy ===== *)
theory Container
  imports Bytes
begin

text \<open>
  The container sniffer of the stream engine, \<open>crates/gunda-stream/src/container.rs\<close>: what the
  leading bytes of a media resource show about its format.
\<close>

section \<open>Containers\<close>

datatype container = CtMp4 | CtM4a | CtTs | CtMatroska | CtWebm | CtAac | CtMp3

definition sniff_bytes :: nat where "sniff_bytes = 2048"

fun container_extension :: "container \<Rightarrow> string" where
  "container_extension CtMp4 = ''mp4''"
| "container_extension CtM4a = ''m4a''"
| "container_extension CtTs = ''ts''"
| "container_extension CtMatroska = ''mkv''"
| "container_extension CtWebm = ''webm''"
| "container_extension CtAac = ''aac''"
| "container_extension CtMp3 = ''mp3''"

definition is_iso_base_media :: "container \<Rightarrow> bool" where
  "is_iso_base_media c \<longleftrightarrow> c = CtMp4 \<or> c = CtM4a"

definition can_be_muxed :: "container \<Rightarrow> bool" where
  "can_be_muxed c \<longleftrightarrow> c = CtMp4 \<or> c = CtM4a \<or> c = CtTs \<or> c = CtAac"

section \<open>Recognition\<close>

definition is_audio_brand :: "u8 list option \<Rightarrow> bool" where
  "is_audio_brand brand \<longleftrightarrow>
     brand \<in> set (map (\<lambda>b. Some (as_bytes b)) [''M4A '', ''M4B '', ''M4P '', ''F4A ''])"

text \<open>The scan from \<open>index\<close> up to \<open>last\<close>, with the flag \<open>audio\<close>.\<close>

function handler_scan :: "u8 list \<Rightarrow> nat \<Rightarrow> nat \<Rightarrow> bool \<Rightarrow> bool option" where
  "handler_scan head index stop audio =
     (if stop \<le> index then (if audio then Some True else None)
      else if take 4 (drop index head) \<noteq> as_bytes ''hdlr'' then handler_scan head (index + 1) stop audio
      else
        let size = (from_be_bytes (take 4 (drop (index - 4) head)) :: u32) in
        if \<not> (8 \<le> size \<and> size \<le> 4096) then handler_scan head (index + 1) stop audio
        else
          (case slice_get head (index + 12) (index + 16) of
             None \<Rightarrow> handler_scan head (index + 1) stop audio
           | Some handler \<Rightarrow>
               if handler = as_bytes ''vide'' then Some False
               else if handler = as_bytes ''soun'' then handler_scan head (index + 1) stop True
               else handler_scan head (index + 1) stop audio))"
  by pat_completeness auto
termination
  by (relation "measure (\<lambda>(head, index, stop, audio). stop - index)") auto

declare handler_scan.simps [simp del]

definition tracks_are_audio_only :: "u8 list \<Rightarrow> bool option" where
  "tracks_are_audio_only head = handler_scan head 4 (length head - 4) False"

definition iso_base_media :: "u8 list \<Rightarrow> bool \<Rightarrow> container option" where
  "iso_base_media head audio_only =
     (case slice_get head 4 8 of
        None \<Rightarrow> None
      | Some kind \<Rightarrow>
          if kind \<noteq> as_bytes ''ftyp'' then None
          else
            (case tracks_are_audio_only head of
               Some True \<Rightarrow> Some CtM4a
             | Some False \<Rightarrow> Some CtMp4
             | None \<Rightarrow>
                 if is_audio_brand (slice_get head 8 12) \<or> audio_only then Some CtM4a else Some CtMp4))"

definition matroska :: "u8 list \<Rightarrow> container option" where
  "matroska head =
     (if \<not> starts_with [0x1A, 0x45, 0xDF, 0xA3] head then None
      else
        let webm = list_ex (\<lambda>k. take 4 (drop k head) = as_bytes ''webm'') [0..<min 16 (length head - 3)] in
        Some (if webm then CtWebm else CtMatroska))"

fun sync_at :: "u8 list \<Rightarrow> nat list \<Rightarrow> container option" where
  "sync_at head [] = Some CtTs"
| "sync_at head (offset # offsets) =
     (if length head \<le> offset then Some CtTs
      else if head ! offset \<noteq> 0x47 then None
      else sync_at head offsets)"

definition transport_stream :: "u8 list \<Rightarrow> container option" where
  "transport_stream head =
     (if nth_get head 0 \<noteq> Some 0x47 then None
      else let packet = 188 in sync_at head [packet, packet * 2, packet * 3])"

definition id3v2_length :: "u8 list \<Rightarrow> nat option" where
  "id3v2_length bytes =
     (if length bytes < 10 \<or> take 3 bytes \<noteq> as_bytes ''ID3'' then None
      else
        let size = or (push_bit 21 (unat (and (bytes ! 6) 0x7F)))
                     (or (push_bit 14 (unat (and (bytes ! 7) 0x7F)))
                        (or (push_bit 7 (unat (and (bytes ! 8) 0x7F))) (unat (and (bytes ! 9) 0x7F))));
            footer = (if and (bytes ! 5) 0x10 \<noteq> 0 then 10 else 0)
        in Some (10 + size + footer))"

definition mpeg_audio :: "u8 list \<Rightarrow> container option" where
  "mpeg_audio head =
     Option.bind
       (case id3v2_length head of
          Some len \<Rightarrow> if len \<le> length head then Some (drop len head) else None
        | None \<Rightarrow> Some head) (\<lambda>audio.
     Option.bind (nth_get audio 0) (\<lambda>first.
     Option.bind (nth_get audio 1) (\<lambda>second.
     if first \<noteq> 0xFF then None
     else if and second 0xF6 = 0xF0 then Some CtAac
     else if and second 0xE0 = 0xE0 \<and> and second 0x06 \<noteq> 0 then Some CtMp3
     else None)))"

definition sniff :: "u8 list \<Rightarrow> bool \<Rightarrow> container option" where
  "sniff head audio_only =
     or_else (iso_base_media head audio_only)
       (or_else (matroska head) (or_else (transport_stream head) (mpeg_audio head)))"

definition detect :: "u8 list \<Rightarrow> container option \<Rightarrow> container option" where
  "detect head hint = or_else (sniff head (hint = Some CtM4a)) hint"

section \<open>What is recognised\<close>

lemma transport_stream_iff:
  "transport_stream head = Some CtTs \<longleftrightarrow>
     head \<noteq> [] \<and> (\<forall>k \<in> {0, 1, 2, 3}. 188 * k < length head \<longrightarrow> head ! (188 * k) = 0x47)"
  by (cases head) (auto simp: transport_stream_def nth_get_def)

lemma sniff_sync:
  assumes "nth_get head 0 = Some 0x47" "slice_get head 4 8 \<noteq> Some (as_bytes ''ftyp'')"
  shows "sniff head a = transport_stream head"
proof -
  have "id3v2_length head = None" "nth_get head 0 \<noteq> Some 0xFF"
    using assms(1) by (cases head; auto simp: id3v2_length_def nth_get_def as_bytes_def byte_def)+
  then have "mpeg_audio head = None"
    using assms(1) by (auto simp: mpeg_audio_def Option.bind_eq_None_conv)
  moreover have "matroska head = None"
    using assms(1) by (cases head) (auto simp: matroska_def starts_with_def nth_get_def)
  moreover have "iso_base_media head a = None"
    using assms(2) by (auto simp: iso_base_media_def split: option.splits)
  ultimately show ?thesis by (cases "transport_stream head") (simp_all add: sniff_def)
qed

text \<open>
  What the bytes show, independently of the scans: a track handler of a kind, the document type of
  an EBML header, the sync bytes of packets, and a frame header of MPEG audio after a tag.
\<close>

definition handler_at :: "u8 list \<Rightarrow> string \<Rightarrow> nat \<Rightarrow> bool" where
  "handler_at head kind k \<longleftrightarrow>
     take 4 (drop k head) = as_bytes ''hdlr'' \<and>
     8 \<le> (from_be_bytes (take 4 (drop (k - 4) head)) :: u32) \<and>
     (from_be_bytes (take 4 (drop (k - 4) head)) :: u32) \<le> 4096 \<and>
     slice_get head (k + 12) (k + 16) = Some (as_bytes kind)"

definition has_handler :: "u8 list \<Rightarrow> string \<Rightarrow> bool" where
  "has_handler head kind \<longleftrightarrow> (\<exists>k. 4 \<le> k \<and> k < length head - 4 \<and> handler_at head kind k)"

definition names_webm :: "u8 list \<Rightarrow> bool" where
  "names_webm head \<longleftrightarrow> (\<exists>k before after. head = before @ as_bytes ''webm'' @ after \<and> length before = k \<and> k < 16)"

definition sync_bytes :: "u8 list \<Rightarrow> bool" where
  "sync_bytes head \<longleftrightarrow> head \<noteq> [] \<and> (\<forall>k < 4. 188 * k < length head \<longrightarrow> head ! (188 * k) = 0x47)"

definition audio_frame :: "u8 list \<Rightarrow> (u8 \<Rightarrow> bool) \<Rightarrow> bool" where
  "audio_frame head P \<longleftrightarrow>
     (\<exists>tag second rest. head = tag @ 0xFF # second # rest \<and> P second \<and>
        (tag = [] \<or> id3v2_length head = Some (length tag)))"

definition adts_sync :: "u8 \<Rightarrow> bool" where
  "adts_sync b \<longleftrightarrow> and b 0xF6 = 0xF0"

definition mpeg_sync :: "u8 \<Rightarrow> bool" where
  "mpeg_sync b \<longleftrightarrow> \<not> adts_sync b \<and> and b 0xE0 = 0xE0 \<and> and b 0x06 \<noteq> 0"

lemma handler_kinds_differ: "handler_at head ''vide'' k \<Longrightarrow> \<not> handler_at head ''soun'' k"
  by (simp add: handler_at_def)

lemma handler_scan_exact:
  "handler_scan head i stop audio =
     (if \<exists>k. i \<le> k \<and> k < stop \<and> handler_at head ''vide'' k then Some False
      else if audio \<or> (\<exists>k. i \<le> k \<and> k < stop \<and> handler_at head ''soun'' k) then Some True
      else None)"
proof (induction "stop - i" arbitrary: i audio rule: less_induct)
  case less
  show ?case
  proof (cases "stop \<le> i")
    case True
    then show ?thesis by (simp add: handler_scan.simps [of head i])
  next
    case False
    have split: "(\<exists>k. i \<le> k \<and> k < stop \<and> P k) \<longleftrightarrow> P i \<or> (\<exists>k. i + 1 \<le> k \<and> k < stop \<and> P k)" for P
      using False by (metis Suc_eq_plus1 Suc_le_eq le_eq_less_or_eq not_le)
    have "stop - (i + 1) < stop - i" using False by arith
    note rec = less.hyps [OF this]
    consider (vide) "handler_at head ''vide'' i" | (soun) "handler_at head ''soun'' i"
      | (other) "\<not> handler_at head ''vide'' i" "\<not> handler_at head ''soun'' i" by blast
    then show ?thesis
    proof cases
      case vide
      then have "handler_scan head i stop audio = Some False"
        using False by (simp add: handler_scan.simps [of head i] handler_at_def Let_def)
      with vide show ?thesis by (simp add: split)
    next
      case soun
      then have scan: "handler_scan head i stop audio = handler_scan head (i + 1) stop True"
        using False by (simp add: handler_scan.simps [of head i] handler_at_def Let_def)
      have "\<not> handler_at head ''vide'' i" using soun handler_kinds_differ by blast
      with soun show ?thesis unfolding scan rec split by (simp only: simp_thms)
    next
      case other
      then have "handler_scan head i stop audio = handler_scan head (i + 1) stop audio"
        using False
        by (auto simp: handler_scan.simps [of head i] handler_at_def Let_def split: option.splits)
      with other show ?thesis by (simp only: split rec simp_thms)
    qed
  qed
qed

lemma tracks_are_audio_only_exact:
  "tracks_are_audio_only head =
     (if has_handler head ''vide'' then Some False else if has_handler head ''soun'' then Some True else None)"
  by (simp only: tracks_are_audio_only_def handler_scan_exact has_handler_def simp_thms)

lemma window_split: "take 4 (drop k xs) = w \<Longrightarrow> length w = 4 \<Longrightarrow> xs = take k xs @ w @ drop (k + 4) xs"
  by (metis add.commute append_take_drop_id drop_drop)

lemma names_webm_iff:
  "list_ex (\<lambda>k. take 4 (drop k head) = as_bytes ''webm'') [0..<min 16 (length head - 3)] \<longleftrightarrow> names_webm head"
proof -
  have len: "length (as_bytes ''webm'') = 4" by (simp add: as_bytes_def)
  show ?thesis
  proof
    assume "list_ex (\<lambda>k. take 4 (drop k head) = as_bytes ''webm'') [0..<min 16 (length head - 3)]"
    then obtain k where k: "k < 16" "k < length head - 3" "take 4 (drop k head) = as_bytes ''webm''"
      by (auto simp: list_ex_iff)
    from window_split [OF k(3) len] k show "names_webm head"
      unfolding names_webm_def
      by (intro exI [of _ k] exI [of _ "take k head"] exI [of _ "drop (k + 4) head"]) auto
  next
    assume "names_webm head"
    then obtain before after where "head = before @ as_bytes ''webm'' @ after" "length before < 16"
      by (auto simp: names_webm_def)
    moreover from this len have "length before < length head - 3"
      "take 4 (drop (length before) head) = as_bytes ''webm''" by simp_all
    ultimately show "list_ex (\<lambda>k. take 4 (drop k head) = as_bytes ''webm'') [0..<min 16 (length head - 3)]"
      unfolding list_ex_iff set_upt atLeastLessThan_iff by (intro bexI [of _ "length before"]) simp_all
  qed
qed

lemma transport_stream_exact: "transport_stream head = (if sync_bytes head then Some CtTs else None)"
proof -
  have "(\<forall>k < 4. P k) \<longleftrightarrow> P 0 \<and> P 1 \<and> P 2 \<and> P 3" for P :: "nat \<Rightarrow> bool"
    by (simp add: numeral_eq_Suc All_less_Suc conj_commute conj_left_commute)
  then show ?thesis
    by (cases head) (auto simp: transport_stream_def nth_get_def sync_bytes_def)
qed

lemma mpeg_audio_exact:
  "mpeg_audio head =
     (if audio_frame head adts_sync then Some CtAac else if audio_frame head mpeg_sync then Some CtMp3 else None)"
proof -
  define skipped where "skipped = (case id3v2_length head of
      Some len \<Rightarrow> if len \<le> length head then Some (drop len head) else None | None \<Rightarrow> Some head)"
  have tagged: "hd head \<noteq> 0xFF" "head \<noteq> []" if "id3v2_length head = Some n" for n
    using that by (cases head; auto simp: id3v2_length_def as_bytes_def byte_def split: if_splits)+
  have frame: "audio_frame head P \<longleftrightarrow> (\<exists>second rest. skipped = Some (0xFF # second # rest) \<and> P second)" for P
  proof
    assume "audio_frame head P"
    then obtain tag second rest where f: "head = tag @ 0xFF # second # rest" "P second"
      "tag = [] \<or> id3v2_length head = Some (length tag)" by (auto simp: audio_frame_def)
    show "\<exists>second rest. skipped = Some (0xFF # second # rest) \<and> P second"
    proof (cases "id3v2_length head")
      case None
      with f show ?thesis by (simp add: skipped_def)
    next
      case (Some n)
      with f tagged have "n = length tag" by auto
      with f Some show ?thesis by (simp add: skipped_def)
    qed
  next
    assume "\<exists>second rest. skipped = Some (0xFF # second # rest) \<and> P second"
    then obtain second rest where f: "skipped = Some (0xFF # second # rest)" "P second" by blast
    show "audio_frame head P"
    proof (cases "id3v2_length head")
      case None
      with f show ?thesis unfolding audio_frame_def skipped_def by (intro exI [of _ "[]"]) auto
    next
      case (Some n)
      with f have "n \<le> length head" "drop n head = 0xFF # second # rest"
        by (auto simp: skipped_def split: if_splits)
      then have "length (take n head) = n" "head = take n head @ 0xFF # second # rest"
        by (simp, metis append_take_drop_id)
      then show ?thesis unfolding audio_frame_def
        using f(2) Some
        by (intro exI [of _ "take n head"] exI [of _ second] exI [of _ rest]) simp
    qed
  qed
  have "mpeg_audio head = Option.bind skipped (\<lambda>audio. Option.bind (nth_get audio 0) (\<lambda>first.
      Option.bind (nth_get audio 1) (\<lambda>second.
      if first \<noteq> 0xFF then None else if and second 0xF6 = 0xF0 then Some CtAac
      else if and second 0xE0 = 0xE0 \<and> and second 0x06 \<noteq> 0 then Some CtMp3 else None)))"
    by (simp add: mpeg_audio_def skipped_def)
  also have "\<dots> = (if \<exists>second rest. skipped = Some (0xFF # second # rest) \<and> adts_sync second then Some CtAac
      else if \<exists>second rest. skipped = Some (0xFF # second # rest) \<and> mpeg_sync second then Some CtMp3 else None)"
  proof (cases skipped)
    case (Some audio)
    show ?thesis
    proof (cases audio)
      case (Cons first as)
      with Some show ?thesis
        by (cases as) (auto simp: nth_get_def adts_sync_def mpeg_sync_def)
    qed (simp add: Some nth_get_def)
  qed simp
  finally show ?thesis by (simp only: frame)
qed

lemma leading_byte_decides:
  "starts_with [0x1A, 0x45, 0xDF, 0xA3] head \<Longrightarrow> \<not> sync_bytes head"
  "starts_with [0x1A, 0x45, 0xDF, 0xA3] head \<Longrightarrow> \<not> audio_frame head P"
  "sync_bytes head \<Longrightarrow> \<not> audio_frame head P"
proof -
  have frame: "head \<noteq> [] \<and> (hd head = 0xFF \<or> hd head = 0x49)" if audio: "audio_frame head P" for P
  proof -
    from audio obtain tag second rest where f: "head = tag @ 0xFF # second # rest"
      "tag = [] \<or> id3v2_length head = Some (length tag)" by (auto simp: audio_frame_def)
    show ?thesis
    proof (cases "tag = []")
      case False
      with f(2) have "take 3 head = as_bytes ''ID3''" by (auto simp: id3v2_length_def split: if_splits)
      then have "take 1 (take 3 head) = take 1 (as_bytes ''ID3'')" by simp
      then show ?thesis by (cases head) (simp_all add: as_bytes_def byte_def)
    qed (simp add: f(1))
  qed
  show "starts_with [0x1A, 0x45, 0xDF, 0xA3] head \<Longrightarrow> \<not> sync_bytes head"
    by (auto simp: starts_with_iff sync_bytes_def dest!: spec [of _ 0])
  show "starts_with [0x1A, 0x45, 0xDF, 0xA3] head \<Longrightarrow> \<not> audio_frame head P"
    using frame [of P] by (auto simp: starts_with_iff)
  show "sync_bytes head \<Longrightarrow> \<not> audio_frame head P"
    using frame [of P] by (cases head) (auto simp: sync_bytes_def dest!: spec [of _ 0])
qed

lemma nth_concat_blocks:
  "list_all (\<lambda>p. length p = n) ps \<Longrightarrow> k < length ps \<Longrightarrow> 0 < n \<Longrightarrow> concat ps ! (n * k) = hd (ps ! k)"
proof (induction ps arbitrary: k)
  case (Cons p ps)
  then show ?case
    by (cases k; cases p) (auto simp: nth_append)
qed simp

lemma length_concat_blocks: "list_all (\<lambda>p. length p = n) ps \<Longrightarrow> length (concat ps) = n * length ps"
  by (induction ps) auto

section \<open>Properties\<close>

text \<open>
  A resource that starts with whole transport-stream packets is recognised as a transport
  stream, unless its bytes 4 to 7 read \<open>ftyp\<close>.
\<close>

theorem transport_packets_are_recognised:
  assumes "ps \<noteq> []" "list_all (\<lambda>p. length p = 188 \<and> hd p = 0x47) ps"
    "slice_get (concat ps) 4 8 \<noteq> Some (as_bytes ''ftyp'')"
  shows "sniff (concat ps) audio_only = Some CtTs"
proof -
  have len: "list_all (\<lambda>p. length p = 188) ps" and heads: "k < length ps \<Longrightarrow> hd (ps ! k) = 0x47" for k
    using assms(2) by (auto simp: list_all_iff)
  have sync: "concat ps ! (188 * k) = 0x47" if "188 * k < length (concat ps)" for k
    using that nth_concat_blocks [OF len, of k] heads [of k] by (simp add: length_concat_blocks [OF len])
  moreover have "concat ps \<noteq> []"
    using assms(1) length_concat_blocks [OF len] by (metis length_0_conv mult_is_0 zero_neq_numeral)
  ultimately have "transport_stream (concat ps) = Some CtTs" "nth_get (concat ps) 0 = Some 0x47"
    using sync sync [of 0] by (simp_all add: transport_stream_iff nth_get_def)
  with sniff_sync [OF _ assms(3)] show ?thesis by simp
qed

lemma transport_packets_are_recognised_witness:
  "sniff (concat [0x47 # replicate 187 0, 0x47 # replicate 187 1]) True = Some CtTs"
  by (rule transport_packets_are_recognised) (simp, simp, code_simp)

text \<open>
  C22.  What the sniffer names is what the bytes show, for every container and in both directions.
  A file type box makes it MP4 or M4A: MP4 when a video handler is in the bytes, M4A when only sound
  handlers are, and without handlers by the brand and the manifest.  An EBML header makes it WebM or
  Matroska by its document type, sync bytes at every packet start that is there a transport stream,
  and a frame header after an optional tag ADTS or MPEG audio; each of these only without what comes
  before it, and nothing is named without one of them.
\<close>

theorem container_is_what_the_bytes_show:
  "case sniff head audio_only of
     Some CtMp4 \<Rightarrow> slice_get head 4 8 = Some (as_bytes ''ftyp'') \<and>
       (has_handler head ''vide'' \<or>
        \<not> has_handler head ''soun'' \<and> \<not> is_audio_brand (slice_get head 8 12) \<and> \<not> audio_only)
   | Some CtM4a \<Rightarrow> slice_get head 4 8 = Some (as_bytes ''ftyp'') \<and> \<not> has_handler head ''vide'' \<and>
       (has_handler head ''soun'' \<or> is_audio_brand (slice_get head 8 12) \<or> audio_only)
   | Some CtWebm \<Rightarrow> slice_get head 4 8 \<noteq> Some (as_bytes ''ftyp'') \<and>
       starts_with [0x1A, 0x45, 0xDF, 0xA3] head \<and> names_webm head
   | Some CtMatroska \<Rightarrow> slice_get head 4 8 \<noteq> Some (as_bytes ''ftyp'') \<and>
       starts_with [0x1A, 0x45, 0xDF, 0xA3] head \<and> \<not> names_webm head
   | Some CtTs \<Rightarrow> slice_get head 4 8 \<noteq> Some (as_bytes ''ftyp'') \<and> sync_bytes head
   | Some CtAac \<Rightarrow> slice_get head 4 8 \<noteq> Some (as_bytes ''ftyp'') \<and> audio_frame head adts_sync
   | Some CtMp3 \<Rightarrow> slice_get head 4 8 \<noteq> Some (as_bytes ''ftyp'') \<and> audio_frame head mpeg_sync
   | None \<Rightarrow> slice_get head 4 8 \<noteq> Some (as_bytes ''ftyp'') \<and>
       \<not> starts_with [0x1A, 0x45, 0xDF, 0xA3] head \<and> \<not> sync_bytes head \<and>
       \<not> audio_frame head adts_sync \<and> \<not> audio_frame head mpeg_sync"
proof (cases "slice_get head 4 8 = Some (as_bytes ''ftyp'')")
  case True
  then show ?thesis
    by (simp add: sniff_def iso_base_media_def tracks_are_audio_only_exact)
next
  case False
  then have iso: "iso_base_media head audio_only = None"
    by (auto simp: iso_base_media_def split: option.splits)
  show ?thesis
  proof (cases "starts_with [0x1A, 0x45, 0xDF, 0xA3] head")
    case True
    with False iso show ?thesis by (simp add: sniff_def matroska_def names_webm_iff)
  next
    case no_ebml: False
    with False iso show ?thesis
      by (simp add: sniff_def matroska_def transport_stream_exact mpeg_audio_exact)
  qed
qed

lemma container_is_what_the_bytes_show_witness:
  "sniff (as_bytes ''....ftypisom'') False = Some CtMp4 \<and>
   slice_get (as_bytes ''....ftypisom'') 4 8 = Some (as_bytes ''ftyp'') \<and>
   sniff [0xFF, 0xF1] True = Some CtAac \<and> audio_frame [0xFF, 0xF1] adts_sync"
proof -
  have mp4: "sniff (as_bytes ''....ftypisom'') False = Some CtMp4" by code_simp
  have aac: "sniff [0xFF, 0xF1] True = Some CtAac" by code_simp
  show ?thesis
    using container_is_what_the_bytes_show [of "as_bytes ''....ftypisom''" False]
      container_is_what_the_bytes_show [of "[0xFF, 0xF1]" True]
    by (simp add: mp4 aac del: as_bytes_inject)
qed

end
