(* ===== verification/Plan.thy ===== *)
theory Plan
  imports Selection Dash Container
begin

text \<open>
  The plan of a stream download, \<open>crates/gunda-stream/src/plan.rs\<close>: from a parsed playlist or
  manifest and the stored selector to the ordered list of resources.  The URL library is a
  parameter: joining a reference to a base, the scheme and the path of a URL.
\<close>

section \<open>Plans\<close>

record 'u url_ops =
  url_join :: "'u \<Rightarrow> string \<Rightarrow> 'u option"
  url_scheme :: "'u \<Rightarrow> string"
  url_path :: "'u \<Rightarrow> string"

datatype stream_kind = HlsStream | DashStream

fun stream_resource_kind :: "stream_kind \<Rightarrow> resource_kind" where
  "stream_resource_kind HlsStream = KindHls"
| "stream_resource_kind DashStream = KindDash"

record 'u stream_resource =
  sr_url :: 'u
  sr_byte_range :: "byte_range option"
  sr_track :: u8

definition stream_resource_new :: "'u \<Rightarrow> byte_range option \<Rightarrow> 'u stream_resource" where
  "stream_resource_new u rng = \<lparr>sr_url = u, sr_byte_range = rng, sr_track = 0\<rparr>"

definition with_track :: "u8 \<Rightarrow> 'u stream_resource \<Rightarrow> 'u stream_resource" where
  "with_track track r = r\<lparr>sr_track := track\<rparr>"

definition known_length :: "'u stream_resource \<Rightarrow> u64 option" where
  "known_length r = map_option br_length (sr_byte_range r)"

definition byte_interval :: "'u stream_resource \<Rightarrow> (u64 \<times> u64) option" where
  "byte_interval r =
     map_option (\<lambda>rng.
         let start = unwrap_or 0 (br_offset rng)
         in (start, saturating_add start (saturating_sub (br_length rng) 1)))
       (sr_byte_range r)"

record 'u track_plan =
  tp_kind :: stream_kind
  tp_resources :: "'u stream_resource list"
  tp_duration_millis :: "u64 option"
  tp_label :: "string option"
  tp_bandwidth :: "u64 option"
  tp_declared_total_bytes :: "u64 option"
  tp_container_hint :: "container option"

definition track_plan_new ::
    "stream_kind \<Rightarrow> 'u stream_resource list \<Rightarrow> u64 option \<Rightarrow> string option \<Rightarrow> manifest_error + 'u track_plan" where
  "track_plan_new kind resources duration_millis label =
     (if resources = [] then Inl Malformed
      else if length resources > max_segments then Inl Malformed
      else
        Inr \<lparr>tp_kind = kind, tp_resources = resources, tp_duration_millis = duration_millis,
          tp_label = label, tp_bandwidth = None, tp_declared_total_bytes = None, tp_container_hint = None\<rparr>)"

fun sum_lengths :: "u64 \<Rightarrow> u64 option list \<Rightarrow> u64 option" where
  "sum_lengths tot [] = Some tot"
| "sum_lengths tot (l # ls) =
     Option.bind (Option.bind l (\<lambda>n. checked_add tot n)) (\<lambda>tot. sum_lengths tot ls)"

definition known_total_bytes :: "'u track_plan \<Rightarrow> u64 option" where
  "known_total_bytes p = sum_lengths 0 (map known_length (tp_resources p))"

definition estimated_total_bytes :: "'u track_plan \<Rightarrow> u64 option" where
  "estimated_total_bytes p =
     or_else (tp_declared_total_bytes p)
       (Option.bind (tp_duration_millis p) (\<lambda>duration.
        map_option (\<lambda>bandwidth. saturating_mul bandwidth duration div 8000) (tp_bandwidth p)))"

definition track_count :: "'u track_plan \<Rightarrow> nat" where
  "track_count p =
     (case tp_resources p of [] \<Rightarrow> 0 | rs \<Rightarrow> Suc (unat (Max (set (map sr_track rs)))))"

definition resources_of :: "'u track_plan \<Rightarrow> u8 \<Rightarrow> 'u stream_resource list" where
  "resources_of p track = filter (\<lambda>r. sr_track r = track) (tp_resources p)"

definition retracked :: "u8 \<Rightarrow> 'u track_plan \<Rightarrow> 'u track_plan" where
  "retracked track p = p\<lparr>tp_resources := map (with_track track) (tp_resources p)\<rparr>"

definition muxable :: "container option \<Rightarrow> bool" where
  "muxable c = (case c of Some c \<Rightarrow> can_be_muxed c | None \<Rightarrow> False)"

text \<open>\<open>Option::max\<close>, where \<open>None\<close> is the least, and the sum of what is declared.\<close>

definition option_max :: "u64 option \<Rightarrow> u64 option \<Rightarrow> u64 option" where
  "option_max a b =
     (case (a, b) of (Some x, Some y) \<Rightarrow> Some (max x y) | (Some x, None) \<Rightarrow> Some x | (None, b) \<Rightarrow> b)"

definition option_sum :: "u64 option \<Rightarrow> u64 option \<Rightarrow> u64 option" where
  "option_sum a b =
     (case (a, b) of
        (Some x, Some y) \<Rightarrow> Some (saturating_add x y)
      | (Some x, None) \<Rightarrow> Some x
      | (None, Some y) \<Rightarrow> Some y
      | (None, None) \<Rightarrow> None)"

definition with_audio :: "'u track_plan \<Rightarrow> 'u track_plan \<Rightarrow> manifest_error + 'u track_plan" where
  "with_audio p audio =
     (if \<not> muxable (tp_container_hint p) \<or> \<not> muxable (tp_container_hint audio)
        then Inl (Unsupported SeparateTracks)
      else if length (tp_resources p) + length (tp_resources audio) > max_segments then Inl Malformed
      else
        Inr (p\<lparr>tp_resources := tp_resources p @ map (with_track 1) (tp_resources audio),
          tp_container_hint := Some CtMp4,
          tp_duration_millis := option_max (tp_duration_millis p) (tp_duration_millis audio),
          tp_bandwidth := option_sum (tp_bandwidth p) (tp_bandwidth audio),
          tp_declared_total_bytes := option_sum (tp_declared_total_bytes p) (tp_declared_total_bytes audio)\<rparr>))"

datatype 'u hls_outcome =
  FetchVariant (fv_url: 'u) (fv_label: "string option") (fv_bandwidth: "u64 option")
    (fv_declared_total: "u64 option") (fv_audio: "'u option")
| Ready "'u track_plan"

section \<open>HLS\<close>

definition declares_aac :: "string option \<Rightarrow> bool" where
  "declares_aac codecs =
     (case codecs of
        Some c \<Rightarrow> list_ex (\<lambda>codec. starts_with ''mp4a'' (to_ascii_lowercase (trim codec))) (split_on (CHR '','') c)
      | None \<Rightarrow> False)"

text \<open>Sorting and deduplicating the groups only serves to count them.\<close>

definition select_variant :: "master_playlist \<Rightarrow> variant option" where
  "select_variant m =
     (let groups = remdups (List.map_filter var_audio_group (ms_variants m)) in
      if length groups > 1 then
        or_else (max_by_key variant_rank (filter (\<lambda>v. declares_aac (var_codecs v)) (ms_variants m)))
          (best_variant m)
      else best_variant m)"

definition list_get :: "'a list \<Rightarrow> u64 \<Rightarrow> 'a option" where
  "list_get xs i = (if unat i < length xs then Some (xs ! unat i) else None)"

definition selected_variant :: "master_playlist \<Rightarrow> execution_selection \<Rightarrow> manifest_error + variant" where
  "selected_variant m selection =
     rbind (parse_hls selection) (\<lambda>selected.
     rbind (ok_or SelectionUnavailable (list_get (ms_variants m) (sel_variant selected))) (\<lambda>v.
     if var_bandwidth v \<noteq> sel_bandwidth selected \<or> variant_resolution v \<noteq> sel_resolution selected
       then Inl SelectionUnavailable
     else Inr v))"

definition selected_audio_rendition ::
    "master_playlist \<Rightarrow> variant \<Rightarrow> execution_selection option \<Rightarrow> manifest_error + rendition option" where
  "selected_audio_rendition m v selection =
     (case selection of
        None \<Rightarrow> Inr (default_audio_rendition m v)
      | Some selection \<Rightarrow>
          rbind (parse_hls selection) (\<lambda>selected.
          case sel_audio_rendition selected of
            None \<Rightarrow> Inr (default_audio_rendition m v)
          | Some index \<Rightarrow>
              rbind (ok_or SelectionUnavailable (list_get (ms_renditions m) index)) (\<lambda>r.
              if \<not> eq_ignore_ascii_case (ren_kind r) ''AUDIO'' \<or> ren_uri r = None \<or>
                 ren_group_id r \<noteq> var_audio_group v \<or> ren_language r \<noteq> sel_audio_language selected
                then Inl SelectionUnavailable
              else Inr (Some r))))"

definition resolve :: "'u url_ops \<Rightarrow> 'u \<Rightarrow> string \<Rightarrow> byte_range option \<Rightarrow> manifest_error + 'u stream_resource" where
  "resolve ops base uri rng =
     rbind (ok_or Malformed (url_join ops base uri)) (\<lambda>u.
     if url_scheme ops u \<noteq> ''http'' \<and> url_scheme ops u \<noteq> ''https'' then Inl Malformed
     else Inr (stream_resource_new u rng))"

definition bandwidth_hint :: "u64 \<Rightarrow> string" where
  "bandwidth_hint bandwidth =
     (if bandwidth \<ge> 1000000 then
        (case f64_of_nat (uint bandwidth) of
           F64Finite _ m e \<Rightarrow>
             (case fin_div m e 1000000 of
                F64Finite _ m e \<Rightarrow> show_one_decimal m e @ '' Mbps''
              | _ \<Rightarrow> [])
         | _ \<Rightarrow> [])
      else show_word (bandwidth div 1000) @ '' kbps'')"

definition label_for_variant :: "variant \<Rightarrow> string option" where
  "label_for_variant v =
     (case (variant_resolution v, var_bandwidth v) of
        (Some (w, h), Some bandwidth) \<Rightarrow>
          Some (show_word w @ ''x'' @ show_word h @ '' ('' @ bandwidth_hint bandwidth @ '')'')
      | (Some (w, h), None) \<Rightarrow> Some (show_word w @ ''x'' @ show_word h)
      | (None, Some bandwidth) \<Rightarrow> Some (bandwidth_hint bandwidth)
      | (None, None) \<Rightarrow> None)"

text \<open>The loop over the segments, which fetches an initialization map when it changes.\<close>

fun media_resources ::
    "'u url_ops \<Rightarrow> 'u \<Rightarrow> u8 \<Rightarrow> resource_ref option \<Rightarrow> segment list \<Rightarrow> 'u stream_resource list \<Rightarrow>
     manifest_error + 'u stream_resource list" where
  "media_resources ops base track current_init [] resources = Inr resources"
| "media_resources ops base track current_init (s # ss) resources =
     rbind
       (case seg_init s of
          Some init \<Rightarrow>
            if current_init \<noteq> Some init then
              rmap (\<lambda>r. (resources @ [with_track track r], Some init))
                (resolve ops base (ref_uri init) (ref_range init))
            else Inr (resources, current_init)
        | None \<Rightarrow> Inr (resources, None))
       (\<lambda>(resources, current_init).
     rbind (resolve ops base (ref_uri (seg_resource s)) (ref_range (seg_resource s))) (\<lambda>r.
     media_resources ops base track current_init ss (resources @ [with_track track r])))"

definition plan_media_playlist :: "'u url_ops \<Rightarrow> 'u \<Rightarrow> media_playlist \<Rightarrow> u8 \<Rightarrow> manifest_error + 'u track_plan" where
  "plan_media_playlist ops base playlist track =
     (if playlist_is_encrypted playlist then Inl (Unsupported EncryptedSegments)
      else if \<not> mp_ended playlist then Inl (Unsupported IncompletePresentation)
      else if length (mp_segments playlist) + 1 > max_segments then Inl TooManySegments
      else
        rbind (media_resources ops base track None (mp_segments playlist) []) (\<lambda>resources.
        let hint = (if list_ex (\<lambda>s. seg_init s \<noteq> None) (mp_segments playlist) then CtMp4 else CtTs) in
        rmap (\<lambda>p. p\<lparr>tp_container_hint := Some hint\<rparr>)
          (track_plan_new HlsStream resources (total_duration_millis playlist) None)))"

definition plan_hls_selected ::
    "'u url_ops \<Rightarrow> 'u \<Rightarrow> playlist \<Rightarrow> execution_selection option \<Rightarrow> manifest_error + 'u hls_outcome" where
  "plan_hls_selected ops base playlist selection =
     (case playlist of
        Master m \<Rightarrow>
          rbind (case selection of
                   Some selection \<Rightarrow> selected_variant m selection
                 | None \<Rightarrow> ok_or Malformed (select_variant m)) (\<lambda>v.
          rbind (resolve ops base (var_uri v) None) (\<lambda>r.
          rbind (selected_audio_rendition m v selection) (\<lambda>rendition.
          rmap (\<lambda>audio. FetchVariant (sr_url r) (label_for_variant v) (var_bandwidth v)
              (Option.bind selection (\<lambda>s. Option.bind (result_ok (parse_hls s)) sel_declared_total))
              (map_option sr_url audio))
            (traverse_opt (\<lambda>uri. resolve ops base uri None) (Option.bind rendition ren_uri)))))
      | Media media \<Rightarrow>
          if selection = None then rmap Ready (plan_media_playlist ops base media 0)
          else Inl SelectionUnavailable)"

definition plan_hls :: "'u url_ops \<Rightarrow> 'u \<Rightarrow> playlist \<Rightarrow> manifest_error + 'u hls_outcome" where
  "plan_hls ops base playlist = plan_hls_selected ops base playlist None"

section \<open>Templates\<close>

text \<open>\<open>format!("{value:0width$}")\<close>.\<close>

definition pad_zeros :: "nat \<Rightarrow> string \<Rightarrow> string" where
  "pad_zeros width s = replicate (width - length s) (CHR ''0'') @ s"

definition format_number :: "u64 \<Rightarrow> string option \<Rightarrow> manifest_error + string" where
  "format_number value format =
     (case format of
        None \<Rightarrow> Inr (show_word value)
      | Some format \<Rightarrow>
          let width = dropWhile (\<lambda>c. c = CHR ''0'') (unwrap_or format (strip_suffix ''d'' format)) in
          if width = [] then Inr (show_word value)
          else
            rbind (ok_or Malformed (parse_uint width)) (\<lambda>width :: u64.
            if width = 0 \<or> width > 32 then Inl Malformed
            else Inr (pad_zeros (unat width) (show_word value))))"

definition template_token ::
    "string option \<Rightarrow> u64 option \<Rightarrow> u64 option \<Rightarrow> u64 option \<Rightarrow> string \<Rightarrow> manifest_error + string" where
  "template_token representation_id bandwidth num time token =
     (let (identifier, format) =
        (case split_once (CHR ''%'') token of Some (i, f) \<Rightarrow> (i, Some f) | None \<Rightarrow> (token, None))
      in if identifier = ''RepresentationID'' then
           (if format \<noteq> None then Inl Malformed else ok_or Malformed representation_id)
         else if identifier = ''Bandwidth'' then rbind (ok_or Malformed bandwidth) (\<lambda>n. format_number n format)
         else if identifier = ''Number'' then rbind (ok_or Malformed num) (\<lambda>n. format_number n format)
         else if identifier = ''Time'' then rbind (ok_or Malformed time) (\<lambda>n. format_number n format)
         else Inl Malformed)"

function substitute_loop ::
    "(string \<Rightarrow> manifest_error + string) \<Rightarrow> string \<Rightarrow> string \<Rightarrow> manifest_error + string" where
  "substitute_loop token_value expanded rest =
     (case split_once (CHR ''$'') rest of
        None \<Rightarrow> Inr (expanded @ rest)
      | Some (before, after) \<Rightarrow>
          (case split_once (CHR ''$'') after of
             None \<Rightarrow> Inl Malformed
           | Some (token, rest') \<Rightarrow>
               if token = [] then substitute_loop token_value (expanded @ before @ ''$'') rest'
               else
                 rbind (token_value token) (\<lambda>v.
                 substitute_loop token_value (expanded @ before @ v) rest')))"
  by pat_completeness auto
termination
  by (relation "measure (\<lambda>(token_value, expanded, rest). length rest)") (auto dest!: split_once_length)

declare substitute_loop.simps [simp del]

definition substitute_template ::
    "string \<Rightarrow> string option \<Rightarrow> u64 option \<Rightarrow> u64 option \<Rightarrow> u64 option \<Rightarrow> manifest_error + string" where
  "substitute_template template representation_id bandwidth num time =
     (if CHR ''$'' \<notin> set template then Inr template
      else substitute_loop (template_token representation_id bandwidth num time) [] template)"

section \<open>DASH\<close>

definition segment_count :: "u64 option \<Rightarrow> u64 \<Rightarrow> u64 \<Rightarrow> manifest_error + u64" where
  "segment_count duration_millis timescale duration =
     rbind (ok_or (Unsupported IncompletePresentation) duration_millis) (\<lambda>duration_millis.
     if duration = 0 \<or> timescale = 0 then Inl Malformed
     else
       let ticks = uint duration_millis * uint timescale;
           per_segment = uint duration * 1000;
           count = (ticks + per_segment - 1) div per_segment
       in if count < 2 ^ 64 then Inr (of_int count) else Inl InvalidNumber)"

definition inclusive_range :: "u64 \<times> u64 \<Rightarrow> byte_range" where
  "inclusive_range r =
     \<lparr>br_length = saturating_add (saturating_sub (snd r) (fst r)) 1, br_offset = Some (fst r)\<rparr>"

definition template_resources ::
    "'u url_ops \<Rightarrow> 'u \<Rightarrow> representation \<Rightarrow> u64 option \<Rightarrow> segment_template \<Rightarrow>
     manifest_error + 'u stream_resource list" where
  "template_resources ops resolved r period_end_millis t =
     rbind (ok_or Malformed (st_media t)) (\<lambda>media.
     let timescale = template_timescale t;
         fill = (\<lambda>template num time.
           rbind (substitute_template template (rp_id r) (rp_bandwidth r) num time) (\<lambda>uri.
           resolve ops resolved uri None))
     in
     rbind (case st_initialization t of
              Some initialization \<Rightarrow> rmap (\<lambda>res. [res]) (fill initialization None None)
            | None \<Rightarrow> Inr []) (\<lambda>resources.
     case st_timeline t of
       Some timeline \<Rightarrow>
         rbind (expand_timeline timeline
             (map_option (\<lambda>millis. saturating_mul millis timescale div 1000) period_end_millis)) (\<lambda>ts.
         if length resources + length ts > max_segments then Inl TooManySegments
         else rmap (\<lambda>rs. resources @ rs) (traverse_list (\<lambda>time. fill media None (Some time)) ts))
     | None \<Rightarrow>
         rbind (ok_or Malformed (st_duration t)) (\<lambda>duration.
         rbind (segment_count period_end_millis timescale duration) (\<lambda>count.
         if uint count > int (max_segments - length resources) then Inl TooManySegments
         else
           rmap (\<lambda>rs. resources @ rs)
             (traverse_list
               (\<lambda>index. fill media (Some (saturating_add (template_start_number t) (of_nat index))) None)
               [0..<unat count])))))"

definition list_resources ::
    "'u url_ops \<Rightarrow> 'u \<Rightarrow> segment_list \<Rightarrow> manifest_error + 'u stream_resource list" where
  "list_resources ops resolved l =
     rbind (case sl_initialization l of
              Some init \<Rightarrow>
                rmap (\<lambda>res. [res]) (resolve ops resolved (si_source_url init) (map_option inclusive_range (si_range init)))
            | None \<Rightarrow> Inr []) (\<lambda>resources.
     rbind (ok_or Malformed (sl_segment_urls l)) (\<lambda>urls.
     if length resources + length urls > max_segments then Inl TooManySegments
     else
       rmap (\<lambda>rs. resources @ rs)
         (traverse_list
           (\<lambda>s. resolve ops resolved (unwrap_or [] (su_media s)) (map_option inclusive_range (su_media_range s)))
           urls)))"

text \<open>The base URL: the first one of each level, joined from the outside in.\<close>

fun join_bases :: "'u url_ops \<Rightarrow> 'u \<Rightarrow> string list list \<Rightarrow> manifest_error + 'u" where
  "join_bases ops base [] = Inr base"
| "join_bases ops base (level # levels) =
     (case level of
        [] \<Rightarrow> join_bases ops base levels
      | u # _ \<Rightarrow> rbind (ok_or Malformed (url_join ops base u)) (\<lambda>base. join_bases ops base levels))"

record 'u planned_set =
  ps_resources :: "'u stream_resource list"
  ps_label :: "string option"
  ps_container :: container
  ps_duration_millis :: "u64 option"

definition representation_label :: "representation \<Rightarrow> string option" where
  "representation_label r =
     (case (representation_resolution r, rp_id r) of
        (Some (w, h), Some rid) \<Rightarrow> Some (show_word w @ ''x'' @ show_word h @ '' ('' @ rid @ '')'')
      | (Some (w, h), None) \<Rightarrow> Some (show_word w @ ''x'' @ show_word h)
      | (None, Some rid) \<Rightarrow> Some rid
      | (None, None) \<Rightarrow> None)"

definition set_resources ::
    "'u url_ops \<Rightarrow> 'u \<Rightarrow> representation \<Rightarrow> u64 option \<Rightarrow> representation_addressing \<Rightarrow>
     manifest_error + 'u stream_resource list" where
  "set_resources ops resolved r period_end_millis a =
     (case a of
        TemplateAddressing t \<Rightarrow> template_resources ops resolved r period_end_millis t
      | ListAddressing l \<Rightarrow> list_resources ops resolved l
      | BaseAddressing _ \<Rightarrow> Inl (Unsupported SegmentIndex)
      | SingleFile \<Rightarrow>
          if url_path ops resolved = [] \<or> ends_with ''/'' (url_path ops resolved)
            then Inl (Unsupported SegmentIndex)
          else Inr [stream_resource_new resolved None])"

definition plan_set ::
    "'u url_ops \<Rightarrow> 'u \<Rightarrow> mpd \<Rightarrow> period \<Rightarrow> adaptation_set \<Rightarrow> u64 \<Rightarrow> manifest_error + 'u planned_set" where
  "plan_set ops base m p s representation_index =
     rbind (ok_or SelectionUnavailable (list_get (as_representations s) representation_index)) (\<lambda>r.
     rbind (join_bases ops base [mpd_base_urls m, pd_base_urls p, as_base_urls s, rp_base_urls r]) (\<lambda>resolved.
     let period_end_millis = or_else (pd_duration_millis p) (mpd_duration_millis m) in
     rmap (\<lambda>resources.
         \<lparr>ps_resources = resources, ps_label = representation_label r,
          ps_container = (if set_kind s = AudioTrack then CtM4a else CtMp4),
          ps_duration_millis = period_end_millis\<rparr>)
       (set_resources ops resolved r period_end_millis (addressing r s p))))"

definition plan_dash_track ::
    "'u url_ops \<Rightarrow> 'u \<Rightarrow> mpd \<Rightarrow> period \<Rightarrow> u64 \<times> u64 \<Rightarrow> manifest_error + 'u track_plan" where
  "plan_dash_track ops base m p choice =
     (case choice of (set_index, representation_index) \<Rightarrow>
     rbind (ok_or SelectionUnavailable (list_get (pd_adaptation_sets p) set_index)) (\<lambda>s.
     rbind (plan_set ops base m p s representation_index) (\<lambda>planned.
     let bandwidth = Option.bind (list_get (as_representations s) representation_index) rp_bandwidth in
     rmap (\<lambda>plan. plan\<lparr>tp_container_hint := Some (ps_container planned), tp_bandwidth := bandwidth\<rparr>)
       (track_plan_new DashStream (ps_resources planned) (ps_duration_millis planned) (ps_label planned)))))"

definition best_bandwidth :: "adaptation_set \<Rightarrow> u64" where
  "best_bandwidth s = fold max (map (\<lambda>r. unwrap_or 0 (rp_bandwidth r)) (as_representations s)) 0"

text \<open>The sets and representations with their positions.\<close>

definition with_index :: "'a list \<Rightarrow> (u64 \<times> 'a) list" where
  "with_index xs = map (\<lambda>i. (of_nat i, xs ! i)) [0..<length xs]"

definition audio_set_index :: "period \<Rightarrow> u64 option" where
  "audio_set_index p =
     map_option fst (max_by_key (\<lambda>e. best_bandwidth (snd e))
       (filter (\<lambda>e. set_kind (snd e) = AudioTrack \<and> as_representations (snd e) \<noteq> [])
         (with_index (pd_adaptation_sets p))))"

definition select_set_index :: "period \<Rightarrow> u64 option" where
  "select_set_index p =
     (let populated = filter (\<lambda>e. as_representations (snd e) \<noteq> []) (with_index (pd_adaptation_sets p)) in
      map_option fst
        (or_else
          (max_by_key (\<lambda>e. best_bandwidth (snd e)) (filter (\<lambda>e. set_kind (snd e) = VideoTrack) populated))
          (max_by_key (\<lambda>e. best_bandwidth (snd e)) (filter (\<lambda>e. set_kind (snd e) \<noteq> TextTrack) populated))))"

definition representation_rank :: "representation \<Rightarrow> u64 \<times> u32 \<times> u32" where
  "representation_rank r =
     (unwrap_or 0 (rp_bandwidth r),
      (case representation_resolution r of Some (w, _) \<Rightarrow> w | None \<Rightarrow> 0),
      (case representation_resolution r of Some (_, h) \<Rightarrow> h | None \<Rightarrow> 0))"

definition best_representation_index :: "adaptation_set \<Rightarrow> u64 option" where
  "best_representation_index s =
     map_option fst (max_by_key (\<lambda>e. representation_rank (snd e)) (with_index (as_representations s)))"

record dash_tracks =
  dt_video :: "(u64 \<times> u64) option"
  dt_audio :: "(u64 \<times> u64) option"

definition default_dash_tracks :: "period \<Rightarrow> manifest_error + dash_tracks" where
  "default_dash_tracks p =
     (let sets = pd_adaptation_sets p in
      rbind (ok_or Malformed (select_set_index p)) (\<lambda>video_set.
      rbind (ok_or Malformed (best_representation_index (sets ! unat video_set))) (\<lambda>r.
      let audio =
        (if set_kind (sets ! unat video_set) = VideoTrack then
           Option.bind (audio_set_index p) (\<lambda>s. map_option (Pair s) (best_representation_index (sets ! unat s)))
         else None)
      in Inr \<lparr>dt_video = Some (video_set, r), dt_audio = audio\<rparr>)))"

definition validate_dash_choice :: "period \<Rightarrow> u64 \<Rightarrow> u64 \<Rightarrow> track_kind \<Rightarrow> u64 option \<Rightarrow> manifest_error + unit" where
  "validate_dash_choice p set_index representation_index kind bandwidth =
     rbind (ok_or SelectionUnavailable (list_get (pd_adaptation_sets p) set_index)) (\<lambda>s.
     if set_kind s \<noteq> kind then Inl SelectionUnavailable
     else
       rbind (ok_or SelectionUnavailable (list_get (as_representations s) representation_index)) (\<lambda>r.
       if rp_bandwidth r \<noteq> bandwidth then Inl SelectionUnavailable else Inr ()))"

definition selected_track ::
    "period \<Rightarrow> track_kind \<Rightarrow> u64 option \<Rightarrow> u64 option \<Rightarrow> u64 option \<Rightarrow> manifest_error + (u64 \<times> u64) option" where
  "selected_track p kind set_index representation_index bandwidth =
     (case (set_index, representation_index) of
        (Some s, Some r) \<Rightarrow> rmap (\<lambda>_. Some (s, r)) (validate_dash_choice p s r kind bandwidth)
      | (None, None) \<Rightarrow> Inr None
      | _ \<Rightarrow> Inl SelectionUnavailable)"

definition selected_dash_tracks :: "period \<Rightarrow> execution_selection \<Rightarrow> manifest_error + dash_tracks" where
  "selected_dash_tracks p selection =
     rbind (parse_dash selection) (\<lambda>d.
     rbind (selected_track p VideoTrack (sel_video_set d) (sel_video_representation d) (sel_video_bandwidth d)) (\<lambda>video.
     rmap (\<lambda>audio. \<lparr>dt_video = video, dt_audio = audio\<rparr>)
       (selected_track p AudioTrack (sel_audio_set d) (sel_audio_representation d) (sel_audio_bandwidth d))))"

definition plan_dash_selected ::
    "'u url_ops \<Rightarrow> 'u \<Rightarrow> mpd \<Rightarrow> execution_selection option \<Rightarrow> manifest_error + 'u track_plan" where
  "plan_dash_selected ops base m selection =
     (if mpd_type m = DynamicMpd then Inl (Unsupported IncompletePresentation)
      else
        rbind (media_period m) (\<lambda>p.
        rbind (case selection of
                 Some selection \<Rightarrow> selected_dash_tracks p selection
               | None \<Rightarrow> default_dash_tracks p) (\<lambda>tracks.
        rbind (traverse_opt (plan_dash_track ops base m p) (dt_video tracks)) (\<lambda>video_plan.
        rbind (traverse_opt (plan_dash_track ops base m p) (dt_audio tracks)) (\<lambda>audio_plan.
        case (video_plan, audio_plan) of
          (Some video, Some audio) \<Rightarrow> with_audio video audio
        | (Some video, None) \<Rightarrow> Inr video
        | (None, Some audio) \<Rightarrow> Inr audio
        | (None, None) \<Rightarrow> Inl Malformed)))))"

definition plan_dash :: "'u url_ops \<Rightarrow> 'u \<Rightarrow> mpd \<Rightarrow> manifest_error + 'u track_plan" where
  "plan_dash ops base m = plan_dash_selected ops base m None"

end
