(* ===== verification/Dash_Correct.thy ===== *)
theory Dash_Correct
  imports Dash
begin

text \<open>
  What the DASH parser guarantees: the expansion of a segment timeline agrees with a specification
  over the natural numbers, and addressing follows the inheritance of the three levels.
\<close>

section \<open>Timelines over the natural numbers\<close>

definition entry_segments :: "timeline_entry \<Rightarrow> nat option \<Rightarrow> nat \<Rightarrow> nat" where
  "entry_segments e stop start =
     (if 0 <=s te_repeat e then Suc (unat (te_repeat e))
      else max 1 ((the stop - start) div unat (te_duration e)))"

fun timeline_times :: "nat option \<Rightarrow> nat option \<Rightarrow> timeline_entry list \<Rightarrow> nat list" where
  "timeline_times stop current [] = []"
| "timeline_times stop current (e # es) =
     (let start = (case te_time e of Some t \<Rightarrow> unat t | None \<Rightarrow> the current);
          d = unat (te_duration e);
          n = entry_segments e stop start
      in map (\<lambda>k. start + k * d) [0..<n] @ timeline_times stop (Some (start + n * d)) es)"

lemma push_times_Inr:
  "push_times n d t ts = Inr (t', ts') \<Longrightarrow> length ts \<le> max_segments \<Longrightarrow>
     unat t' = unat t + n * unat d \<and>
     map unat ts' = map unat ts @ map (\<lambda>k. unat t + k * unat d) [0..<n] \<and> length ts' \<le> max_segments"
proof (induction n d t ts rule: push_times.induct)
  case (2 n d t ts)
  then obtain u where u: "checked_add t d = Some u" "push_times n d u (ts @ [t]) = Inr (t', ts')"
    "length ts < max_segments"
    by (auto simp: result_simps split: if_splits)
  with 2 have "unat t' = unat u + n * unat d \<and>
     map unat ts' = map unat (ts @ [t]) @ map (\<lambda>k. unat u + k * unat d) [0..<n] \<and> length ts' \<le> max_segments"
    by auto
  moreover have "map (\<lambda>k. unat t + k * unat d) [0..<Suc n] =
      unat t # map (\<lambda>k. unat t + unat d + k * unat d) [0..<n]"
    by (simp only: upt_conv_Cons [of 0 "Suc n"] map_Suc_upt [symmetric]) simp
  ultimately show ?case using unat_checked_add [OF u(1)] by (simp del: upt_Suc)
qed simp

lemma entry_repeat_Inr:
  assumes "entry_repeat e stop t = Inr r" "te_duration e \<noteq> 0"
  shows "Suc (unat r) = entry_segments e (map_option unat stop) (unat t)"
proof (cases "0 <=s te_repeat e")
  case True
  with assms(1) show ?thesis by (simp add: entry_repeat_def entry_segments_def)
next
  case False
  with assms(1) obtain p where p: "stop = Some p" "\<not> p \<le> t" "r = saturating_sub ((p - t) div te_duration e) 1"
    by (auto simp: entry_repeat_def result_simps split: if_splits)
  have "unat ((p - t) div te_duration e) = (unat p - unat t) div unat (te_duration e)"
    using p(2) by (simp add: unat_div_distrib unat_sub not_le less_imp_le)
  then show ?thesis using p False by (simp add: entry_segments_def unat_saturating_sub)
qed

lemma expand_entries_Inr:
  "expand_entries es stop current ts = Inr ts' \<Longrightarrow> length ts \<le> max_segments \<Longrightarrow>
     map unat ts' = map unat ts @ timeline_times (map_option unat stop) (map_option unat current) es \<and>
     length ts' \<le> max_segments \<and> (\<forall>e \<in> set es. te_duration e \<noteq> 0)"
proof (induction es arbitrary: current ts)
  case (Cons e es)
  from Cons.prems obtain t r t' ts1 where nz: "te_duration e \<noteq> 0"
    and t: "or_else (te_time e) current = Some t" and r: "entry_repeat e stop t = Inr r"
    and push: "push_times (Suc (unat r)) (te_duration e) t ts = Inr (t', ts1)"
    and rest: "expand_entries es stop (Some t') ts1 = Inr ts'"
    by (auto simp: result_simps simp del: push_times.simps split: if_splits)
  have start: "(case te_time e of Some t \<Rightarrow> unat t | None \<Rightarrow> the (map_option unat current)) = unat t"
    using t by (auto simp: or_else_def split: option.splits)
  note n = entry_repeat_Inr [OF r nz]
  note p = push_times_Inr [OF push Cons.prems(2), unfolded n]
  with Cons.IH [OF rest] nz show ?case by (simp add: start Let_def)
qed simp

text \<open>Within an entry the times go up by its duration.\<close>

lemma entry_times_increase: "0 < d \<Longrightarrow> sorted_wrt (<) (map (\<lambda>k. a + k * d) [0..<n])" for a d n :: nat
  by (simp add: sorted_wrt_iff_nth_less)

section \<open>Inheritance\<close>

lemma or_else_assoc: "or_else (or_else a b) c = or_else a (or_else b c)"
  by (cases a) simp_all

text \<open>A field of the merged template is the innermost one that is set.\<close>

lemma merged_field:
  assumes "merge_template inner s p = Some t"
    and f: "\<And>t outer. f (template_inherit t outer) = or_else (f t) (f outer)" "f template_default = None"
  shows "f t = or_else (Option.bind inner f) (or_else (Option.bind s f) (Option.bind p f))"
  using assms(1)
  by (cases inner; cases s; cases p) (auto simp: merge_template_def unwrap_or_def f or_else_assoc)

lemma merge_template_None: "merge_template inner s p = None \<longleftrightarrow> inner = None \<and> s = None \<and> p = None"
  by (auto simp: merge_template_def Let_def)

section \<open>Properties\<close>

text \<open>
  C36.  A segment timeline that is accepted expands to the times of its entries over the natural
  numbers, so no addition wraps: every entry starts at its own time or where the previous one
  ended, repeats as often as it says or as often as its duration fits before the end of the
  period, and there are at most 200,000 segments, all of entries with a duration.
\<close>

theorem timeline_is_expanded:
  assumes "expand_timeline es stop = Inr ts"
  shows "map unat ts = timeline_times (map_option unat stop) None es \<and> length ts \<le> 200000 \<and>
    (\<forall>e \<in> set es. te_duration e \<noteq> 0)"
  using expand_entries_Inr [OF assms [unfolded expand_timeline_def]] by (simp add: max_segments_def)

definition sample_timeline :: "timeline_entry list" where
  "sample_timeline =
     [\<lparr>te_time = Some 5, te_duration = 2, te_repeat = 2\<rparr>, \<lparr>te_time = None, te_duration = 3, te_repeat = - 1\<rparr>]"

theorem timeline_is_expanded_witness:
  "expand_timeline sample_timeline (Some 17) = Inr [5, 7, 9, 11, 14] \<and>
   timeline_times (Some 17) None sample_timeline = [5, 7, 9, 11, 14]"
proof -
  have e: "expand_timeline sample_timeline (Some 17) = Inr [5, 7, 9, 11, 14]" by code_simp
  from timeline_is_expanded [OF e] show ?thesis using e by simp
qed

text \<open>
  The repeats of an open entry stop at the last segment that fits before the end of the period:
  a shorter segment that the period ends with is left out.
\<close>

lemma last_partial_segment_is_dropped:
  "expand_timeline [\<lparr>te_time = Some 0, te_duration = 4, te_repeat = - 1\<rparr>] (Some 10) = Inr [0, 4]"
  by code_simp

end
