(* ===== verification/Plan_Correct.thy ===== *)
theory Plan_Correct
  imports Plan Hls_Correct Dash_Correct
begin

text \<open>
  What a plan guarantees: an HLS plan fetches every segment in order after its initialization map,
  a DASH plan stays within its bounds and fetches over HTTP, templates expand piece by piece, the
  number of segments covers the duration exactly, and a stored choice is honoured or refused.
\<close>

section \<open>Resolved resources\<close>

definition fetchable :: "'u url_ops \<Rightarrow> 'u \<Rightarrow> bool" where
  "fetchable ops u \<longleftrightarrow> url_scheme ops u = ''http'' \<or> url_scheme ops u = ''https''"

definition fetched :: "'u url_ops \<Rightarrow> 'u \<Rightarrow> u8 \<Rightarrow> resource_ref \<Rightarrow> 'u stream_resource \<Rightarrow> bool" where
  "fetched ops base track ref r \<longleftrightarrow> url_join ops base (ref_uri ref) = Some (sr_url r) \<and>
     fetchable ops (sr_url r) \<and> sr_byte_range r = ref_range ref \<and> sr_track r = track"

lemma resolve_Inr [result_simps]:
  "resolve ops base uri rng = Inr r \<longleftrightarrow>
     (\<exists>u. url_join ops base uri = Some u \<and> fetchable ops u \<and> r = stream_resource_new u rng)"
  by (auto simp: resolve_def fetchable_def result_simps)

lemma resolve_fetched:
  "resolve ops base (ref_uri ref) (ref_range ref) = Inr r \<Longrightarrow> fetched ops base track ref (with_track track r)"
  by (auto simp: resolve_Inr fetched_def with_track_def stream_resource_new_def)

section \<open>HLS plans\<close>

text \<open>What a segment needs: its initialization map unless the previous segment had the same one.\<close>

definition init_refs :: "resource_ref option \<Rightarrow> segment \<Rightarrow> resource_ref list" where
  "init_refs previous s =
     (case seg_init s of Some m \<Rightarrow> if previous = Some m then [] else [m] | None \<Rightarrow> [])"

definition segment_refs :: "segment list \<Rightarrow> nat \<Rightarrow> resource_ref list" where
  "segment_refs ss i =
     init_refs (if i = 0 then None else seg_init (ss ! (i - 1))) (ss ! i) @ [seg_resource (ss ! i)]"

fun refs_from :: "resource_ref option \<Rightarrow> segment list \<Rightarrow> resource_ref list" where
  "refs_from cur [] = []"
| "refs_from cur (s # ss) = init_refs cur s @ seg_resource s # refs_from (seg_init s) ss"

lemma refs_from_eq:
  "refs_from cur ss = concat (map (\<lambda>i.
      init_refs (if i = 0 then cur else seg_init (ss ! (i - 1))) (ss ! i) @ [seg_resource (ss ! i)]) [0..<length ss])"
proof (induction ss arbitrary: cur)
  case (Cons s ss)
  have "[0..<length (s # ss)] = 0 # map Suc [0..<length ss]"
    by (simp only: list.size upt_conv_Cons map_Suc_upt) simp
  moreover have "(s # ss) ! i = (if i = 0 then s else ss ! (i - 1))" for i
    by (cases i) simp_all
  ultimately show ?case
    by (simp only: refs_from.simps Cons.IH) (auto simp: comp_def simp del: upt_Suc intro!: arg_cong [where f = concat])
qed simp

lemma refs_from_None: "refs_from None ss = concat (map (segment_refs ss) [0..<length ss])"
  unfolding refs_from_eq segment_refs_def by simp

lemma media_resources_Inr:
  "media_resources ops base track cur ss rs = Inr rs' \<Longrightarrow>
     \<exists>new. rs' = rs @ new \<and> list_all2 (fetched ops base track) (refs_from cur ss) new"
proof (induction ss arbitrary: cur rs)
  case (Cons s ss)
  then obtain r where r: "resolve ops base (ref_uri (seg_resource s)) (ref_range (seg_resource s)) = Inr r"
    by (auto simp: result_simps)
  note own = resolve_fetched [OF r, of track]
  show ?case
  proof (cases "seg_init s = None \<or> cur = seg_init s")
    case True
    with Cons.prems r have "media_resources ops base track (seg_init s) ss (rs @ [with_track track r]) = Inr rs'"
      by (cases "seg_init s") (auto simp: result_simps)
    from Cons.IH [OF this] own True show ?thesis by (cases "seg_init s") (auto simp: init_refs_def)
  next
    case False
    then obtain m where m: "seg_init s = Some m" "cur \<noteq> Some m" by auto
    with Cons.prems r obtain q where q: "resolve ops base (ref_uri m) (ref_range m) = Inr q"
      "media_resources ops base track (Some m) ss ((rs @ [with_track track q]) @ [with_track track r]) = Inr rs'"
      by (auto simp: rbind_eq_Inr rmap_eq_Inr)
    from Cons.IH [OF q(2)] resolve_fetched [OF q(1), of track] own m show ?thesis by (auto simp: init_refs_def)
  qed
qed simp

lemma track_plan_new_Inr [result_simps]:
  "track_plan_new kind rs d l = Inr p \<longleftrightarrow> rs \<noteq> [] \<and> length rs \<le> max_segments \<and>
     p = \<lparr>tp_kind = kind, tp_resources = rs, tp_duration_millis = d, tp_label = l, tp_bandwidth = None,
       tp_declared_total_bytes = None, tp_container_hint = None\<rparr>"
  by (auto simp: track_plan_new_def)

lemma media_plan:
  assumes "plan_media_playlist ops base m track = Inr p"
  shows "\<not> playlist_is_encrypted m" "mp_ended m"
    "list_all2 (fetched ops base track)
       (concat (map (segment_refs (mp_segments m)) [0..<length (mp_segments m)])) (tp_resources p)"
    "tp_resources p \<noteq> []" "length (tp_resources p) \<le> max_segments"
proof -
  from assms obtain rs where rs: "media_resources ops base track None (mp_segments m) [] = Inr rs"
    "tp_resources p = rs" "rs \<noteq> []" "length rs \<le> max_segments"
    by (auto simp: plan_media_playlist_def result_simps Let_def split: if_splits)
  with media_resources_Inr [OF rs(1)] show
    "list_all2 (fetched ops base track)
       (concat (map (segment_refs (mp_segments m)) [0..<length (mp_segments m)])) (tp_resources p)"
    "tp_resources p \<noteq> []" "length (tp_resources p) \<le> max_segments"
    by (simp_all add: refs_from_None)
  show "\<not> playlist_is_encrypted m" "mp_ended m"
    using assms by (auto simp: plan_media_playlist_def split: if_splits)
qed

section \<open>Templates\<close>

datatype template_part = Literal string | Dollar | Token string

fun part_text :: "template_part \<Rightarrow> string" where
  "part_text (Literal s) = s"
| "part_text Dollar = ''$$''"
| "part_text (Token t) = CHR ''$'' # t @ ''$''"

fun part_ok :: "template_part \<Rightarrow> bool" where
  "part_ok (Literal s) \<longleftrightarrow> CHR ''$'' \<notin> set s"
| "part_ok Dollar \<longleftrightarrow> True"
| "part_ok (Token t) \<longleftrightarrow> t \<noteq> [] \<and> CHR ''$'' \<notin> set t"

fun part_value :: "(string \<Rightarrow> manifest_error + string) \<Rightarrow> template_part \<Rightarrow> manifest_error + string" where
  "part_value v (Literal s) = Inr s"
| "part_value v Dollar = Inr ''$''"
| "part_value v (Token t) = v t"

lemma split_once_skip: "d \<notin> set s \<Longrightarrow> split_once d (s @ r) = map_option (\<lambda>(a, b). (s @ a, b)) (split_once d r)"
proof (induction s)
  case (Cons c s)
  then show ?case by (cases "split_once d r") auto
qed (cases "split_once d r"; simp)

lemma loop_literal: "CHR ''$'' \<notin> set s \<Longrightarrow> substitute_loop v e (s @ r) = substitute_loop v (e @ s) r"
  by (subst (1 2) substitute_loop.simps) (auto simp: split_once_skip split: option.splits)

lemma loop_dollar: "substitute_loop v e (''$$'' @ r) = substitute_loop v (e @ ''$'') r"
  by (subst substitute_loop.simps) simp

lemma loop_token:
  "t \<noteq> [] \<Longrightarrow> CHR ''$'' \<notin> set t \<Longrightarrow>
     substitute_loop v e (CHR ''$'' # t @ CHR ''$'' # r) = rbind (v t) (\<lambda>x. substitute_loop v (e @ x) r)"
  by (subst substitute_loop.simps) simp

lemma loop_parts:
  "list_all part_ok ps \<Longrightarrow>
     substitute_loop v e (concat (map part_text ps)) = rmap (\<lambda>xs. e @ concat xs) (traverse_list (part_value v) ps)"
proof (induction ps arbitrary: e)
  case Nil
  then show ?case by (simp add: substitute_loop.simps)
next
  case (Cons p ps)
  have shift: "rmap f (rbind r (\<lambda>x. rbind t (\<lambda>xs. Inr (x # xs)))) = rbind r (\<lambda>x. rmap (\<lambda>xs. f (x # xs)) t)" for f r t
    by (cases r; cases t) simp_all
  have prepended: "rmap f t = rmap g (rbind t (\<lambda>xs. Inr (x # xs))) \<longleftrightarrow> rmap f t = rmap (\<lambda>xs. g (x # xs)) t"
    for f g :: "string list \<Rightarrow> string" and x and t :: "manifest_error + string list"
    by (cases t) simp_all
  from Cons show ?case
    by (cases p) (simp_all add: shift loop_literal loop_token loop_dollar [simplified] prepended)
qed

lemma template_parts:
  assumes "list_all part_ok ps"
  shows "substitute_template (concat (map part_text ps)) i b n t =
    rmap concat (traverse_list (part_value (template_token i b n t)) ps)"
proof (cases "CHR ''$'' \<in> set (concat (map part_text ps))")
  case True
  then show ?thesis using loop_parts [OF assms, of _ "[]"] by (simp add: substitute_template_def id_def [symmetric])
next
  case False
  then have "list_all (\<lambda>p. \<exists>s. p = Literal s) ps"
    by (auto simp: list_all_iff elim!: part_text.elims) (metis part_text.elims list.set_intros(1))
  then have "traverse_list (part_value v) ps = Inr (map part_text ps)" for v
    by (induction ps) auto
  with False show ?thesis by (simp add: substitute_template_def)
qed

section \<open>Numbers of segments\<close>

lemma ceiling_div:
  assumes "0 < (b :: int)"
  shows "((a + b - 1) div b - 1) * b < a" "a \<le> (a + b - 1) div b * b"
proof -
  define q r where "q = (a + b - 1) div b" and "r = (a + b - 1) mod b"
  have "a + b - 1 = q * b + r" "0 \<le> r" "r < b" using assms by (simp_all add: q_def r_def)
  then show "((a + b - 1) div b - 1) * b < a" "a \<le> (a + b - 1) div b * b"
    unfolding q_def [symmetric] by (simp_all add: left_diff_distrib)
qed

lemma segment_count_Inr:
  assumes "segment_count (Some ms) timescale duration = Inr n"
  shows "(uint n - 1) * (uint duration * 1000) < uint ms * uint timescale"
    "uint ms * uint timescale \<le> uint n * (uint duration * 1000)" "duration \<noteq> 0" "timescale \<noteq> 0"
proof -
  define a b where "a = uint ms * uint timescale" and "b = uint duration * 1000"
  from assms have ok: "duration \<noteq> 0" "timescale \<noteq> 0" and n: "n = of_int ((a + b - 1) div b)"
    and lt: "(a + b - 1) div b < 2 ^ 64"
    by (auto simp: segment_count_def Let_def a_def b_def split: if_splits)
  have "uint duration \<noteq> 0" using ok(1) by (simp add: uint_0_iff)
  then have b: "0 < b" unfolding b_def using uint_ge_0 [of duration] by linarith
  have "0 \<le> a" by (simp add: a_def)
  then have "0 \<le> (a + b - 1) div b" using b by (intro pos_imp_zdiv_nonneg_iff [THEN iffD2]) auto
  with lt have "uint n = (a + b - 1) div b" unfolding n by (simp add: unsigned_of_int take_bit_int_eq_self)
  with ceiling_div [OF b, of a] show "(uint n - 1) * (uint duration * 1000) < uint ms * uint timescale"
    "uint ms * uint timescale \<le> uint n * (uint duration * 1000)"
    by (simp_all add: a_def b_def)
qed (use assms in \<open>auto simp: segment_count_def split: if_splits\<close>)

section \<open>DASH plans\<close>

text \<open>
  A resource of a DASH plan is an HTTP URL, or a whole file that is the only one of its
  representation: one that neither a template nor a list nor an index addresses, so that its base
  URLs, joined from the outside in, name the file.
\<close>

definition single_file_of :: "'u url_ops \<Rightarrow> 'u \<Rightarrow> mpd \<Rightarrow> period \<Rightarrow> 'u \<Rightarrow> bool" where
  "single_file_of ops base m p u \<longleftrightarrow>
     (\<exists>s \<in> set (pd_adaptation_sets p). \<exists>r \<in> set (as_representations s).
        rp_segment_template r = None \<and> as_segment_template s = None \<and> pd_segment_template p = None \<and>
        rp_segment_list r = None \<and> as_segment_list s = None \<and> pd_segment_list p = None \<and>
        rp_segment_base r = None \<and>
        join_bases ops base [mpd_base_urls m, pd_base_urls p, as_base_urls s, rp_base_urls r] = Inr u \<and>
        url_path ops u \<noteq> [] \<and> \<not> ends_with ''/'' (url_path ops u))"

definition dash_resource_ok :: "'u url_ops \<Rightarrow> ('u \<Rightarrow> bool) \<Rightarrow> 'u stream_resource \<Rightarrow> bool" where
  "dash_resource_ok ops one r \<longleftrightarrow>
     fetchable ops (sr_url r) \<or> (sr_byte_range r = None \<and> one (sr_url r))"

lemma fetchable_resource [simp]:
  "fetchable ops u \<Longrightarrow> dash_resource_ok ops one (stream_resource_new u rng)"
  "sr_track (stream_resource_new u rng) = 0" "sr_url (stream_resource_new u rng) = u"
  "sr_byte_range (stream_resource_new u rng) = rng"
  by (simp_all add: dash_resource_ok_def stream_resource_new_def)

lemma with_track_fields [simp]:
  "dash_resource_ok ops one (with_track t r) = dash_resource_ok ops one r" "sr_track (with_track t r) = t"
  by (simp_all add: dash_resource_ok_def with_track_def)

lemma traverse_list_all:
  "traverse_list f xs = Inr ys \<Longrightarrow> (\<And>x y. f x = Inr y \<Longrightarrow> P y) \<Longrightarrow> list_all P ys"
  by (induction xs arbitrary: ys) (auto simp: result_simps)

definition plain_resource :: "'u url_ops \<Rightarrow> ('u \<Rightarrow> bool) \<Rightarrow> 'u stream_resource \<Rightarrow> bool" where
  "plain_resource ops one r \<longleftrightarrow> dash_resource_ok ops one r \<and> sr_track r = 0"

lemma resolve_plain [simp]: "fetchable ops u \<Longrightarrow> plain_resource ops one (stream_resource_new u rng)"
  by (simp add: plain_resource_def)

lemma template_resources_ok:
  assumes "template_resources ops u r stop t = Inr rs"
  shows "list_all (plain_resource ops one) rs"
proof -
  have "list_all (plain_resource ops one) ys"
    if "traverse_list (\<lambda>x. rbind (g x) (\<lambda>uri. resolve ops u uri None)) xs = Inr ys" for g xs ys
    using that by (rule traverse_list_all) (auto simp: result_simps)
  note all = this
  from assms show ?thesis
    by (auto simp: template_resources_def result_simps Let_def all
        split: option.splits if_splits)
qed

lemma list_resources_ok:
  assumes "list_resources ops u l = Inr rs"
  shows "list_all (plain_resource ops one) rs"
proof -
  have "list_all (plain_resource ops one) ys"
    if "traverse_list (\<lambda>x. resolve ops u (f x) (g x)) xs = Inr ys" for f g xs ys
    using that by (rule traverse_list_all) (auto simp: result_simps)
  note all = this
  from assms show ?thesis
    by (auto simp: list_resources_def result_simps all split: option.splits if_splits)
qed

lemma set_resources_ok:
  assumes "set_resources ops u r stop a = Inr rs"
    "a = SingleFile \<Longrightarrow> url_path ops u \<noteq> [] \<Longrightarrow> \<not> ends_with ''/'' (url_path ops u) \<Longrightarrow> one u"
  shows "list_all (plain_resource ops one) rs"
  using assms
  by (auto simp: set_resources_def template_resources_ok list_resources_ok plain_resource_def
      dash_resource_ok_def stream_resource_new_def
      split: representation_addressing.splits if_splits)

lemma addressed_single:
  "addressing r s p = SingleFile \<longleftrightarrow>
     rp_segment_template r = None \<and> as_segment_template s = None \<and> pd_segment_template p = None \<and>
     rp_segment_list r = None \<and> as_segment_list s = None \<and> pd_segment_list p = None \<and> rp_segment_base r = None"
  by (auto simp: addressing_def merge_template_def merge_list_def Let_def split: option.splits)

lemma list_get_member: "list_get xs i = Some x \<Longrightarrow> x \<in> set xs"
  by (auto simp: list_get_def split: if_splits)

lemma plan_dash_track_ok:
  assumes "plan_dash_track ops base m p choice = Inr plan"
  shows "list_all (plain_resource ops (single_file_of ops base m p)) (tp_resources plan)" "tp_resources plan \<noteq> []"
    "length (tp_resources plan) \<le> max_segments"
proof -
  from assms obtain s r u stop i j where s: "list_get (pd_adaptation_sets p) i = Some s"
    and r: "list_get (as_representations s) j = Some r"
    and u: "join_bases ops base [mpd_base_urls m, pd_base_urls p, as_base_urls s, rp_base_urls r] = Inr u"
    and rs: "set_resources ops u r stop (addressing r s p) = Inr (tp_resources plan)"
    and sizes: "tp_resources plan \<noteq> []" "length (tp_resources plan) \<le> max_segments"
    by (cases choice) (auto simp: plan_dash_track_def plan_set_def result_simps Let_def simp del: join_bases.simps)
  show "list_all (plain_resource ops (single_file_of ops base m p)) (tp_resources plan)"
    by (rule set_resources_ok [OF rs])
       (use s r u in \<open>auto simp: single_file_of_def addressed_single dest!: list_get_member simp del: join_bases.simps\<close>)
  show "tp_resources plan \<noteq> []" "length (tp_resources plan) \<le> max_segments" by (rule sizes)+
qed

lemma with_audio_Inr [result_simps]:
  "with_audio p a = Inr q \<longleftrightarrow> muxable (tp_container_hint p) \<and> muxable (tp_container_hint a) \<and>
     length (tp_resources p) + length (tp_resources a) \<le> max_segments \<and>
     q = p\<lparr>tp_resources := tp_resources p @ map (with_track 1) (tp_resources a),
          tp_container_hint := Some CtMp4,
          tp_duration_millis := option_max (tp_duration_millis p) (tp_duration_millis a),
          tp_bandwidth := option_sum (tp_bandwidth p) (tp_bandwidth a),
          tp_declared_total_bytes := option_sum (tp_declared_total_bytes p) (tp_declared_total_bytes a)\<rparr>"
  by (auto simp: with_audio_def)

lemma dash_plan:
  assumes "plan_dash_selected ops base m selection = Inr plan"
  shows "mpd_type m = StaticMpd"
    "\<exists>p. media_period m = Inr p \<and> list_all (dash_resource_ok ops (single_file_of ops base m p)) (tp_resources plan)"
    "tp_resources plan \<noteq> []" "length (tp_resources plan) \<le> max_segments"
    "list_all (\<lambda>r. sr_track r = 0 \<or> sr_track r = 1) (tp_resources plan)"
proof -
  from assms obtain p and tracks :: dash_tracks and video audio where
    period: "media_period m = Inr p" and
    video: "traverse_opt (plan_dash_track ops base m p) (dt_video tracks) = Inr video"
    and audio: "traverse_opt (plan_dash_track ops base m p) (dt_audio tracks) = Inr audio"
    and combined: "(case (video, audio) of
          (Some video, Some audio) \<Rightarrow> with_audio video audio
        | (Some video, None) \<Rightarrow> Inr video
        | (None, Some audio) \<Rightarrow> Inr audio
        | (None, None) \<Rightarrow> Inl Malformed) = Inr plan"
    by (auto simp: plan_dash_selected_def rbind_eq_Inr split: if_splits)
  let ?one = "single_file_of ops base m p"
  have part_ok: "list_all (plain_resource ops ?one) (tp_resources q)" "tp_resources q \<noteq> []"
      "length (tp_resources q) \<le> max_segments"
    if "traverse_opt (plan_dash_track ops base m p) c = Inr (Some q)" for c q
    using that by (auto simp: traverse_opt_def rmap_eq_Inr dest: plan_dash_track_ok split: option.splits)
  note v = part_ok [of "dt_video tracks" "the video"] and a = part_ok [of "dt_audio tracks" "the audio"]
  have plain: "list_all (dash_resource_ok ops ?one) rs" "list_all (\<lambda>r. sr_track r = 0 \<or> sr_track r = 1) rs"
    if "list_all (plain_resource ops ?one) rs" for rs :: "'a stream_resource list"
    using that by (auto simp: list_all_iff plain_resource_def)
  consider q r where "video = Some q" "audio = Some r" "with_audio q r = Inr plan"
    | "video = Some plan" | "audio = Some plan"
    using combined by (cases video; cases audio) auto
  then have "list_all (dash_resource_ok ops ?one) (tp_resources plan) \<and> tp_resources plan \<noteq> [] \<and>
    length (tp_resources plan) \<le> max_segments \<and>
    list_all (\<lambda>r. sr_track r = 0 \<or> sr_track r = 1) (tp_resources plan)"
  proof cases
    case (1 q r)
    with v a video audio plain [of "tp_resources q"] plain [of "tp_resources r"] show ?thesis
      by (auto simp: with_audio_Inr list_all_iff)
  next
    case 2
    with v video plain show ?thesis by simp
  next
    case 3
    with a audio plain show ?thesis by simp
  qed
  with period show "\<exists>p. media_period m = Inr p \<and>
      list_all (dash_resource_ok ops (single_file_of ops base m p)) (tp_resources plan)"
    "tp_resources plan \<noteq> []" "length (tp_resources plan) \<le> max_segments"
    "list_all (\<lambda>r. sr_track r = 0 \<or> sr_track r = 1) (tp_resources plan)"
    by blast+
  show "mpd_type m = StaticMpd"
    using assms by (cases "mpd_type m") (auto simp: plan_dash_selected_def)
qed

section \<open>Stored choices\<close>

lemma stored_variant:
  assumes "hls_selection i v = Inr s"
  shows "selected_variant m s =
    (case list_get (ms_variants m) i of
       Some w \<Rightarrow>
         if var_bandwidth w = var_bandwidth v \<and> variant_resolution w = variant_resolution v then Inr w
         else Inl SelectionUnavailable
     | None \<Rightarrow> Inl SelectionUnavailable)"
  using hls_read [OF assms] by (auto simp: selected_variant_def split: option.splits)

section \<open>Two tracks\<close>

lemma audio_joined:
  assumes "with_audio p a = Inr q" "tp_resources a \<noteq> []" "list_all (\<lambda>r. sr_track r = 0) (tp_resources p)"
  shows "resources_of q 0 = tp_resources p" "resources_of q 1 = map (with_track 1) (tp_resources a)"
    "track_count q = 2"
proof -
  from assms(1) have q: "tp_resources q = tp_resources p @ map (with_track 1) (tp_resources a)"
    by (auto simp: with_audio_Inr)
  have zero: "filter (\<lambda>r. sr_track r = 0) (tp_resources p) = tp_resources p"
    "filter (\<lambda>r. sr_track r = 1) (tp_resources p) = []"
    using assms(3) by (auto simp: list_all_iff filter_id_conv filter_empty_conv)
  have "filter (\<lambda>r. sr_track r = 1) (map (with_track 1) rs) = map (with_track 1) rs"
    "filter (\<lambda>r. sr_track r = 0) (map (with_track 1) rs) = []" for rs :: "'a stream_resource list"
    by (induction rs) simp_all
  with zero show "resources_of q 0 = tp_resources p" "resources_of q 1 = map (with_track 1) (tp_resources a)"
    by (simp_all add: resources_of_def q)
  have "set (map sr_track (tp_resources q)) \<subseteq> {0, 1}" "1 \<in> set (map sr_track (tp_resources q))"
    using assms(2,3) by (cases "tp_resources a"; auto simp: q list_all_iff comp_def)+
  then have "Max (set (map sr_track (tp_resources q))) = 1"
    by (intro Max_eqI) auto
  moreover have "tp_resources q \<noteq> []" using assms(2) q by simp
  then obtain r rs where "tp_resources q = r # rs" by (cases "tp_resources q") blast+
  ultimately show "track_count q = 2" by (simp add: track_count_def)
qed

section \<open>Properties\<close>

text \<open>URLs as strings: an absolute reference replaces the base, another one is appended to it.\<close>

definition sample_urls :: "string url_ops" where
  "sample_urls =
     \<lparr>url_join = (\<lambda>base uri. if str_find ''://'' uri \<noteq> None then Some uri else Some (base @ uri)),
      url_scheme = (\<lambda>u. hd (split_on (CHR '':'') u)),
      url_path = (\<lambda>u. case str_find ''//'' u of
        Some n \<Rightarrow> dropWhile (\<lambda>c. c \<noteq> CHR ''/'') (drop (n + 2) u) | None \<Rightarrow> u)\<rparr>"

text \<open>
  A presentation whose audio is a track of its own becomes one plan with two tracks: track 0
  is the video plan as it was and track 1 the audio plan's resources, in their order.
\<close>

theorem tracks_stay_apart:
  assumes "with_audio p a = Inr q" "tp_resources a \<noteq> []" "list_all (\<lambda>r. sr_track r = 0) (tp_resources p)"
  shows "resources_of q 0 = tp_resources p \<and> resources_of q 1 = map (with_track 1) (tp_resources a) \<and>
    track_count q = 2"
  using audio_joined [OF assms] by simp

definition sample_plan :: "string \<Rightarrow> container \<Rightarrow> string track_plan" where
  "sample_plan u c =
     \<lparr>tp_kind = HlsStream, tp_resources = [stream_resource_new u None], tp_duration_millis = None,
      tp_label = None, tp_bandwidth = None, tp_declared_total_bytes = None, tp_container_hint = Some c\<rparr>"

theorem tracks_stay_apart_witness:
  "\<exists>q. with_audio (sample_plan ''v'' CtMp4) (sample_plan ''a'' CtAac) = Inr q \<and>
     map sr_url (resources_of q 1) = [''a''] \<and> track_count q = 2"
proof -
  obtain q where q: "with_audio (sample_plan ''v'' CtMp4) (sample_plan ''a'' CtAac) = Inr q"
    by (simp add: with_audio_Inr muxable_def sample_plan_def max_segments_def can_be_muxed_def)
  have "resources_of q 1 = map (with_track 1) (tp_resources (sample_plan ''a'' CtAac)) \<and> track_count q = 2"
    using tracks_stay_apart [OF q] by (simp add: sample_plan_def stream_resource_new_def)
  with q show ?thesis by (simp add: sample_plan_def with_track_def stream_resource_new_def)
qed

text \<open>
  C37.  A media playlist that is planned is finished and unencrypted, and the plan lists, for every
  segment in order, the segment's initialization map unless the segment before it had the same one,
  and then the segment, each resolved against the playlist's URL to an HTTP URL with its byte range
  on track 0; there are at most 200,000 resources.
\<close>

theorem hls_plan_is_complete:
  assumes "plan_hls ops base (Media m) = Inr (Ready p)"
  shows "\<not> playlist_is_encrypted m \<and> mp_ended m \<and>
    list_all2 (fetched ops base 0)
      (concat (map (segment_refs (mp_segments m)) [0..<length (mp_segments m)])) (tp_resources p) \<and>
    length (tp_resources p) \<le> 200000"
  using media_plan [of ops base m 0 p] assms
  by (auto simp: plan_hls_def plan_hls_selected_def rmap_eq_Inr max_segments_def)

lemma ready_case:
  assumes "case r of Inr (Media m) \<Rightarrow> (case f m of Inr (Ready p) \<Rightarrow> P p | _ \<Rightarrow> False) | _ \<Rightarrow> False"
  obtains m p where "r = Inr (Media m)" "f m = Inr (Ready p)" "P p"
proof -
  from assms obtain m where m: "r = Inr (Media m)" by (auto split: sum.splits playlist.splits)
  with assms obtain p where "f m = Inr (Ready p)" "P p"
    by (cases "f m"; cases "projr (f m)") simp_all
  with m show ?thesis by (rule that)
qed

definition planned_text :: string where
  "planned_text = unlines [''#EXTM3U'', ''#EXT-X-MAP:URI='' @ CHR 0x22 # ''i'' @ [CHR 0x22], ''a'', ''b'', ''#EXT-X-ENDLIST'']"

theorem hls_plan_is_complete_witness:
  "\<exists>m p. hls_parse planned_text = Inr (Media m) \<and> plan_hls sample_urls ''http://h/'' (Media m) = Inr (Ready p) \<and>
     map sr_url (tp_resources p) = [''http://h/i'', ''http://h/a'', ''http://h/b''] \<and> length (tp_resources p) \<le> 200000"
proof -
  have "case hls_parse planned_text of
      Inr (Media m) \<Rightarrow> (case plan_hls sample_urls ''http://h/'' (Media m) of
          Inr (Ready p) \<Rightarrow> map sr_url (tp_resources p) = [''http://h/i'', ''http://h/a'', ''http://h/b'']
        | _ \<Rightarrow> False) | _ \<Rightarrow> False"
    by code_simp
  then obtain m p where "hls_parse planned_text = Inr (Media m)"
    and plan: "plan_hls sample_urls ''http://h/'' (Media m) = Inr (Ready p)"
    and "map sr_url (tp_resources p) = [''http://h/i'', ''http://h/a'', ''http://h/b'']"
    by (rule ready_case)
  with hls_plan_is_complete [OF plan] show ?thesis by (intro exI [of _ m] exI [of _ p]) simp
qed

text \<open>
  A template expands piece by piece: literal text stays, a doubled dollar sign is one, and
  every identifier between dollar signs is replaced by its value, where the first identifier
  without a value is the error of the whole.
\<close>

theorem template_expands_by_parts:
  "list_all part_ok ps \<Longrightarrow>
   substitute_template (concat (map part_text ps)) i b n t =
     rmap concat (traverse_list (part_value (template_token i b n t)) ps)"
  by (rule template_parts)

theorem template_expands_by_parts_witness:
  "substitute_template ''$RepresentationID$/$$-$Number%05d$'' (Some ''v'') None (Some 7) None = Inr ''v/$-00007''"
proof -
  have "list_all part_ok [Token ''RepresentationID'', Literal ''/'', Dollar, Literal ''-'', Token ''Number%05d'']"
    by code_simp
  from template_expands_by_parts [OF this, of "Some ''v''" None "Some 7" None]
  have "substitute_template ''$RepresentationID$/$$-$Number%05d$'' (Some ''v'') None (Some 7) None =
      rmap concat (traverse_list (part_value (template_token (Some ''v'') None (Some 7) None))
        [Token ''RepresentationID'', Literal ''/'', Dollar, Literal ''-'', Token ''Number%05d''])"
    by simp
  moreover have "rmap concat (traverse_list (part_value (template_token (Some ''v'') None (Some 7) None))
        [Token ''RepresentationID'', Literal ''/'', Dollar, Literal ''-'', Token ''Number%05d'']) = Inr ''v/$-00007''"
    by code_simp
  ultimately show ?thesis by simp
qed

text \<open>
  The number of numbered segments is the least one that covers the duration: all but the last
  segment end before the duration does, and the last one does not.
\<close>

theorem segment_count_covers_duration:
  assumes "segment_count (Some ms) timescale duration = Inr n"
  shows "(uint n - 1) * (uint duration * 1000) < uint ms * uint timescale \<and>
    uint ms * uint timescale \<le> uint n * (uint duration * 1000)"
  using segment_count_Inr [OF assms] by simp

theorem segment_count_covers_duration_witness:
  "segment_count (Some 10001) 90 180 = Inr 6 \<and> (6 - 1) * (180 * 1000) < 10001 * (90 :: int)"
proof -
  have e: "segment_count (Some 10001) 90 180 = Inr 6" by code_simp
  from segment_count_covers_duration [OF e] e show ?thesis by simp
qed

text \<open>
  C38.  A planned DASH presentation is static; its resources are at most 200,000 and at least one,
  on the tracks 0 and 1, and each is an HTTP URL, or else the whole file of a representation of the
  period that is addressed by its base URL alone, without a template, a list or an index: its joined
  base URLs, whose path names a file. Only the scheme of such a file is not checked.
\<close>

theorem dash_plan_is_bounded:
  assumes "plan_dash_selected ops base m selection = Inr p"
  shows "mpd_type m = StaticMpd \<and> tp_resources p \<noteq> [] \<and> length (tp_resources p) \<le> 200000 \<and>
    (\<exists>period. media_period m = Inr period \<and>
      (\<forall>r \<in> set (tp_resources p). sr_track r \<in> {0, 1} \<and>
        (fetchable ops (sr_url r) \<or>
         sr_byte_range r = None \<and> single_file_of ops base m period (sr_url r))))"
  using dash_plan [OF assms] by (auto simp: list_all_iff dash_resource_ok_def max_segments_def)

definition single_file_mpd :: "string \<Rightarrow> mpd" where
  "single_file_mpd u =
     \<lparr>mpd_type = StaticMpd, mpd_duration_millis = None, mpd_min_buffer_millis = None, mpd_base_urls = [],
      mpd_periods =
        [\<lparr>pd_id = None, pd_duration_millis = None, pd_base_urls = [], pd_segment_template = None,
          pd_segment_list = None,
          pd_adaptation_sets =
            [\<lparr>as_content_type = None, as_mime_type = Some ''video/mp4'', as_lang = None, as_base_urls = [],
              as_segment_template = None, as_segment_list = None,
              as_representations =
                [\<lparr>rp_id = None, rp_bandwidth = None, rp_codecs = None, rp_mime_type = None, rp_width = None,
                  rp_height = None, rp_base_urls = [u], rp_segment_template = None, rp_segment_list = None,
                  rp_segment_base = None\<rparr>]\<rparr>]\<rparr>]\<rparr>"

theorem dash_plan_is_bounded_witness:
  "\<exists>p. plan_dash_selected sample_urls ''http://h/'' (single_file_mpd ''v.mp4'') None = Inr p \<and>
     map sr_url (tp_resources p) = [''http://h/v.mp4''] \<and> length (tp_resources p) \<le> 200000"
proof -
  have "case plan_dash_selected sample_urls ''http://h/'' (single_file_mpd ''v.mp4'') None of
      Inr p \<Rightarrow> map sr_url (tp_resources p) = [''http://h/v.mp4''] | _ \<Rightarrow> False"
    by code_simp
  then show ?thesis using dash_plan_is_bounded [of sample_urls "''http://h/''" "single_file_mpd ''v.mp4''" None]
    by (fastforce split: sum.splits)
qed

text \<open>The scheme of a single file is not checked: a manifest can name a local file.\<close>

lemma single_file_scheme_is_not_checked:
  "(case plan_dash_selected sample_urls ''http://h/'' (single_file_mpd ''file:///etc/hosts'') None of
      Inr p \<Rightarrow> map sr_url (tp_resources p) = [''file:///etc/hosts''] | _ \<Rightarrow> False)"
  by code_simp

text \<open>
  A choice of a variant stored with a job is honoured when the playlist is read again: the
  variant at its position is used if its bandwidth and resolution are the stored ones, and the
  choice is refused otherwise.
\<close>

theorem stored_choice_is_honoured:
  assumes "hls_selection i v = Inr s"
  shows "selected_variant m s =
    (case list_get (ms_variants m) i of
       Some w \<Rightarrow>
         if var_bandwidth w = var_bandwidth v \<and> variant_resolution w = variant_resolution v then Inr w
         else Inl SelectionUnavailable
     | None \<Rightarrow> Inl SelectionUnavailable)"
  by (rule stored_variant [OF assms])

theorem stored_choice_is_honoured_witness:
  "hls_selection 0 sample_variant = Inr (ExecutionSelection ''hls:1:0:900:64:48'') \<and>
   selected_variant \<lparr>ms_variants = [sample_variant], ms_renditions = [], ms_iframe_variants = []\<rparr>
     (ExecutionSelection ''hls:1:0:900:64:48'') = Inr sample_variant"
proof -
  have e: "hls_selection 0 sample_variant = Inr (ExecutionSelection ''hls:1:0:900:64:48'')" by code_simp
  with stored_choice_is_honoured [OF e] show ?thesis by (simp add: list_get_def)
qed

end
