(* ===== verification/Ts.thy ===== *)
theory Ts
  imports Container Action
begin

text \<open>
  The transport-stream reader (\<open>crates/gunda-stream/src/ts.rs\<close>): packets, program tables, PES
  headers, the splitting of the video byte stream into NAL units and access units, of the audio into
  ADTS frames, and the picture size read from a sequence parameter set.  A source file is its bytes
  with the error a later read meets; an output file is its bytes with the errors its writes meet.
\<close>

section \<open>Errors and files\<close>

datatype mux_error = MuxIo io_kind | MuxMalformed string | MuxUnsupported string | MuxTooLarge

record source_file =
  src_bytes :: "u8 list"
  src_error :: "io_kind option"

record sink =
  snk_bytes :: "u8 list"
  snk_error :: "nat \<Rightarrow> io_kind option"
  snk_flush :: "io_kind option"

definition write_all :: "u8 list \<Rightarrow> sink \<Rightarrow> mux_error + sink" where
  "write_all data out =
     (case snk_error out (length (snk_bytes out) + length data) of
        Some k \<Rightarrow> Inl (MuxIo k)
      | None \<Rightarrow> Inr (out\<lparr>snk_bytes := snk_bytes out @ data\<rparr>))"

definition flush_sink :: "sink \<Rightarrow> mux_error + unit" where
  "flush_sink out = (case snk_flush out of Some k \<Rightarrow> Inl (MuxIo k) | None \<Rightarrow> Inr ())"

section \<open>Constants\<close>

definition packet_size :: nat where "packet_size = 188"
definition sync_byte :: u8 where "sync_byte = 0x47"
definition max_section :: int where "max_section = 4 * 1024"
definition max_pending :: int where "max_pending = 8 * 1024 * 1024"
definition video_timescale :: u32 where "video_timescale = 90000"
definition default_frame_duration :: u32 where "default_frame_duration = video_timescale div 30"
definition max_frame_duration :: u32 where "max_frame_duration = video_timescale"
definition aac_frame_samples :: u32 where "aac_frame_samples = 1024"

definition sample_rates :: "u32 list" where
  "sample_rates =
     [96000, 88200, 64000, 48000, 44100, 32000, 24000, 22050, 16000, 12000, 11025, 8000, 7350]"

section \<open>Tracks and samples\<close>

type_synonym i32 = "32 word"

record elementary_sample =
  es_offset :: u64
  es_size :: u32
  es_duration :: u32
  es_composition :: i32
  es_sync :: bool

datatype mux_codec =
    CodecAvc "u8 list" u16 u16
  | CodecAac u16 u16 u32

record elementary_track =
  et_codec :: mux_codec
  et_timescale :: u32
  et_samples :: "elementary_sample list"
  et_duration :: u64

text \<open>\<open>u32::try_from(len)\<close> and \<open>u16::try_from(len)\<close>.\<close>

definition try_len :: "'a list \<Rightarrow> 'w::len word option" where
  "try_len xs = (if int (length xs) < 2 ^ LENGTH('w) then Some (of_nat (length xs)) else None)"

definition total_duration :: "elementary_sample list \<Rightarrow> u64" where
  "total_duration samples = fold (\<lambda>s acc. saturating_add acc (ucast (es_duration s))) samples 0"

section \<open>Program tables\<close>

record section_buffer =
  sec_bytes :: "u8 list"
  sec_expected :: "nat option"

definition section_default :: section_buffer where
  "section_default = \<lparr>sec_bytes = [], sec_expected = None\<rparr>"

definition be12 :: "u8 \<Rightarrow> u8 \<Rightarrow> nat" where
  "be12 high low = or (push_bit 8 (unat (and high 0x0F))) (unat low)"

function section_loop ::
  "u8 list \<Rightarrow> nat option \<Rightarrow> u8 list list \<Rightarrow> mux_error + section_buffer \<times> u8 list list" where
  "section_loop bytes expected complete =
     (case expected of
        None \<Rightarrow>
          if length bytes < 3 then Inr (\<lparr>sec_bytes = bytes, sec_expected = None\<rparr>, complete)
          else if bytes ! 0 = 0xFF then Inr (\<lparr>sec_bytes = [], sec_expected = None\<rparr>, complete)
          else
            let need = be12 (bytes ! 1) (bytes ! 2) + 3
            in if max_section < int need
               then Inl (MuxMalformed ''a program table declares a length no table has'')
               else section_loop bytes (Some need) complete
      | Some need \<Rightarrow>
          if length bytes < need
          then Inr (\<lparr>sec_bytes = bytes, sec_expected = Some need\<rparr>, complete)
          else section_loop (drop need bytes) None (complete @ [take need bytes]))"
  by pat_completeness auto
termination
  by (relation "measure (\<lambda>(bytes, expected, _). 2 * length bytes +
        (case expected of None \<Rightarrow> 1 | Some t \<Rightarrow> if t = 0 then 2 else 0))") auto

declare section_loop.simps [simp del]

definition section_push ::
  "section_buffer \<Rightarrow> u8 list \<Rightarrow> bool \<Rightarrow> mux_error + section_buffer \<times> u8 list list" where
  "section_push s payload start =
     (if start then
        rbind (ok_or (MuxMalformed ''a program table packet is empty'') (nth_get payload 0)) (\<lambda>p.
        let begin_at = 1 + unat p
        in if begin_at > length payload
           then Inl (MuxMalformed ''a program table pointer runs past its packet'')
           else section_loop (drop begin_at payload) None [])
      else if sec_expected s = None then Inr (s, [])
      else section_loop (sec_bytes s @ payload) (sec_expected s) [])"

section \<open>Video: NAL units and access units\<close>

definition find_start_code :: "u8 list \<Rightarrow> nat \<Rightarrow> nat option" where
  "find_start_code bytes from = map_option (\<lambda>i. from + i + 2) (str_find [0, 0, 1] (drop from bytes))"

lemma find_start_code_bounds:
  "find_start_code bytes from = Some k \<Longrightarrow> from + 2 \<le> k \<and> k < length bytes"
proof -
  assume "find_start_code bytes from = Some k"
  then obtain i where k: "k = from + i + 2" and "starts_with [0, 0, 1] (drop i (drop from bytes))"
    by (auto simp: find_start_code_def dest!: str_find_Some)
  then obtain t where "drop (i + from) bytes = [0, 0, 1] @ t"
    by (auto simp: starts_with_iff add.commute)
  then have "length bytes - (i + from) = 3 + length t"
    by (metis length_append length_drop length_Cons list.size(3) numeral_3_eq_3)
  then show ?thesis using k by simp
qed

definition trim_trailing_zeros :: "u8 list \<Rightarrow> u8 list" where
  "trim_trailing_zeros bytes = rev (dropWhile (\<lambda>b. b = 0) (rev bytes))"

record completed_unit =
  cu_data :: "u8 list"
  cu_pts :: "u64 option"
  cu_dts :: "u64 option"
  cu_sync :: bool

record video_track =
  vt_pending :: "u8 list"
  vt_unit :: "u8 list"
  vt_unit_pts :: "u64 option"
  vt_unit_dts :: "u64 option"
  vt_pts :: "u64 option"
  vt_dts :: "u64 option"
  vt_last_dts :: u64
  vt_has_slice :: bool
  vt_sync :: bool
  vt_sps :: "u8 list option"
  vt_pps :: "u8 list option"
  vt_samples :: "elementary_sample list"
  vt_decode_times :: "u64 list"

definition video_default :: video_track where
  "video_default =
     \<lparr>vt_pending = [], vt_unit = [], vt_unit_pts = None, vt_unit_dts = None, vt_pts = None,
      vt_dts = None, vt_last_dts = 0, vt_has_slice = False, vt_sync = False, vt_sps = None,
      vt_pps = None, vt_samples = [], vt_decode_times = []\<rparr>"

definition timed :: "u64 option \<Rightarrow> u64 option \<Rightarrow> video_track \<Rightarrow> video_track" where
  "timed pts dts v = v\<lparr>vt_pts := pts, vt_dts := dts\<rparr>"

definition next_decode_time :: "video_track \<Rightarrow> u64" where
  "next_decode_time v =
     (if vt_decode_times v \<noteq> [] \<and> vt_samples v \<noteq> []
      then saturating_add (List.last (vt_decode_times v)) (ucast (es_duration (List.last (vt_samples v))))
      else vt_last_dts v)"

definition video_flush :: "video_track \<Rightarrow> video_track \<times> completed_unit list" where
  "video_flush v =
     (if vt_unit v = [] then (v, [])
      else (v\<lparr>vt_unit := [], vt_unit_pts := None, vt_unit_dts := None, vt_has_slice := False,
              vt_sync := False\<rparr>,
            [\<lparr>cu_data = vt_unit v, cu_pts = vt_unit_pts v, cu_dts = vt_unit_dts v,
              cu_sync = vt_sync v\<rparr>]))"

definition is_slice :: "u8 \<Rightarrow> bool" where
  "is_slice kind \<longleftrightarrow> 1 \<le> kind \<and> kind \<le> 5"

definition nal_prefixed :: "u8 list \<Rightarrow> u8 list" where
  "nal_prefixed nal = (case try_len nal of None \<Rightarrow> [] | Some len \<Rightarrow> to_be_bytes 4 (len :: u32) @ nal)"

definition video_nal :: "u8 list \<Rightarrow> video_track \<Rightarrow> video_track \<times> completed_unit list" where
  "video_nal nal v =
     (case nal of
        [] \<Rightarrow> (v, [])
      | b # _ \<Rightarrow>
          let kind = and b 0x1F;
              boundary = (kind = 9 \<or> is_slice kind \<and> vt_has_slice v);
              (v1, complete) = (if boundary then video_flush v else (v, []));
              v2 = (if vt_unit v1 = [] then v1\<lparr>vt_unit_pts := vt_pts v1, vt_unit_dts := vt_dts v1\<rparr>
                    else v1);
              v3 = (if is_slice kind then v2\<lparr>vt_has_slice := True, vt_sync := (kind = 5 \<or> vt_sync v2)\<rparr>
                    else if kind = 7 then v2\<lparr>vt_sps := Some nal\<rparr>
                    else if kind = 8 then v2\<lparr>vt_pps := Some nal\<rparr>
                    else v2)
          in (v3\<lparr>vt_unit := vt_unit v3 @ nal_prefixed nal\<rparr>, complete))"

lemma video_nal_pending [simp]: "vt_pending (fst (video_nal nal v)) = vt_pending v"
  by (cases nal) (simp_all add: video_nal_def video_flush_def Let_def)

function video_loop :: "video_track \<Rightarrow> completed_unit list \<Rightarrow> video_track \<times> completed_unit list" where
  "video_loop v complete =
     (case find_start_code (vt_pending v) 0 of
        None \<Rightarrow> (v, complete)
      | Some code \<Rightarrow>
          let pending = (if code > 2 then drop (code - 2) (vt_pending v) else vt_pending v)
          in (case find_start_code pending 3 of
                None \<Rightarrow> (v\<lparr>vt_pending := pending\<rparr>, complete)
              | Some stop \<Rightarrow>
                  let nal = trim_trailing_zeros (take (stop - 2 - 3) (drop 3 pending));
                      step = video_nal nal (v\<lparr>vt_pending := drop (stop - 2) pending\<rparr>)
                  in video_loop (fst step) (complete @ snd step)))"
  by pat_completeness auto
termination
  by (relation "measure (\<lambda>(v, _). length (vt_pending v))")
     (auto dest!: find_start_code_bounds split: if_splits)

declare video_loop.simps [simp del]

definition video_push :: "u8 list \<Rightarrow> video_track \<Rightarrow> mux_error + video_track \<times> completed_unit list" where
  "video_push payload v =
     (let (v', complete) = video_loop (v\<lparr>vt_pending := vt_pending v @ payload\<rparr>) []
      in if max_pending < int (length (vt_pending v'))
         then Inl (MuxMalformed ''a video NAL unit exceeds the supported size'')
         else Inr (v', complete))"

section \<open>Audio: ADTS frames\<close>

record audio_track =
  at_pending :: "u8 list"
  at_sample_rate :: "u32 option"
  at_channel_count :: u16
  at_object_type :: u8
  at_frequency_index :: u8
  at_samples :: "elementary_sample list"

definition audio_default :: audio_track where
  "audio_default =
     \<lparr>at_pending = [], at_sample_rate = None, at_channel_count = 0, at_object_type = 0,
      at_frequency_index = 0, at_samples = []\<rparr>"

definition adts_sync :: "u8 \<Rightarrow> u8 \<Rightarrow> bool" where
  "adts_sync b c \<longleftrightarrow> b = 0xFF \<and> and c 0xF6 = 0xF0"

definition find_adts_sync :: "u8 list \<Rightarrow> nat \<Rightarrow> nat option" where
  "find_adts_sync bytes from =
     find (\<lambda>i. adts_sync (bytes ! i) (bytes ! (i + 1))) [from..<length bytes - 1]"

definition adts_header :: "u8 list \<Rightarrow> nat" where
  "adts_header p = (if and (p ! 1) 0x01 = 0 then 9 else 7)"

definition adts_profile :: "u8 list \<Rightarrow> u8" where
  "adts_profile p = and (drop_bit 6 (p ! 2)) 0x03"

definition adts_frequency :: "u8 list \<Rightarrow> u8" where
  "adts_frequency p = and (drop_bit 2 (p ! 2)) 0x0F"

definition adts_channels :: "u8 list \<Rightarrow> u8" where
  "adts_channels p = or (push_bit 2 (and (p ! 2) 0x01)) (drop_bit 6 (p ! 3))"

definition adts_length :: "u8 list \<Rightarrow> nat" where
  "adts_length p =
     or (push_bit 11 (unat (and (p ! 3) 0x03)))
       (or (push_bit 3 (unat (p ! 4))) (drop_bit 5 (unat (p ! 5))))"

lemma find_range: "find P [a..<b] = Some i \<Longrightarrow> a \<le> i \<and> i < b"
  by (auto simp: find_Some_iff)

lemma id3v2_length_ge: "id3v2_length bytes = Some n \<Longrightarrow> 10 \<le> n"
  by (auto simp: id3v2_length_def Let_def split: if_splits)

function audio_loop ::
  "audio_track \<Rightarrow> u8 list list \<Rightarrow> mux_error + audio_track \<times> u8 list list" where
  "audio_loop a frames =
     (let p = at_pending a in
      if starts_with (as_bytes ''ID3'') p then
        if length p < 10 then Inr (a, frames)
        else (case id3v2_length p of
                None \<Rightarrow> Inr (a, frames)
              | Some tag \<Rightarrow>
                  if length p < tag then Inr (a, frames)
                  else audio_loop (a\<lparr>at_pending := drop tag p\<rparr>) frames)
      else if length p < 7 then Inr (a, frames)
      else if \<not> adts_sync (p ! 0) (p ! 1) then
        (case find_adts_sync p 1 of
           None \<Rightarrow> Inr (a\<lparr>at_pending := []\<rparr>, frames)
         | Some i \<Rightarrow> audio_loop (a\<lparr>at_pending := drop i p\<rparr>) frames)
      else if length p < adts_header p then Inr (a, frames)
      else
        let profile = adts_profile p;
            frequency_index = adts_frequency p;
            channel_configuration = adts_channels p
        in if adts_length p < adts_header p
           then Inl (MuxMalformed ''an AAC frame is shorter than its own header'')
           else if length p < adts_length p then Inr (a, frames)
           else (case nth_get sample_rates (unat frequency_index) of
                   None \<Rightarrow> Inl (MuxMalformed ''an AAC frame names no sample rate'')
                 | Some rate \<Rightarrow>
                     if channel_configuration = 0
                     then Inl (MuxUnsupported ''the AAC audio leaves its channel layout to the stream'')
                     else if at_sample_rate a \<noteq> None \<and> at_sample_rate a \<noteq> Some rate
                     then Inl (MuxUnsupported ''the AAC audio changes sample rate partway through'')
                     else
                       let a' = (if at_sample_rate a = None
                                 then a\<lparr>at_sample_rate := Some rate,
                                        at_frequency_index := frequency_index,
                                        at_object_type := profile + 1,
                                        at_channel_count := ucast channel_configuration\<rparr>
                                 else a)
                       in audio_loop (a'\<lparr>at_pending := drop (adts_length p) p\<rparr>)
                            (frames @ [take (adts_length p - adts_header p) (drop (adts_header p) p)])))"
  by pat_completeness auto
termination
proof (relation "measure (\<lambda>(a, _). length (at_pending a))", goal_cases)
  case (2 a frames p tag)
  then show ?case by (auto dest!: id3v2_length_ge)
next
  case (3 a frames p i)
  then show ?case by (auto simp: find_adts_sync_def dest!: find_range)
next
  case (4 a frames p)
  then show ?case by (auto simp: adts_header_def split: if_splits)
qed simp

declare audio_loop.simps [simp del]

definition audio_push :: "u8 list \<Rightarrow> audio_track \<Rightarrow> mux_error + audio_track \<times> u8 list list" where
  "audio_push payload a =
     rbind (audio_loop (a\<lparr>at_pending := at_pending a @ payload\<rparr>) []) (\<lambda>(a', frames).
     if max_pending < int (length (at_pending a'))
     then Inl (MuxMalformed ''an AAC frame exceeds the supported size'')
     else Inr (a', frames))"

definition audio_flush :: "audio_track \<Rightarrow> audio_track \<times> u8 list list" where
  "audio_flush a =
     (let p = at_pending a;
          frames = (if 7 \<le> length p \<and> adts_sync (p ! 0) (p ! 1) \<and> adts_header p \<le> adts_length p \<and>
                       adts_length p \<le> length p
                    then [take (adts_length p - adts_header p) (drop (adts_header p) p)] else [])
      in (a\<lparr>at_pending := []\<rparr>, frames))"

section \<open>PES headers\<close>

definition read_timestamp :: "u8 list \<Rightarrow> u64" where
  "read_timestamp b =
     or (push_bit 30 (and (ucast (drop_bit 1 (b ! 0))) 0x07))
       (or (push_bit 22 (ucast (b ! 1)))
          (or (push_bit 15 (and (ucast (drop_bit 1 (b ! 2))) 0x7F))
             (or (push_bit 7 (ucast (b ! 3)))
                (and (drop_bit 1 (ucast (b ! 4))) 0x7F))))"

definition pes_without_header :: "u8 set" where
  "pes_without_header = {0xBC, 0xBE, 0xBF, 0xF0, 0xF1, 0xF2, 0xF8, 0xFF}"

definition read_pes_header :: "u8 list \<Rightarrow> mux_error + nat \<times> u64 option \<times> u64 option" where
  "read_pes_header payload =
     (let past_end = MuxMalformed ''a PES timestamp runs past its packet'' in
      if length payload < 9 \<or> take 3 payload \<noteq> [0, 0, 1]
      then Inl (MuxMalformed ''a packet that should start a PES packet does not'')
      else if payload ! 3 \<in> pes_without_header then Inr (6, None, None)
      else if and (payload ! 6) 0xC0 \<noteq> 0x80
      then Inl (MuxMalformed ''a PES packet is not MPEG-2 shaped'')
      else
        let flags = payload ! 7; len = unat (payload ! 8) in
        rbind (if and flags 0x80 \<noteq> 0
               then rmap (\<lambda>b. (Some (read_timestamp b), 14)) (ok_or past_end (slice_get payload 9 14))
               else Inr (None, 9)) (\<lambda>(pts, offset).
        rbind (if and flags 0x40 \<noteq> 0
               then rmap (\<lambda>b. Some (read_timestamp b))
                      (ok_or past_end (slice_get payload offset (offset + 5)))
               else Inr None) (\<lambda>dts.
        if length payload < 9 + len
        then Inl (MuxMalformed ''a PES header runs past the packet that starts it'')
        else Inr (9 + len, pts, dts))))"

section \<open>Parameter sets\<close>

definition remove_emulation_prevention :: "u8 list \<Rightarrow> u8 list" where
  "remove_emulation_prevention bytes =
     fst (fold (\<lambda>b (out, zeros).
       if 2 \<le> zeros \<and> b = 0x03 then (out, 0)
       else (out @ [b], if b = 0 then zeros + 1 else (0 :: nat))) bytes ([], 0))"

record bit_reader =
  bt_bytes :: "u8 list"
  bt_position :: nat

type_synonym 'a bits_act = "(bit_reader, mux_error, 'a) act"

definition read_bit :: "u64 bits_act" where
  "read_bit r =
     (case nth_get (bt_bytes r) (bt_position r div 8) of
        None \<Rightarrow> (Inl (MuxMalformed ''a parameter set ends too early''), r)
      | Some b \<Rightarrow> (Inr (ucast (and (drop_bit (7 - bt_position r mod 8) b) 1)),
                   r\<lparr>bt_position := bt_position r + 1\<rparr>))"

primrec read_bits_loop :: "nat \<Rightarrow> u64 \<Rightarrow> u64 bits_act" where
  "read_bits_loop 0 value = ret value"
| "read_bits_loop (Suc n) value =
     act_bind read_bit (\<lambda>bit. read_bits_loop n (or (push_bit 1 value) bit))"

definition read_bits :: "nat \<Rightarrow> u64 bits_act" where
  "read_bits count = read_bits_loop count 0"

function leading_zeros :: "nat \<Rightarrow> nat bits_act" where
  "leading_zeros zeros =
     act_bind (read_bits 1) (\<lambda>b.
     if b = 0 then
       if 32 < zeros + 1
       then throw (MuxMalformed ''a parameter set holds an impossible Exp-Golomb code'')
       else leading_zeros (zeros + 1)
     else ret zeros)"
  by pat_completeness auto
termination
  by (relation "measure (\<lambda>zeros. 32 - zeros)") auto

declare leading_zeros.simps [simp del]

definition read_unsigned :: "u64 bits_act" where
  "read_unsigned =
     act_bind (leading_zeros 0) (\<lambda>zeros.
     if zeros = 0 then ret 0
     else act_bind (read_bits zeros) (\<lambda>rest. ret (push_bit zeros 1 - 1 + rest)))"

definition read_signed :: "int bits_act" where
  "read_signed =
     act_bind read_unsigned (\<lambda>value.
     ret (if uint value mod 2 = 0 then - (uint value div 2) else (uint value + 1) div 2))"

text \<open>The remainder of Rust keeps the sign of the dividend.\<close>

definition rust_rem :: "int \<Rightarrow> int \<Rightarrow> int" where
  "rust_rem a b = sgn a * (\<bar>a\<bar> mod \<bar>b\<bar>)"

primrec scaling_loop :: "nat \<Rightarrow> int \<Rightarrow> int \<Rightarrow> unit bits_act" where
  "scaling_loop 0 previous next_scale = ret ()"
| "scaling_loop (Suc n) previous next_scale =
     act_bind (if next_scale \<noteq> 0
               then act_bind read_signed (\<lambda>delta. ret (rust_rem (previous + delta + 256) 256))
               else ret next_scale) (\<lambda>scale.
     scaling_loop n (if scale \<noteq> 0 then scale else previous) scale)"

definition skip_scaling_list :: "nat \<Rightarrow> unit bits_act" where
  "skip_scaling_list entries = scaling_loop entries 8 8"

primrec skip_signed :: "nat \<Rightarrow> unit bits_act" where
  "skip_signed 0 = ret ()"
| "skip_signed (Suc n) = act_bind read_signed (\<lambda>_. skip_signed n)"

definition chroma_profiles :: "u64 set" where
  "chroma_profiles = {100, 110, 122, 244, 44, 83, 86, 118, 128, 138, 139, 134, 135}"

definition skip_scaling_matrix :: "u64 \<Rightarrow> u64 \<Rightarrow> unit bits_act" where
  "skip_scaling_matrix chroma scaling =
     (if scaling = 1
      then act_for [0..<if chroma \<noteq> 3 then 8 else 12] (\<lambda>index.
             act_bind (read_bits 1) (\<lambda>present.
             if present = 1 then skip_scaling_list (if index < 6 then 16 else 64) else ret ()))
      else ret ())"

definition read_chroma :: "u64 \<Rightarrow> u64 bits_act" where
  "read_chroma profile =
     (if profile \<in> chroma_profiles then
        act_bind read_unsigned (\<lambda>chroma.
        act_bind (if chroma = 3 then read_bits 1 else ret 0) (\<lambda>_.
        act_bind read_unsigned (\<lambda>_.
        act_bind read_unsigned (\<lambda>_.
        act_bind (read_bits 1) (\<lambda>_.
        act_bind (read_bits 1) (\<lambda>scaling.
        act_bind (skip_scaling_matrix chroma scaling) (\<lambda>_. ret chroma)))))))
      else ret 1)"

definition read_order_count :: "unit bits_act" where
  "read_order_count =
     act_bind read_unsigned (\<lambda>kind.
     if kind = 0 then act_bind read_unsigned (\<lambda>_. ret ())
     else if kind = 1 then
       act_bind (read_bits 1) (\<lambda>_.
       act_bind read_signed (\<lambda>_.
       act_bind read_signed (\<lambda>_.
       act_bind read_unsigned (\<lambda>cycle. skip_signed (unat cycle)))))
     else ret ())"

text \<open>The picture size with the cropping taken off: all the arithmetic saturates.\<close>

definition read_size :: "u64 \<Rightarrow> (u64 \<times> u64) bits_act" where
  "read_size chroma =
     act_bind (act_bind read_unsigned (\<lambda>w. ret (saturating_add w 1))) (\<lambda>width_units.
     act_bind (act_bind read_unsigned (\<lambda>h. ret (saturating_add h 1))) (\<lambda>height_units.
     act_bind (read_bits 1) (\<lambda>frame_mbs_only.
     act_bind (if frame_mbs_only = 0 then read_bits 1 else ret 0) (\<lambda>_.
     act_bind (read_bits 1) (\<lambda>_.
     let width = saturating_mul width_units 16;
         height = saturating_mul height_units (if frame_mbs_only = 1 then 16 else 32) in
     act_bind (read_bits 1) (\<lambda>cropped.
     if cropped = 1 then
       act_bind read_unsigned (\<lambda>left.
       act_bind read_unsigned (\<lambda>right.
       act_bind read_unsigned (\<lambda>top.
       act_bind read_unsigned (\<lambda>bottom.
       let (unit_x, unit_y) = (if chroma = 1 then (2, 2) else if chroma = 2 then (2, 1) else (1, 1))
       in ret (saturating_sub width (saturating_mul (saturating_add left right) unit_x),
               saturating_sub height
                 (saturating_mul (saturating_mul (saturating_add top bottom) unit_y)
                    (if frame_mbs_only = 1 then 1 else 2)))))))
     else ret (width, height)))))))"

definition sps_size :: "(u64 \<times> u64) bits_act" where
  "sps_size =
     act_bind (read_bits 8) (\<lambda>_.
     act_bind (read_bits 8) (\<lambda>profile.
     act_bind (read_bits 8) (\<lambda>_.
     act_bind (read_bits 8) (\<lambda>_.
     act_bind read_unsigned (\<lambda>_.
     act_bind (read_chroma profile) (\<lambda>chroma.
     act_bind read_unsigned (\<lambda>_.
     act_bind read_order_count (\<lambda>_.
     act_bind read_unsigned (\<lambda>_.
     act_bind (read_bits 1) (\<lambda>_.
     read_size chroma))))))))))"

definition try_u16 :: "u64 \<Rightarrow> u16 option" where
  "try_u16 w = (if uint w < 2 ^ 16 then Some (ucast w) else None)"

definition dimensions :: "u8 list \<Rightarrow> mux_error + u16 \<times> u16" where
  "dimensions sps =
     rbind (fst (sps_size \<lparr>bt_bytes = remove_emulation_prevention sps, bt_position = 0\<rparr>))
       (\<lambda>(w, h).
     rbind (ok_or (MuxMalformed ''the sequence parameter set declares no usable width'') (try_u16 w))
       (\<lambda>width.
     rbind (ok_or (MuxMalformed ''the sequence parameter set declares no usable height'') (try_u16 h))
       (\<lambda>height.
     if width = 0 \<or> height = 0
     then Inl (MuxMalformed ''the sequence parameter set declares an empty picture'')
     else Inr (width, height))))"

definition avc_configuration :: "u8 list \<Rightarrow> u8 list \<Rightarrow> mux_error + u8 list" where
  "avc_configuration sps pps =
     (if length sps < 4
      then Inl (MuxMalformed ''the sequence parameter set is too short to describe a profile'')
      else
        rbind (ok_or (MuxMalformed ''the sequence parameter set is too long'') (try_len sps)) (\<lambda>sps_length.
        rbind (ok_or (MuxMalformed ''the picture parameter set is too long'') (try_len pps)) (\<lambda>pps_length.
        Inr ([1] @ take 3 (drop 1 sps) @ [0xFF, 0xE1] @ to_be_bytes 2 (sps_length :: u16) @ sps @
             [1] @ to_be_bytes 2 (pps_length :: u16) @ pps))))"

section \<open>Finishing a track\<close>

text \<open>The duration of a sample is the distance to the next decode time, where that is a frame.\<close>

fun fill_durations :: "u32 \<Rightarrow> elementary_sample list \<Rightarrow> u64 list \<Rightarrow> elementary_sample list" where
  "fill_durations previous [] decode_times = []"
| "fill_durations previous (s # samples) decode_times =
     (let duration =
        (case decode_times of
           dts # next_dts # _ \<Rightarrow>
             let delta = saturating_sub next_dts dts
             in if 0 < delta \<and> delta \<le> ucast max_frame_duration then ucast delta else previous
         | _ \<Rightarrow> previous)
      in s\<lparr>es_duration := duration\<rparr> # fill_durations duration samples (drop 1 decode_times))"

definition video_into_track :: "video_track \<Rightarrow> mux_error + elementary_track" where
  "video_into_track v =
     (if vt_samples v = []
      then Inl (MuxMalformed ''no video sample survived the transport stream'')
      else
        rbind (ok_or (MuxMalformed ''the video has no sequence parameter set'') (vt_sps v)) (\<lambda>sps.
        rbind (ok_or (MuxMalformed ''the video has no picture parameter set'') (vt_pps v)) (\<lambda>pps.
        rbind (avc_configuration sps pps) (\<lambda>configuration.
        rbind (dimensions sps) (\<lambda>(width, height).
        let samples = fill_durations default_frame_duration (vt_samples v) (vt_decode_times v)
        in Inr \<lparr>et_codec = CodecAvc configuration width height, et_timescale = video_timescale,
                et_samples = samples, et_duration = total_duration samples\<rparr>)))))"

definition audio_into_track :: "audio_track \<Rightarrow> mux_error + elementary_track" where
  "audio_into_track a =
     (if at_samples a = []
      then Inl (MuxMalformed ''no AAC frame survived the transport stream'')
      else
        rbind (ok_or (MuxMalformed ''the AAC audio declares no sample rate'') (at_sample_rate a)) (\<lambda>rate.
        let configuration = or (push_bit 11 (ucast (at_object_type a)))
              (or (push_bit 7 (ucast (at_frequency_index a))) (push_bit 3 (at_channel_count a)))
        in Inr \<lparr>et_codec = CodecAac configuration (at_channel_count a) rate, et_timescale = rate,
                et_samples = at_samples a, et_duration = total_duration (at_samples a)\<rparr>))"

section \<open>The demultiplexer\<close>

record demuxer =
  dm_output :: sink
  dm_written :: u64
  dm_pmt_pid :: "u16 option"
  dm_video_pid :: "u16 option"
  dm_audio_pid :: "u16 option"
  dm_video :: "video_track option"
  dm_audio :: "audio_track option"
  dm_unsupported_video :: "string option"
  dm_unsupported_audio :: "string option"
  dm_pat :: section_buffer
  dm_pmt :: section_buffer

definition demuxer_new :: "sink \<Rightarrow> demuxer" where
  "demuxer_new out =
     \<lparr>dm_output = out, dm_written = 0, dm_pmt_pid = None, dm_video_pid = None, dm_audio_pid = None,
      dm_video = None, dm_audio = None, dm_unsupported_video = None, dm_unsupported_audio = None,
      dm_pat = section_default, dm_pmt = section_default\<rparr>"

fun find_program :: "u8 list \<Rightarrow> u16 option" where
  "find_program (a # b # c # d # rest) =
     (if (from_be_bytes [a, b] :: u16) \<noteq> 0 then Some (and (from_be_bytes [c, d]) 0x1FFF)
      else find_program rest)"
| "find_program _ = None"

fun programs_loop :: "u8 list list \<Rightarrow> u16 option" where
  "programs_loop [] = None"
| "programs_loop (section # rest) =
     (if nth_get section 0 \<noteq> Some 0x00 \<or> length section < 12 then programs_loop rest
      else (case find_program (drop 8 (take (length section - 4) section)) of
              Some pid \<Rightarrow> Some pid
            | None \<Rightarrow> programs_loop rest))"

definition programs :: "bool \<Rightarrow> u8 list \<Rightarrow> demuxer \<Rightarrow> mux_error + demuxer" where
  "programs start payload d =
     rbind (section_push (dm_pat d) payload start) (\<lambda>(pat, sections).
     Inr (case programs_loop sections of
            Some pid \<Rightarrow> d\<lparr>dm_pat := pat, dm_pmt_pid := Some pid\<rparr>
          | None \<Rightarrow> d\<lparr>dm_pat := pat\<rparr>))"

definition declare_stream :: "u8 \<Rightarrow> u16 \<Rightarrow> demuxer \<Rightarrow> demuxer" where
  "declare_stream stream_type pid d =
     (if stream_type = 0x1B \<and> dm_video_pid d = None then d\<lparr>dm_video_pid := Some pid\<rparr>
      else if stream_type = 0x0F \<and> dm_audio_pid d = None then d\<lparr>dm_audio_pid := Some pid\<rparr>
      else if stream_type = 0x24
      then d\<lparr>dm_unsupported_video := Some ''the transport stream carries HEVC video''\<rparr>
      else if stream_type = 0x03 \<or> stream_type = 0x04
      then d\<lparr>dm_unsupported_audio := Some ''the transport stream carries MPEG audio, not AAC''\<rparr>
      else if stream_type = 0x81 \<or> stream_type = 0x87
      then d\<lparr>dm_unsupported_audio := Some ''the transport stream carries Dolby audio, not AAC''\<rparr>
      else d)"

text \<open>The loop over the streams of one table: the entries from the index to the table's end.\<close>

function streams_loop :: "u8 list \<Rightarrow> demuxer \<Rightarrow> demuxer" where
  "streams_loop entries d =
     (if length entries < 5 then d
      else streams_loop (drop (5 + be12 (entries ! 3) (entries ! 4)) entries)
             (declare_stream (entries ! 0)
                (and (from_be_bytes [entries ! 1, entries ! 2]) 0x1FFF) d))"
  by pat_completeness auto
termination by (relation "measure (\<lambda>(entries, _). length entries)") auto

declare streams_loop.simps [simp del]

fun maps_loop :: "u8 list list \<Rightarrow> demuxer \<Rightarrow> demuxer" where
  "maps_loop [] d = d"
| "maps_loop (section # rest) d =
     maps_loop rest
       (if nth_get section 0 \<noteq> Some 0x02 \<or> length section < 16 then d
        else streams_loop (drop (12 + be12 (section ! 10) (section ! 11))
               (take (length section - 4) section)) d)"

definition program_map :: "bool \<Rightarrow> u8 list \<Rightarrow> demuxer \<Rightarrow> mux_error + demuxer" where
  "program_map start payload d =
     rbind (section_push (dm_pmt d) payload start) (\<lambda>(pmt, sections).
     Inr (maps_loop sections (d\<lparr>dm_pmt := pmt\<rparr>)))"

text \<open>Presentation minus decode time, where it fits an \<open>i32\<close>; a negative offset becomes zero.\<close>

definition composition_of :: "u64 \<Rightarrow> u64 \<Rightarrow> i32" where
  "composition_of pts dts =
     (let delta = (if uint pts < 2 ^ 63 \<and> uint dts < 2 ^ 63 then uint pts - uint dts else 0);
          composition = (if - (2 ^ 31) \<le> delta \<and> delta < 2 ^ 31 then delta else 0)
      in word_of_int (max composition 0))"

definition or_unwrap :: "'a option \<Rightarrow> 'a option \<Rightarrow> 'a \<Rightarrow> 'a" where
  "or_unwrap a b d = unwrap_or d (or_else a b)"

definition write_video :: "completed_unit \<Rightarrow> demuxer \<Rightarrow> mux_error + demuxer" where
  "write_video u d =
     rbind (ok_or (MuxMalformed ''a video unit arrived before its track'') (dm_video d)) (\<lambda>track.
     let dts = or_unwrap (cu_dts u) (cu_pts u) (next_decode_time track);
         pts = unwrap_or dts (cu_pts u) in
     rbind (ok_or MuxTooLarge (try_len (cu_data u))) (\<lambda>len.
     rbind (write_all (cu_data u) (dm_output d)) (\<lambda>out.
     Inr (d\<lparr>dm_output := out,
            dm_video := Some (track\<lparr>
              vt_samples := vt_samples track @
                [\<lparr>es_offset = dm_written d, es_size = len, es_duration = 0,
                  es_composition = composition_of pts dts, es_sync = cu_sync u\<rparr>],
              vt_decode_times := vt_decode_times track @ [dts],
              vt_last_dts := dts\<rparr>),
            dm_written := saturating_add (dm_written d) (ucast len)\<rparr>))))"

definition aac_sample :: "u64 \<Rightarrow> u32 \<Rightarrow> elementary_sample" where
  "aac_sample written len =
     \<lparr>es_offset = written, es_size = len, es_duration = aac_frame_samples, es_composition = 0,
      es_sync = True\<rparr>"

definition write_audio :: "u8 list \<Rightarrow> demuxer \<Rightarrow> mux_error + demuxer" where
  "write_audio frame d =
     rbind (ok_or (MuxMalformed ''an audio frame arrived before its track'') (dm_audio d)) (\<lambda>track.
     rbind (ok_or MuxTooLarge (try_len frame)) (\<lambda>len.
     rbind (write_all frame (dm_output d)) (\<lambda>out.
     Inr (d\<lparr>dm_output := out,
            dm_audio := Some (track\<lparr>at_samples := at_samples track @ [aac_sample (dm_written d) len]\<rparr>),
            dm_written := saturating_add (dm_written d) (ucast len)\<rparr>))))"

fun each :: "('a \<Rightarrow> 's \<Rightarrow> 'e + 's) \<Rightarrow> 'a list \<Rightarrow> 's \<Rightarrow> 'e + 's" where
  "each f [] s = Inr s"
| "each f (x # xs) s = rbind (f x s) (each f xs)"

lemma each_invariant:
  assumes "each f xs s = Inr s'" "P s" "\<And>x s s'. f x s = Inr s' \<Longrightarrow> P s \<Longrightarrow> P s'"
  shows "P s'"
  using assms(1,2) by (induction xs arbitrary: s) (auto simp: result_simps dest: assms(3))

definition video_payload :: "bool \<Rightarrow> u8 list \<Rightarrow> demuxer \<Rightarrow> mux_error + demuxer" where
  "video_payload start payload d =
     rbind (if start
            then rmap (\<lambda>(header, pts, dts).
                   (header, timed pts dts (unwrap_or video_default (dm_video d))))
                   (read_pes_header payload)
            else Inr (0, unwrap_or video_default (dm_video d))) (\<lambda>(began, video).
     rbind (video_push (drop began payload) video) (\<lambda>(video', units).
     each write_video units (d\<lparr>dm_video := Some video'\<rparr>)))"

definition audio_payload :: "bool \<Rightarrow> u8 list \<Rightarrow> demuxer \<Rightarrow> mux_error + demuxer" where
  "audio_payload start payload d =
     rbind (if start then rmap fst (read_pes_header payload) else Inr 0) (\<lambda>began.
     rbind (audio_push (drop began payload) (unwrap_or audio_default (dm_audio d))) (\<lambda>(audio', frames).
     each write_audio frames (d\<lparr>dm_audio := Some audio'\<rparr>)))"

definition route_payload :: "u16 \<Rightarrow> bool \<Rightarrow> u8 list \<Rightarrow> demuxer \<Rightarrow> mux_error + demuxer" where
  "route_payload pid unit_start payload d =
     (if pid = 0 then programs unit_start payload d
      else if Some pid = dm_pmt_pid d then program_map unit_start payload d
      else if Some pid = dm_video_pid d then video_payload unit_start payload d
      else if Some pid = dm_audio_pid d then audio_payload unit_start payload d
      else Inr d)"

definition demux_packet :: "u8 list \<Rightarrow> demuxer \<Rightarrow> mux_error + demuxer" where
  "demux_packet packet d =
     (if length packet \<noteq> packet_size
      then Inl (MuxMalformed ''a transport-stream packet is not 188 bytes'')
      else if and (packet ! 1) 0x80 \<noteq> 0 then Inr d
      else
        let pid = or (push_bit 8 (ucast (and (packet ! 1) 0x1F))) (ucast (packet ! 2)) :: u16;
            unit_start = (and (packet ! 1) 0x40 \<noteq> 0);
            adaptation = and (drop_bit 4 (packet ! 3)) 0x03;
            offset = (if and adaptation 0x02 \<noteq> 0 then 5 + unat (packet ! 4) else 4)
        in if packet_size < offset
           then Inl (MuxMalformed ''a packet's adaptation field runs past its end'')
           else if adaptation = 0x02 \<or> packet_size \<le> offset then Inr d
           else
             route_payload pid unit_start (drop offset packet) d)"

definition missing_track :: "demuxer \<Rightarrow> mux_error" where
  "missing_track d =
     MuxUnsupported
       (or_unwrap (dm_unsupported_video d) (dm_unsupported_audio d)
          ''the transport stream declares no track this can read'')"

definition demux_finish :: "demuxer \<Rightarrow> mux_error + elementary_track \<times> sink" where
  "demux_finish d =
     (let (video, units) = (case dm_video d of None \<Rightarrow> (None, [])
                            | Some v \<Rightarrow> map_prod Some id (video_flush v));
          (audio, frames) = (case dm_audio d of None \<Rightarrow> (None, [])
                             | Some a \<Rightarrow> map_prod Some id (audio_flush a)) in
      rbind (each write_video units (d\<lparr>dm_video := video, dm_audio := audio\<rparr>)) (\<lambda>d1.
      rbind (each write_audio frames d1) (\<lambda>d2.
      rbind (flush_sink (dm_output d2)) (\<lambda>_.
      rmap (\<lambda>track. (track, dm_output d2))
        (case (dm_video d2, dm_audio d2) of
           (Some v, None) \<Rightarrow> video_into_track v
         | (None, Some a) \<Rightarrow> audio_into_track a
         | (Some _, Some _) \<Rightarrow>
             Inl (MuxUnsupported ''the transport stream already carries both tracks'')
         | (None, None) \<Rightarrow> Inl (missing_track d2))))))"

text \<open>The packets of the source; a read that meets the end of the file stops the loop.\<close>

function demux_loop :: "u8 list \<Rightarrow> io_kind option \<Rightarrow> bool \<Rightarrow> demuxer \<Rightarrow> mux_error + bool \<times> demuxer" where
  "demux_loop rest read_error started d =
     (if length rest < packet_size then
        (case read_error of
           None \<Rightarrow> Inr (started, d)
         | Some k \<Rightarrow> if k = UnexpectedEof then Inr (started, d) else Inl (MuxIo k))
      else
        let packet = take packet_size rest
        in if packet ! 0 \<noteq> sync_byte then
             Inl (MuxMalformed
               (if started then ''the transport stream stops being packet aligned''
                else ''the transport stream does not begin on a packet boundary''))
           else rbind (demux_packet packet d) (demux_loop (drop packet_size rest) read_error True))"
  by pat_completeness auto
termination
  by (relation "measure (\<lambda>(rest, _). length rest)") (auto simp: packet_size_def)

declare demux_loop.simps [simp del]

definition demux ::
  "io_kind + source_file \<Rightarrow> io_kind + sink \<Rightarrow> mux_error + elementary_track \<times> sink" where
  "demux source output =
     rbind (map_err MuxIo source) (\<lambda>file.
     rbind (map_err MuxIo output) (\<lambda>out.
     rbind (demux_loop (src_bytes file) (src_error file) False (demuxer_new (out\<lparr>snk_bytes := []\<rparr>)))
       (\<lambda>(started, d).
     if \<not> started then Inl (MuxMalformed ''the transport stream is empty'')
     else demux_finish d)))"

section \<open>Packed audio\<close>

text \<open>The input of a packed-audio file arrives in the pieces its reads return.\<close>

record adts_state =
  ad_output :: sink
  ad_audio :: audio_track
  ad_samples :: "elementary_sample list"
  ad_written :: u64

definition write_adts_frame :: "u8 list \<Rightarrow> adts_state \<Rightarrow> mux_error + adts_state" where
  "write_adts_frame frame s =
     rbind (ok_or MuxTooLarge (try_len frame)) (\<lambda>len.
     rbind (write_all frame (ad_output s)) (\<lambda>out.
     Inr (s\<lparr>ad_output := out, ad_samples := ad_samples s @ [aac_sample (ad_written s) len],
            ad_written := saturating_add (ad_written s) (ucast len)\<rparr>)))"

definition write_adts_frames :: "u8 list list \<Rightarrow> adts_state \<Rightarrow> mux_error + adts_state" where
  "write_adts_frames frames = each write_adts_frame frames"

fun adts_loop :: "(io_kind + u8 list) list \<Rightarrow> adts_state \<Rightarrow> mux_error + adts_state" where
  "adts_loop [] s = Inr s"
| "adts_loop (Inl k # reads) s = Inl (MuxIo k)"
| "adts_loop (Inr piece # reads) s =
     (if piece = [] then Inr s
      else
        rbind (audio_push piece (ad_audio s)) (\<lambda>(audio, frames).
        rbind (write_adts_frames frames (s\<lparr>ad_audio := audio\<rparr>)) (adts_loop reads)))"

definition demux_adts ::
  "io_kind + (io_kind + u8 list) list \<Rightarrow> io_kind + sink \<Rightarrow> mux_error + elementary_track \<times> sink" where
  "demux_adts source output =
     rbind (map_err MuxIo source) (\<lambda>reads.
     rbind (map_err MuxIo output) (\<lambda>out.
     rbind (adts_loop reads \<lparr>ad_output = out\<lparr>snk_bytes := []\<rparr>, ad_audio = audio_default,
              ad_samples = [], ad_written = 0\<rparr>) (\<lambda>s.
     let (audio, frames) = audio_flush (ad_audio s) in
     rbind (write_adts_frames frames (s\<lparr>ad_audio := audio\<rparr>)) (\<lambda>s'.
     rbind (flush_sink (ad_output s')) (\<lambda>_.
     rmap (\<lambda>track. (track, ad_output s')) (audio_into_track ((ad_audio s')\<lparr>at_samples := ad_samples s'\<rparr>)))))))"

end
