(* ===== verification/Bit_Fields.thy ===== *)
theory Bit_Fields
  imports Bytes
begin

text \<open>
  Fields packed into bytes: reading back what shifts and masks put together.  The rules are gathered
  in \<open>bit_field_simps\<close>, over the value of a byte as a natural number.
\<close>

named_theorems bit_field_simps \<open>values of packed byte fields\<close>

lemma or_push_bit_add: "(b::nat) < 2 ^ n \<Longrightarrow> or (push_bit n a) b = a * 2 ^ n + b"
proof -
  assume "b < 2 ^ n"
  then have b: "bit b i \<Longrightarrow> i < n" for i
    by (metis bit_take_bit_iff take_bit_nat_eq_self)
  have "and (push_bit n a) b = 0"
    by (rule bit_eqI) (use b in \<open>force simp: bit_and_iff bit_push_bit_iff\<close>)
  then show ?thesis by (simp add: disjunctive_add_eq_or [symmetric] push_bit_eq_mult)
qed

lemma unat_and_ones [bit_field_simps]:
  "unat (and b 0x0F :: u8) = unat b mod 16" "unat (and b 3 :: u8) = unat b mod 4"
  "unat (and b 1 :: u8) = unat b mod 2"
proof -
  have "and b 0x0F = take_bit 4 b" "and b 3 = take_bit 2 b" "and b 1 = take_bit 1 b"
    by (simp_all add: take_bit_eq_mask mask_eq_exp_minus_1)
  then show "unat (and b 0x0F :: u8) = unat b mod 16" "unat (and b 3 :: u8) = unat b mod 4"
    "unat (and b 1 :: u8) = unat b mod 2"
    by (simp_all only: unsigned_take_bit_eq) (simp_all add: take_bit_eq_mod)
qed

lemma unat_drop_bit [bit_field_simps]: "unat (drop_bit k b) = unat b div 2 ^ k" for b :: u8
  by (metis drop_bit_eq_div unsigned_drop_bit_eq unsigned_take_bit_eq take_bit_word_eq_self order_refl)

lemma unat_byte [bit_field_simps]: "n < 256 \<Longrightarrow> unat (of_nat n :: u8) = n"
  by (simp add: unsigned_of_nat take_bit_nat_eq_self)

end
