(* ===== verification/Ts_Correct.thy ===== *)
theory Ts_Correct
  imports Ts Bit_Fields
begin

text \<open>
  What the transport-stream reader gets right: NAL units and ADTS frames come out the same however
  the stream is cut into packets, and the samples of a demultiplexed track tile its file; at the end,
  where data is lost at a boundary.
\<close>

section \<open>Splitting the byte stream into NAL units\<close>

lemma str_find_stable: "str_find p s = Some n \<Longrightarrow> str_find p (s @ t) = Some n"
proof (induction p s arbitrary: n rule: str_find.induct)
  case (1 p)
  then show ?case by (cases t) (auto simp: starts_with_iff split: if_splits)
next
  case (2 p c cs)
  show ?case
  proof (cases "starts_with p (c # cs)")
    case True
    then have "starts_with p (c # cs @ t)" by (metis append_Cons append_assoc starts_with_iff)
    then show ?thesis using 2(2) True by simp
  next
    case False
    then obtain m where m: "str_find p cs = Some m" "n = Suc m"
      using 2(2) by auto
    then have len: "length p \<le> length cs"
      by (auto dest!: str_find_Some simp: starts_with_iff)
         (metis add_leD1 length_append length_drop diff_le_self le_trans le_add1)
    have "\<not> starts_with p (c # cs @ t)"
    proof
      assume "starts_with p (c # cs @ t)"
      then obtain u where "(c # cs) @ t = p @ u" by (auto simp: starts_with_iff)
      then have "take (length p) (c # cs) = p"
        using len by (metis (no_types, lifting) append_eq_conv_conj length_Cons le_SucI take_append
            diff_is_0_eq' take_0 append_Nil2)
      then show False using False by (metis starts_with_iff append_take_drop_id)
    qed
    then show ?thesis using 2(1) [OF False m(1)] m(2) False by simp
  qed
qed

lemma find_start_code_stable:
  assumes "find_start_code p i = Some k"
  shows "find_start_code (p @ q) i = Some k"
proof -
  from find_start_code_bounds [OF assms] have "drop i (p @ q) = drop i p @ q" by simp
  moreover from assms obtain j where "str_find [0, 0, 1] (drop i p) = Some j" "k = i + j + 2"
    by (auto simp: find_start_code_def)
  ultimately show ?thesis by (simp add: find_start_code_def str_find_stable)
qed

function nal_split :: "u8 list \<Rightarrow> u8 list list \<times> u8 list" where
  "nal_split p =
     (case find_start_code p 0 of
        None \<Rightarrow> ([], p)
      | Some code \<Rightarrow>
          let p' = drop (code - 2) p
          in (case find_start_code p' 3 of
                None \<Rightarrow> ([], p')
              | Some stop \<Rightarrow>
                  let tail = nal_split (drop (stop - 2) p')
                  in (trim_trailing_zeros (take (stop - 2 - 3) (drop 3 p')) # fst tail, snd tail)))"
  by pat_completeness auto
termination
  by (relation "measure length") (auto dest!: find_start_code_bounds)

declare nal_split.simps [simp del]

lemma find_start_code_drop:
  assumes "find_start_code p 0 = Some code"
  shows "find_start_code (drop (code - 2) p) 0 = Some 2"
proof -
  from assms have "starts_with [0, 0, 1] (drop (code - 2) p)"
    by (auto simp: find_start_code_def dest!: str_find_Some)
  then show ?thesis by (auto simp: find_start_code_def starts_with_iff)
qed

lemma nal_split_append:
  "nal_split (p @ q) =
     (fst (nal_split p) @ fst (nal_split (snd (nal_split p) @ q)),
      snd (nal_split (snd (nal_split p) @ q)))"
proof (induction p rule: nal_split.induct)
  case (1 p)
  show ?case
  proof (cases "find_start_code p 0")
    case None
    then show ?thesis by (simp add: nal_split.simps [of p])
  next
    case code: (Some code)
    define p' where "p' = drop (code - 2) p"
    have start: "find_start_code (p @ q) 0 = Some code" "drop (code - 2) (p @ q) = p' @ q"
      using find_start_code_stable [OF code] find_start_code_bounds [OF code] by (auto simp: p'_def)
    show ?thesis
    proof (cases "find_start_code p' 3")
      case None
      have "nal_split (p @ q) = nal_split (p' @ q)"
        using start find_start_code_stable [OF find_start_code_drop [OF code], folded p'_def, of q]
        by (simp add: nal_split.simps [of "p @ q"] nal_split.simps [of "p' @ q"])
      then show ?thesis using code None by (simp add: nal_split.simps [of p] p'_def)
    next
      case stop: (Some stop)
      have parts: "drop (stop - 2) (p' @ q) = drop (stop - 2) p' @ q"
        "take (stop - 2 - 3) (drop 3 (p' @ q)) = take (stop - 2 - 3) (drop 3 p')"
      proof -
        have stop': "5 \<le> stop" "stop < length p'" using find_start_code_bounds [OF stop] by auto
        then have "drop 3 (p' @ q) = drop 3 p' @ q" by simp
        then show "drop (stop - 2) (p' @ q) = drop (stop - 2) p' @ q"
          "take (stop - 2 - 3) (drop 3 (p' @ q)) = take (stop - 2 - 3) (drop 3 p')"
          using stop' by simp_all
      qed
      have "nal_split (p @ q) =
              (trim_trailing_zeros (take (stop - 2 - 3) (drop 3 (p' @ q))) #
                 fst (nal_split (drop (stop - 2) (p' @ q))), snd (nal_split (drop (stop - 2) (p' @ q))))"
        using start find_start_code_stable [OF stop, of q]
        by (simp add: nal_split.simps [of "p @ q"] Let_def del: drop_append take_append)
      moreover have "nal_split p =
              (trim_trailing_zeros (take (stop - 2 - 3) (drop 3 p')) #
                 fst (nal_split (drop (stop - 2) p')), snd (nal_split (drop (stop - 2) p')))"
        using code stop by (simp add: nal_split.simps [of p] p'_def [symmetric] Let_def)
      moreover note 1 [OF code p'_def stop]
      ultimately show ?thesis unfolding parts by simp
    qed
  qed
qed

fun video_nals :: "u8 list list \<Rightarrow> video_track \<Rightarrow> video_track \<times> completed_unit list" where
  "video_nals [] v = (v, [])"
| "video_nals (nal # nals) v =
     (let step = video_nal nal v; tail = video_nals nals (fst step)
      in (fst tail, snd step @ snd tail))"

lemma video_nal_on_pending:
  "video_nal nal (v\<lparr>vt_pending := p\<rparr>) =
     ((fst (video_nal nal v))\<lparr>vt_pending := p\<rparr>, snd (video_nal nal v))"
  by (cases nal) (simp_all add: video_nal_def video_flush_def Let_def)

lemma video_nals_on_pending:
  "video_nals nals (v\<lparr>vt_pending := p\<rparr>) =
     ((fst (video_nals nals v))\<lparr>vt_pending := p\<rparr>, snd (video_nals nals v))"
  by (induction nals arbitrary: v) (simp_all add: Let_def video_nal_on_pending)

lemma video_nals_append:
  "video_nals (xs @ ys) v =
     (fst (video_nals ys (fst (video_nals xs v))),
      snd (video_nals xs v) @ snd (video_nals ys (fst (video_nals xs v))))"
  by (induction xs arbitrary: v) (simp_all add: Let_def)

lemma video_loop_split:
  "video_loop v complete =
     ((fst (video_nals (fst (nal_split (vt_pending v))) v))\<lparr>vt_pending := snd (nal_split (vt_pending v))\<rparr>,
      complete @ snd (video_nals (fst (nal_split (vt_pending v))) v))"
proof (induction v complete rule: video_loop.induct)
  case (1 v complete)
  show ?case
  proof (cases "find_start_code (vt_pending v) 0")
    case None
    then show ?thesis by (simp add: video_loop.simps [of v] nal_split.simps [of "vt_pending v"])
  next
    case code: (Some code)
    define p where "p = drop (code - 2) (vt_pending v)"
    have p: "(if code > 2 then drop (code - 2) (vt_pending v) else vt_pending v) = p"
      by (simp add: p_def)
    show ?thesis
    proof (cases "find_start_code p 3")
      case None
      with code p show ?thesis
        by (simp add: video_loop.simps [of v] nal_split.simps [of "vt_pending v"] p_def [symmetric])
    next
      case stop: (Some stop)
      define nal where "nal = trim_trailing_zeros (take (stop - 2 - 3) (drop 3 p))"
      define rest where "rest = drop (stop - 2) p"
      have split: "nal_split (vt_pending v) = (nal # fst (nal_split rest), snd (nal_split rest))"
        using code stop
        by (simp add: nal_split.simps [of "vt_pending v"] p_def [symmetric] nal_def rest_def Let_def)
      have "video_loop v complete =
              video_loop (fst (video_nal nal (v\<lparr>vt_pending := rest\<rparr>)))
                (complete @ snd (video_nal nal (v\<lparr>vt_pending := rest\<rparr>)))"
        using code p stop by (simp add: video_loop.simps [of v] nal_def rest_def Let_def)
      also note 1 [OF code p [symmetric] stop nal_def]
      finally show ?thesis
        by (simp add: split rest_def [symmetric] video_nal_on_pending video_nals_on_pending Let_def)
    qed
  qed
qed

lemma nal_split_length: "length (snd (nal_split p)) \<le> length p"
proof (induction p rule: nal_split.induct)
  case (1 p)
  then show ?case
    by (simp add: nal_split.simps [of p] Let_def split: option.splits)
       (metis diff_le_self le_trans length_drop)
qed

lemma nal_split_rest: "nal_split (snd (nal_split p)) = ([], snd (nal_split p))"
  using nal_split_append [of p "[]"] by (simp add: prod_eq_iff)

text \<open>Payloads pushed one after the other.\<close>

fun video_feed :: "u8 list list \<Rightarrow> video_track \<Rightarrow> mux_error + video_track \<times> completed_unit list" where
  "video_feed [] v = Inr (v, [])"
| "video_feed (payload # payloads) v =
     rbind (video_push payload v) (\<lambda>(v1, units).
     rbind (video_feed payloads v1) (\<lambda>(v2, later). Inr (v2, units @ later)))"

lemma video_feed_split:
  assumes "video_feed payloads v = Inr (v', units)"
    and "nal_split (vt_pending v) = ([], vt_pending v)"
  shows "v' = (fst (video_nals (fst (nal_split (vt_pending v @ concat payloads))) v))
                \<lparr>vt_pending := snd (nal_split (vt_pending v @ concat payloads))\<rparr> \<and>
         units = snd (video_nals (fst (nal_split (vt_pending v @ concat payloads))) v)"
  using assms
proof (induction payloads arbitrary: v units)
  case (Cons p ps)
  define s where "s = nal_split (vt_pending v @ p)"
  define v1 where "v1 = (fst (video_nals (fst s) v))\<lparr>vt_pending := snd s\<rparr>"
  have push: "video_push p v = Inr (v1, snd (video_nals (fst s) v))"
    using Cons.prems(1)
    by (auto simp: video_push_def video_loop_split s_def v1_def video_nals_on_pending Let_def
        split: if_splits)
  then obtain later where later: "video_feed ps v1 = Inr (v', later)"
      "units = snd (video_nals (fst s) v) @ later"
    using Cons.prems(1) by (auto simp: result_simps)
  have "nal_split (vt_pending v1) = ([], vt_pending v1)"
    by (simp add: v1_def s_def nal_split_rest)
  from Cons.IH [OF later(1) this] show ?case
    using nal_split_append [of "vt_pending v @ p" "concat ps"]
    by (simp add: later(2) v1_def s_def [symmetric] video_nals_append video_nals_on_pending)
qed simp

lemma video_feed_ok:
  assumes "int (length (vt_pending v) + length (concat payloads)) \<le> max_pending"
  shows "\<exists>r. video_feed payloads v = Inr r"
  using assms
proof (induction payloads arbitrary: v)
  case (Cons p ps)
  define s where "s = nal_split (vt_pending v @ p)"
  define v1 where "v1 = (fst (video_nals (fst s) v))\<lparr>vt_pending := snd s\<rparr>"
  have len: "length (snd s) \<le> length (vt_pending v) + length p"
    using nal_split_length [of "vt_pending v @ p"] by (simp add: s_def)
  then have "video_push p v = Inr (v1, snd (video_nals (fst s) v))"
    using Cons.prems
    by (auto simp: video_push_def video_loop_split s_def v1_def video_nals_on_pending Let_def)
  moreover obtain v2 later where "video_feed ps v1 = Inr (v2, later)"
    using Cons.IH [of v1] Cons.prems len by (auto simp: v1_def)
  ultimately show ?case by simp
qed simp

section \<open>Recovering the NAL units of a byte stream\<close>

text \<open>Each unit stands behind a start code of at least three bytes.\<close>

definition annexb :: "(nat \<times> u8 list) list \<Rightarrow> u8 list" where
  "annexb units = concat (map (\<lambda>(zeros, nal). replicate zeros 0 @ [0, 0, 1] @ nal) units)"

definition clean_nal :: "u8 list \<Rightarrow> bool" where
  "clean_nal nal \<longleftrightarrow> nal \<noteq> [] \<and> List.last nal \<noteq> 0 \<and> str_find [0, 0, 1] nal = None"

lemma str_find_zeros: "str_find [0, 0, 1] (replicate z 0 @ 0 # 0 # 1 # t) = Some (z :: nat)"
  for t :: "u8 list"
proof (induction z)
  case (Suc z)
  have "\<not> starts_with [0, 0, 1] (0 # replicate z 0 @ 0 # 0 # 1 # t)"
    by (cases z; cases "z - 1"; cases "z - 2") (auto simp: starts_with_def)
  with Suc show ?case by simp
qed (simp add: starts_with_def)

lemma str_find_code:
  fixes nal :: "u8 list"
  assumes "str_find [0, 0, 1] nal = None" "nal = [] \<or> List.last nal \<noteq> 0"
  shows "str_find [0, 0, 1] (nal @ replicate z 0 @ 0 # 0 # 1 # t) = Some (length nal + z)"
  using assms
proof (induction nal)
  case (Cons c nal)
  have "\<not> starts_with [0, 0, 1] (c # nal @ replicate z 0 @ 0 # 0 # 1 # t)"
    using Cons.prems by (cases nal; cases "tl nal") (auto simp: starts_with_def split: if_splits)
  with Cons show ?case by (auto split: if_splits)
qed (simp add: str_find_zeros)

lemma trim_nal: "nal \<noteq> [] \<Longrightarrow> List.last nal \<noteq> 0 \<Longrightarrow> trim_trailing_zeros (nal @ replicate z 0) = nal"
proof -
  assume "nal \<noteq> []" "List.last nal \<noteq> 0"
  moreover have "dropWhile (\<lambda>b. b = 0) (replicate z 0 @ rev nal) = dropWhile (\<lambda>b. b = 0) (rev nal)"
    by (induction z) auto
  ultimately show ?thesis
    by (cases nal rule: rev_cases) (auto simp: trim_trailing_zeros_def)
qed

lemma nal_split_annexb:
  "clean_nal nal \<Longrightarrow> list_all (\<lambda>(_, n). clean_nal n) later \<Longrightarrow>
   nal_split ([0, 0, 1] @ nal @ annexb later) =
     (butlast (nal # map snd later), [0, 0, 1] @ List.last (nal # map snd later))"
proof (induction later arbitrary: nal)
  case Nil
  then show ?case
    by (simp add: nal_split.simps find_start_code_def annexb_def clean_nal_def starts_with_def)
next
  case (Cons m later)
  obtain z n where m: "m = (z, n)" by (cases m)
  define p where "p = [0, 0, 1] @ nal @ annexb (m # later)"
  have code: "find_start_code p 0 = Some 2"
    by (simp add: p_def find_start_code_def starts_with_def)
  have p: "p = [0, 0, 1] @ nal @ replicate z 0 @ 0 # 0 # 1 # n @ annexb later"
    by (simp add: p_def annexb_def m)
  have stop: "find_start_code p 3 = Some (3 + (length nal + z) + 2)"
    using Cons.prems(1) str_find_code [of nal z "n @ annexb later"]
    by (simp add: find_start_code_def p clean_nal_def)
  have body: "take (3 + (length nal + z) + 2 - 2 - 3) (drop 3 p) = nal @ replicate z 0"
    "drop (3 + (length nal + z) + 2 - 2) p = [0, 0, 1] @ n @ annexb later"
    by (simp_all add: p numeral_3_eq_3)
  have "nal_split p =
          (nal # fst (nal_split ([0, 0, 1] @ n @ annexb later)), snd (nal_split ([0, 0, 1] @ n @ annexb later)))"
    using code stop Cons.prems(1) unfolding nal_split.simps [of p]
    by (simp add: Let_def body [simplified] trim_nal clean_nal_def)
  moreover have "nal_split ([0, 0, 1] @ n @ annexb later) =
                   (butlast (n # map snd later), [0, 0, 1] @ List.last (n # map snd later))"
    using Cons.prems(2) by (intro Cons.IH) (simp_all add: m)
  ultimately show ?case by (simp add: p_def m)
qed

lemma video_flush_units: "concat (map cu_data (snd (video_flush v))) @ vt_unit (fst (video_flush v)) = vt_unit v"
  by (simp add: video_flush_def)

lemma video_nal_units:
  "nal \<noteq> [] \<Longrightarrow> concat (map cu_data (snd (video_nal nal v))) @ vt_unit (fst (video_nal nal v)) =
     vt_unit v @ nal_prefixed nal"
  using video_flush_units [of v] by (cases nal) (auto simp: video_nal_def Let_def split: prod.splits)

lemma video_nals_units:
  "list_all (\<lambda>nal. nal \<noteq> []) nals \<Longrightarrow>
   concat (map cu_data (snd (video_nals nals v))) @ vt_unit (fst (video_nals nals v)) =
     vt_unit v @ concat (map nal_prefixed nals)"
proof (induction nals arbitrary: v)
  case (Cons nal nals)
  then show ?case
    using video_nal_units [of nal v] Cons.IH [of "fst (video_nal nal v)"] by (simp add: Let_def)
qed simp

lemma annexb_clean_nonempty: "list_all (\<lambda>(_, n). clean_nal n) units \<Longrightarrow> list_all (\<lambda>n. n \<noteq> []) (map snd units)"
  by (induction units) (auto simp: clean_nal_def)

lemma nal_split_stream:
  assumes "units \<noteq> []" "list_all (\<lambda>(_, n). clean_nal n) units"
  shows "nal_split (annexb units) = (butlast (map snd units), [0, 0, 1] @ List.last (map snd units))"
proof -
  obtain z n later where u: "units = (z, n) # later" using assms(1) by (cases units) auto
  have "nal_split (annexb units) = nal_split ([0, 0, 1] @ n @ annexb later)"
  proof -
    have "find_start_code (annexb units) 0 = Some (z + 2)"
      by (simp add: find_start_code_def u annexb_def str_find_zeros)
    moreover have "drop z (annexb units) = [0, 0, 1] @ n @ annexb later"
      by (simp add: u annexb_def)
    ultimately show ?thesis
      by (subst (1 2) nal_split.simps) (simp add: find_start_code_def starts_with_def)
  qed
  then show ?thesis using assms(2) nal_split_annexb [of n later] by (simp add: u)
qed

text \<open>
  C24.  A video byte stream of NAL units, each behind a start code, may be cut into payloads anywhere:
  every unit but the last, which only the next start code would end, is handled in order, the access
  units hold exactly the units handled, each behind its four-byte length, and the last unit waits in
  the buffer.  Payloads of at most 8 MiB in all are never refused.
\<close>

theorem nal_units_survive_packetisation:
  assumes "units \<noteq> []" "list_all (\<lambda>(_, nal). clean_nal nal) units"
    and "concat payloads = annexb units" "int (length (annexb units)) \<le> max_pending"
  shows "\<exists>v complete. video_feed payloads video_default = Inr (v, complete) \<and>
    video_nals (butlast (map snd units)) video_default = (v\<lparr>vt_pending := []\<rparr>, complete) \<and>
    concat (map cu_data complete) @ vt_unit v = concat (map nal_prefixed (butlast (map snd units))) \<and>
    vt_pending v = [0, 0, 1] @ List.last (map snd units)"
proof -
  let ?nals = "butlast (map snd units)"
  obtain v complete where feed: "video_feed payloads video_default = Inr (v, complete)"
    using video_feed_ok [of video_default payloads] assms(3,4) by (auto simp: video_default_def)
  have empty: "vt_pending video_default = []" "nal_split [] = ([], [])"
    by (simp_all add: video_default_def nal_split.simps find_start_code_def)
  have units0: "vt_unit video_default = []" by (simp add: video_default_def)
  have keep: "vt_pending (fst (video_nals ns w)) = vt_pending w" for ns w
    by (induction ns arbitrary: w) (simp_all add: Let_def)
  have v: "v = (fst (video_nals ?nals video_default))\<lparr>vt_pending := [0, 0, 1] @ List.last (map snd units)\<rparr>"
    "complete = snd (video_nals ?nals video_default)"
    using video_feed_split [OF feed] nal_split_stream [OF assms(1,2)] empty assms(3) by simp_all
  have "(fst (video_nals ?nals video_default))\<lparr>vt_pending := []\<rparr> = fst (video_nals ?nals video_default)"
    using keep [of ?nals video_default] empty(1) by (metis video_track.surjective video_track.update_convs(1))
  then have handled: "video_nals ?nals video_default = (v\<lparr>vt_pending := []\<rparr>, complete)"
    by (simp add: v prod_eq_iff)
  have "list_all (\<lambda>n. n \<noteq> []) ?nals"
    using annexb_clean_nonempty [OF assms(2)] by (metis in_set_butlastD list_all_iff)
  then have "concat (map cu_data complete) @ vt_unit v = concat (map nal_prefixed ?nals)"
    using video_nals_units [of ?nals video_default] units0 unfolding v by simp
  moreover have "vt_pending v = [0, 0, 1] @ List.last (map snd units)" unfolding v by simp
  ultimately show ?thesis using feed handled by blast
qed

section \<open>Recovering the frames of packed audio\<close>

text \<open>An ADTS frame without a checksum, as an encoder writes it.\<close>

definition adts_frame :: "nat \<Rightarrow> nat \<Rightarrow> nat \<Rightarrow> u8 list \<Rightarrow> u8 list" where
  "adts_frame profile index channels payload =
     (let len = length payload + 7 in
      [0xFF, 0xF1, of_nat (profile * 64 + index * 4 + channels div 4),
       of_nat (channels mod 4 * 64 + len div 2048), of_nat (len div 8 mod 256),
       of_nat (len mod 8 * 32 + 31), 0xFC] @ payload)"

definition adts_config :: "nat \<Rightarrow> nat \<Rightarrow> nat \<Rightarrow> bool" where
  "adts_config profile index channels \<longleftrightarrow> profile < 4 \<and> index < 13 \<and> 0 < channels \<and> channels < 8"

lemma channel_bits:
  assumes "c < 8" shows "unat (or (push_bit 2 (of_nat (c div 4)) :: u8) (of_nat (c mod 4))) = c"
proof -
  from assms consider "c = 0" | "c = 1" | "c = 2" | "c = 3" | "c = 4" | "c = 5" | "c = 6" | "c = 7"
    by linarith
  then show ?thesis by cases simp_all
qed

lemma adts_frame_fields:
  fixes rest :: "u8 list"
  assumes "adts_config p i c" "length payload + 7 < 8192"
  defines "f \<equiv> adts_frame p i c payload @ rest"
  shows "unat (adts_profile f) = p" (is ?profile)
    "unat (adts_frequency f) = i" (is ?index)
    "unat (adts_channels f) = c" (is ?channels)
    "adts_header f = 7" "adts_length f = length payload + 7" "adts_sync (f ! 0) (f ! 1)"
proof -
  define n where "n = length payload + 7"
  let ?b = "p * 64 + i * 4 + c div 4"
  have b: "?b < 256" "c mod 4 * 64 + n div 2048 < 256" "n mod 8 * 32 + 31 < 256"
    using assms(1,2) by (auto simp: adts_config_def n_def)
  have f: "f ! 0 = 0xFF" "f ! 1 = 0xF1" "f ! 2 = of_nat ?b" "f ! 3 = of_nat (c mod 4 * 64 + n div 2048)"
    "f ! 4 = of_nat (n div 8 mod 256)" "f ! 5 = of_nat (n mod 8 * 32 + 31)"
    by (simp_all add: f_def adts_frame_def Let_def n_def del: of_nat_add of_nat_mult)
  note raw = of_nat_add of_nat_mult
  have n: "n < 8192" using assms(2) by (simp add: n_def)
  have "?b = c div 4 + 2 * (p * 32 + i * 2)" by simp
  then have "?b mod 2 = c div 4 mod 2" by (simp only: mod_mult_self2)
  moreover have "c div 4 < 2" using assms(1) by (auto simp: adts_config_def)
  ultimately have "?b div 64 = p" "?b div 4 = p * 16 + i" "?b mod 2 = c div 4"
    using assms(1) by (auto simp: adts_config_def)
  then show ?profile ?index
    using assms(1) b by (simp_all add: f adts_config_def adts_profile_def adts_frequency_def bit_field_simps del: raw)
  have "unat (and (f ! 2) 0x01) = c div 4" "unat (drop_bit 6 (f ! 3)) = c mod 4"
    using \<open>?b mod 2 = c div 4\<close> n b by (simp_all add: f bit_field_simps del: raw)
  then have "and (f ! 2) 0x01 = of_nat (c div 4)" "drop_bit 6 (f ! 3) = of_nat (c mod 4)"
    by (metis of_nat_unat ucast_id)+
  then show ?channels using channel_bits [of c] assms(1) by (simp only: adts_config_def adts_channels_def)
  show "adts_header f = 7" "adts_sync (f ! 0) (f ! 1)"
    by (simp_all add: adts_header_def adts_sync_def f [simplified])
  have "c mod 4 * 64 + n div 2048 = n div 2048 + 4 * (c mod 4 * 16)" by simp
  then have "(c mod 4 * 64 + n div 2048) mod 4 = n div 2048 mod 4" by (simp only: mod_mult_self2)
  then have "(c mod 4 * 64 + n div 2048) mod 4 = n div 2048" using n by simp
  moreover have "n div 8 mod 256 * 8 + n mod 8 < 2 ^ 11"
  proof -
    have "n div 8 mod 256 < 256" "n mod 8 < 8" by simp_all
    then show ?thesis by simp
  qed
  ultimately have "adts_length f = (n div 2048) * 2048 + ((n div 8 mod 256) * 8 + n mod 8)"
    using n b by (simp add: adts_length_def f bit_field_simps or_push_bit_add drop_bit_eq_div del: raw)
  then show "adts_length f = length payload + 7"
    unfolding n_def [symmetric]
    using div_mult_mod_eq [of "n div 8" 256] div_mult_mod_eq [of n 8] div_mult2_eq [of n 8 256, simplified] by linarith
qed

definition learn_adts :: "nat \<Rightarrow> nat \<Rightarrow> nat \<Rightarrow> audio_track \<Rightarrow> audio_track" where
  "learn_adts profile index channels a =
     (if at_sample_rate a = None
      then a\<lparr>at_sample_rate := Some (sample_rates ! index), at_frequency_index := of_nat index,
             at_object_type := of_nat profile + 1, at_channel_count := of_nat channels\<rparr>
      else a)"

definition adts_known :: "nat \<Rightarrow> audio_track \<Rightarrow> bool" where
  "adts_known index a \<longleftrightarrow> at_sample_rate a = None \<or> at_sample_rate a = Some (sample_rates ! index)"

lemma not_id3: "\<not> starts_with (as_bytes ''ID3'') (0xFF # xs)"
  by (simp add: starts_with_def as_bytes_def byte_def)

lemma adts_frame_head: "\<exists>xs. adts_frame p i c payload = 0xFF # xs" "length (adts_frame p i c payload) = length payload + 7"
  by (simp_all add: adts_frame_def Let_def)

lemma sample_rates_get: "i < 13 \<Longrightarrow> nth_get sample_rates i = Some (sample_rates ! i)"
  by (simp add: nth_get_def sample_rates_def)

lemma audio_loop_frame:
  assumes "adts_config p i c" "length payload + 7 < 8192" "adts_known i a"
    and pending: "at_pending a = adts_frame p i c payload @ rest"
  shows "audio_loop a frames =
           audio_loop ((learn_adts p i c a)\<lparr>at_pending := rest\<rparr>) (frames @ [payload])"
proof -
  define f where "f = adts_frame p i c payload @ rest"
  note fields = adts_frame_fields [OF assms(1,2), of rest, folded f_def]
  have words: "adts_profile f = of_nat p" "adts_frequency f = of_nat i" "adts_channels f = of_nat c"
    using fields(1-3) by (metis of_nat_unat ucast_id)+
  have id3: "\<not> starts_with (as_bytes ''ID3'') f" and len: "length payload + 7 \<le> length f"
    using adts_frame_head(1) [of p i c payload] not_id3 by (auto simp: f_def adts_frame_head(2))
  have i: "i < 13" and c8: "0 < c" "c < 8" using assms(1) by (auto simp: adts_config_def)
  then have "unat (of_nat c :: u8) = c" by (simp add: unat_byte)
  with c8 have c: "(of_nat c :: u8) \<noteq> 0" "ucast (of_nat c :: u8) = (of_nat c :: u16)"
    by (metis nless_le unsigned_0, metis of_nat_unat)
  have "drop (length (adts_frame p i c payload)) f = rest" by (simp add: f_def del: adts_frame_head(2))
  then have parts: "drop (length payload + 7) f = rest" "take (length payload) (drop 7 f) = payload"
    by (simp_all only: adts_frame_head(2)) (simp add: f_def adts_frame_def Let_def)
  have "at_pending a = f" using pending by (simp add: f_def)
  then show ?thesis
    unfolding audio_loop.simps [of a]
    using assms(3) len i c
    by (auto simp: Let_def fields(4,5) fields(6) [simplified] words id3 parts unat_byte sample_rates_get
        adts_known_def learn_adts_def)
qed

lemma audio_loop_partial:
  assumes "adts_config p i c" "length payload + 7 < 8192"
    and pending: "at_pending a = take m (adts_frame p i c payload)" "m < length payload + 7"
  shows "audio_loop a frames = Inr (a, frames)"
proof -
  define f where "f = adts_frame p i c payload"
  note fields = adts_frame_fields [OF assms(1,2), of "[]", simplified, folded f_def]
  define q where "q = take m f"
  have len: "length q = m" using pending(2) by (simp add: q_def f_def adts_frame_head)
  have id3: "\<not> starts_with (as_bytes ''ID3'') q"
    using adts_frame_head(1) [of p i c payload] not_id3
    by (cases m) (auto simp: q_def f_def starts_with_def as_bytes_def)
  have "7 \<le> m \<Longrightarrow> q ! j = f ! j" if "j < 7" for j
    using that by (simp add: q_def)
  then have "adts_header q = 7 \<and> adts_length q = length payload + 7 \<and> adts_sync (q ! 0) (q ! 1)"
    if "7 \<le> m"
    using that fields(4-6) by (simp add: adts_header_def adts_length_def adts_sync_def)
  moreover have "at_pending a = q" using pending(1) by (simp add: q_def f_def)
  ultimately show ?thesis
    unfolding audio_loop.simps [of a] using id3 len pending(2) by (auto simp: Let_def)
qed

definition adts_stream :: "nat \<Rightarrow> nat \<Rightarrow> nat \<Rightarrow> u8 list list \<Rightarrow> u8 list" where
  "adts_stream p i c payloads = concat (map (adts_frame p i c) payloads)"

lemma adts_stream_prefix:
  "adts_stream p i c payloads = q @ r \<Longrightarrow>
   \<exists>fs gs t. payloads = fs @ gs \<and> q = adts_stream p i c fs @ t \<and> t @ r = adts_stream p i c gs \<and>
     (gs = [] \<and> t = [] \<or> (\<exists>g gs' m. gs = g # gs' \<and> t = take m (adts_frame p i c g) \<and> m < length g + 7))"
proof (induction payloads arbitrary: q)
  case Nil
  then show ?case by (simp add: adts_stream_def)
next
  case (Cons f fs)
  define e where "e = adts_frame p i c f"
  have le: "length e = length f + 7" by (simp add: e_def adts_frame_head)
  have eq: "e @ adts_stream p i c fs = q @ r" using Cons.prems by (simp add: adts_stream_def e_def)
  show ?case
  proof (cases "length q < length e")
    case True
    then have "q = take (length q) e"
      using eq by (metis append_eq_append_conv_if append_take_drop_id less_imp_le_nat order_less_irrefl)
    then show ?thesis using Cons.prems True le
      by (intro exI [of _ "[]"] exI [of _ "f # fs"] exI [of _ q]) (auto simp: adts_stream_def e_def)
  next
    case False
    then obtain q' where q: "q = e @ q'" "adts_stream p i c fs = q' @ r"
      using eq by (auto simp: append_eq_append_conv_if) (metis append_take_drop_id)
    from Cons.IH [OF q(2)] obtain fs' gs t where
      "fs = fs' @ gs" "q' = adts_stream p i c fs' @ t" "t @ r = adts_stream p i c gs"
      "gs = [] \<and> t = [] \<or> (\<exists>g gs' m. gs = g # gs' \<and> t = take m (adts_frame p i c g) \<and> m < length g + 7)"
      by blast
    then show ?thesis
      by (intro exI [of _ "f # fs'"] exI [of _ gs] exI [of _ t]) (simp add: q(1) e_def adts_stream_def)
  qed
qed

lemma adts_known_learn:
  "adts_known i a \<Longrightarrow> adts_known i (learn_adts p i c a)" "adts_known i (a\<lparr>at_pending := q\<rparr>) = adts_known i a"
  by (auto simp: adts_known_def learn_adts_def)

lemma learn_adts_pending:
  "learn_adts p i c (a\<lparr>at_pending := q\<rparr>) = (learn_adts p i c a)\<lparr>at_pending := q\<rparr>"
  "learn_adts p i c (learn_adts p i c a) = learn_adts p i c a"
  by (simp_all add: learn_adts_def)

definition learn_some :: "nat \<Rightarrow> nat \<Rightarrow> nat \<Rightarrow> u8 list list \<Rightarrow> audio_track \<Rightarrow> audio_track" where
  "learn_some p i c payloads a = (if payloads = [] then a else learn_adts p i c a)"

lemma learn_some_simps [simp]:
  "learn_some p i c [] a = a" "learn_some p i c (f # fs) a = learn_adts p i c a"
  "learn_some p i c gs (learn_adts p i c a) = learn_adts p i c a"
  "learn_some p i c gs (a\<lparr>at_pending := q\<rparr>) = (learn_some p i c gs a)\<lparr>at_pending := q\<rparr>"
  "adts_known i a \<Longrightarrow> adts_known i (learn_some p i c fs a)"
  by (auto simp: learn_some_def learn_adts_pending adts_known_def learn_adts_def)

lemma learn_some_append: "learn_some p i c (fs @ gs) a = learn_some p i c gs (learn_some p i c fs a)"
  by (cases fs) simp_all

definition adts_fits :: "u8 list \<Rightarrow> bool" where
  "adts_fits payload \<longleftrightarrow> length payload + 7 < 8192"

lemma audio_loop_stream:
  assumes "adts_config p i c" "list_all adts_fits fs" "adts_known i a"
    and "at_pending a = adts_stream p i c fs @ t"
    and "t = [] \<or> (\<exists>g m. adts_fits g \<and> t = take m (adts_frame p i c g) \<and> m < length g + 7)"
  shows "audio_loop a frames = Inr ((learn_some p i c fs a)\<lparr>at_pending := t\<rparr>, frames @ fs)"
  using assms(2-4)
proof (induction fs arbitrary: a frames)
  case Nil
  obtain g m where "adts_fits g" "t = take m (adts_frame p i c g)" "m < length g + 7"
  proof (cases "t = []")
    case True
    then show ?thesis using that [of "[]" 0] by (simp add: adts_fits_def)
  qed (use assms(5) that in blast)
  then show ?case
    using Nil audio_loop_partial [OF assms(1), of g a m] by (simp add: adts_stream_def adts_fits_def)
next
  case (Cons f fs)
  have "audio_loop a frames =
          audio_loop ((learn_adts p i c a)\<lparr>at_pending := adts_stream p i c fs @ t\<rparr>) (frames @ [f])"
    using Cons.prems by (intro audio_loop_frame [OF assms(1)]) (simp_all add: adts_fits_def adts_stream_def)
  also have "\<dots> = Inr ((learn_some p i c (f # fs) a)\<lparr>at_pending := t\<rparr>, (frames @ [f]) @ fs)"
    using Cons.prems by (subst Cons.IH) (simp_all add: adts_known_learn)
  finally show ?case by simp
qed

fun aac_samples :: "u64 \<Rightarrow> u8 list list \<Rightarrow> elementary_sample list" where
  "aac_samples at [] = []"
| "aac_samples at (f # fs) =
     aac_sample at (of_nat (length f)) # aac_samples (saturating_add at (of_nat (length f))) fs"

definition adts_written :: "u8 list list \<Rightarrow> adts_state \<Rightarrow> adts_state" where
  "adts_written fs s =
     s\<lparr>ad_output := (ad_output s)\<lparr>snk_bytes := snk_bytes (ad_output s) @ concat fs\<rparr>,
       ad_samples := ad_samples s @ aac_samples (ad_written s) fs,
       ad_written := fold (\<lambda>f w. saturating_add w (of_nat (length f))) fs (ad_written s)\<rparr>"

definition never_fails :: "sink \<Rightarrow> bool" where
  "never_fails out \<longleftrightarrow> snk_error out = (\<lambda>_. None) \<and> snk_flush out = None"

lemma never_fails_simps [simp]:
  "never_fails out \<Longrightarrow> write_all data out = Inr (out\<lparr>snk_bytes := snk_bytes out @ data\<rparr>)"
  "never_fails out \<Longrightarrow> flush_sink out = Inr ()"
  "never_fails (out\<lparr>snk_bytes := bs\<rparr>) = never_fails out"
  by (simp_all add: never_fails_def write_all_def flush_sink_def)

lemma try_len_fits: "adts_fits f \<Longrightarrow> (try_len f :: u32 option) = Some (of_nat (length f))"
  by (simp add: try_len_def adts_fits_def)

lemma ucast_len_fits: "adts_fits f \<Longrightarrow> ucast (of_nat (length f) :: u32) = (of_nat (length f) :: u64)"
proof -
  assume "adts_fits f"
  then have "unat (of_nat (length f) :: u32) = length f"
    by (simp add: unsigned_of_nat take_bit_nat_eq_self adts_fits_def)
  then show ?thesis by (metis of_nat_unat)
qed

lemma write_adts_frames_ok:
  "never_fails (ad_output s) \<Longrightarrow> list_all adts_fits fs \<Longrightarrow>
     write_adts_frames fs s = Inr (adts_written fs s)"
proof (induction fs arbitrary: s)
  case (Cons f fs)
  then show ?case
    by (simp add: write_adts_frames_def write_adts_frame_def adts_written_def try_len_fits
        ucast_len_fits)
qed (simp add: write_adts_frames_def adts_written_def)

lemma adts_written_simps:
  "adts_written (fs @ gs) s = adts_written gs (adts_written fs s)"
  "adts_written fs (s\<lparr>ad_audio := a\<rparr>) = (adts_written fs s)\<lparr>ad_audio := a\<rparr>"
  "ad_audio (adts_written fs s) = ad_audio s"
  "never_fails (ad_output (adts_written fs s)) = never_fails (ad_output s)"
proof -
  have "aac_samples w (fs @ gs) =
          aac_samples w fs @ aac_samples (fold (\<lambda>f w. saturating_add w (of_nat (length f))) fs w) gs" for w
    by (induction fs arbitrary: w) simp_all
  then show "adts_written (fs @ gs) s = adts_written gs (adts_written fs s)"
    by (simp add: adts_written_def)
qed (simp_all add: adts_written_def)

lemma adts_loop_stream:
  assumes "adts_config p i c" "list_all (\<lambda>piece. piece \<noteq> []) pieces"
    and "list_all adts_fits gs" "adts_known i (ad_audio s)" "never_fails (ad_output s)"
    and "at_pending (ad_audio s) @ concat pieces = adts_stream p i c gs"
    and "gs = [] \<and> at_pending (ad_audio s) = [] \<or>
      (\<exists>g gs' m. gs = g # gs' \<and> at_pending (ad_audio s) = take m (adts_frame p i c g) \<and> m < length g + 7)"
  shows "adts_loop (map Inr pieces) s =
    Inr ((adts_written gs s)\<lparr>ad_audio := (learn_some p i c gs (ad_audio s))\<lparr>at_pending := []\<rparr>\<rparr>)"
  using assms(2-)
proof (induction pieces arbitrary: gs s)
  case Nil
  have "gs = []"
  proof (rule ccontr)
    assume "gs \<noteq> []"
    then obtain g gs' m where "gs = g # gs'" "at_pending (ad_audio s) = take m (adts_frame p i c g)"
      "m < length g + 7" using Nil.prems(6) by blast
    moreover from this have "length (take m (adts_frame p i c g)) = length (adts_stream p i c (g # gs'))"
      using Nil.prems(5) by simp
    ultimately show False by (simp add: adts_stream_def adts_frame_head(2))
  qed
  then show ?case using Nil by (simp add: adts_written_def)
next
  case (Cons piece pieces)
  let ?a = "ad_audio s"
  from Cons.prems(5) have "adts_stream p i c gs = (at_pending ?a @ piece) @ concat pieces" by simp
  from adts_stream_prefix [OF this] obtain fs gs2 t where
    gs: "gs = fs @ gs2" and q: "at_pending ?a @ piece = adts_stream p i c fs @ t"
    and r: "t @ concat pieces = adts_stream p i c gs2"
    and t: "gs2 = [] \<and> t = [] \<or>
      (\<exists>g gs' m. gs2 = g # gs' \<and> t = take m (adts_frame p i c g) \<and> m < length g + 7)" by blast
  have fits: "list_all adts_fits fs" "list_all adts_fits gs2" using Cons.prems(2) by (simp_all add: gs)
  let ?a' = "(learn_some p i c fs ?a)\<lparr>at_pending := t\<rparr>"
  have small: "length t < 8192"
    using t fits(2) by (auto simp: adts_fits_def adts_frame_head(2))
  have loop: "audio_loop (?a\<lparr>at_pending := at_pending ?a @ piece\<rparr>) [] = Inr (?a', fs)"
  proof -
    have "t = [] \<or> (\<exists>g m. adts_fits g \<and> t = take m (adts_frame p i c g) \<and> m < length g + 7)"
      using t fits(2) by auto
    from audio_loop_stream [OF assms(1) fits(1) _ _ this, of "?a\<lparr>at_pending := at_pending ?a @ piece\<rparr>"]
    show ?thesis using Cons.prems(3) q by (simp add: adts_known_learn)
  qed
  have push: "audio_push piece ?a = Inr (?a', fs)"
    using small by (simp add: audio_push_def loop max_pending_def)
  let ?s = "(adts_written fs s)\<lparr>ad_audio := ?a'\<rparr>"
  have "adts_loop (map Inr (piece # pieces)) s = adts_loop (map Inr pieces) ?s"
    using Cons.prems(1,4) fits(1)
    by (simp add: push write_adts_frames_ok adts_written_simps)
  also have "\<dots> = Inr ((adts_written gs2 ?s)\<lparr>ad_audio := (learn_some p i c gs2 ?a')\<lparr>at_pending := []\<rparr>\<rparr>)"
    using Cons.prems(1,3,4) fits(2) r t
    using Cons.IH [of gs2 ?s] by (simp add: adts_known_learn adts_written_simps)
  finally show ?case by (simp add: gs adts_written_simps learn_some_append)
qed

section \<open>Samples and the file that holds them\<close>

definition held_bytes :: "u8 list \<Rightarrow> elementary_sample \<Rightarrow> u8 list" where
  "held_bytes file s = take (unat (es_size s)) (drop (unat (es_offset s)) file)"

lemma unat_total_duration:
  "unat (total_duration ss) = min (\<Sum>s\<leftarrow>ss. unat (es_duration s)) (2 ^ 64 - 1)"
proof -
  have wide: "unat (ucast d :: u64) = unat d" for d :: u32
    by (simp add: unsigned_ucast_eq take_bit_nat_eq_self order_less_trans [OF unat_less])
  have "unat (fold (\<lambda>s acc. saturating_add acc (ucast (es_duration s))) ss w) =
          min (unat w + (\<Sum>s\<leftarrow>ss. unat (es_duration s))) (2 ^ 64 - 1)" for w :: u64
  proof (induction ss arbitrary: w)
    case Nil
    show ?case using unat_less [of w] by simp
  qed (simp add: unat_saturating_add wide min_def)
  from this [of 0] show ?thesis by (simp add: total_duration_def)
qed

lemma aac_samples_bytes:
  assumes "list_all adts_fits fs" "file = before @ concat fs @ after" "length file < 2 ^ 64"
    and "unat w = length before"
  shows "map (held_bytes file) (aac_samples w fs) = fs"
  using assms
proof (induction fs arbitrary: before w)
  case (Cons f fs)
  have size: "unat (of_nat (length f) :: u32) = length f" "unat (of_nat (length f) :: u64) = length f"
    using Cons.prems(1) by (simp_all add: unsigned_of_nat take_bit_nat_eq_self adts_fits_def)
  have w: "unat (saturating_add w (of_nat (length f))) = length (before @ f)"
    using Cons.prems(2-4) size by (simp add: unat_saturating_add)
  have "map (held_bytes file) (aac_samples (saturating_add w (of_nat (length f))) fs) = fs"
    using Cons.prems w by (intro Cons.IH [of "before @ f"]) simp_all
  moreover have "held_bytes file (aac_sample w (of_nat (length f))) = f"
    using Cons.prems(2,4) size by (simp add: held_bytes_def aac_sample_def)
  ultimately show ?case by simp
qed simp

lemma aac_samples_all: "list_all (\<lambda>s. es_duration s = 1024 \<and> es_sync s \<and> es_composition s = 0) (aac_samples w fs)"
  by (induction fs arbitrary: w) (simp_all add: aac_sample_def aac_frame_samples_def)

lemma aac_samples_duration: "(\<Sum>s\<leftarrow>aac_samples w fs. unat (es_duration s)) = 1024 * length fs"
  by (induction fs arbitrary: w) (simp_all add: aac_sample_def aac_frame_samples_def)

lemma aac_samples_empty: "aac_samples w fs = [] \<longleftrightarrow> fs = []"
  by (cases fs) simp_all

lemma byte_to_word: "n < 256 \<Longrightarrow> ucast (of_nat n :: u8) = (of_nat n :: u16)"
  by (metis of_nat_unat unat_byte)

text \<open>
  C25.  A packed-audio file of ADTS frames is read back exactly, whatever the pieces its reads return:
  the output file is the payloads one after the other, each sample delimits its payload in that file
  and lasts 1024 ticks of the sample rate, and the codec configuration is the one the headers carry.
\<close>

theorem packed_audio_roundtrip:
  assumes "adts_config p i c" "payloads \<noteq> []" "list_all adts_fits payloads"
    and "length (concat payloads) < 2 ^ 64" "never_fails out"
    and "list_all (\<lambda>piece. piece \<noteq> []) pieces" "concat pieces = adts_stream p i c payloads"
  shows "\<exists>track file. demux_adts (Inr (map Inr pieces)) (Inr out) = Inr (track, file) \<and>
    snk_bytes file = concat payloads \<and>
    map (held_bytes (snk_bytes file)) (et_samples track) = payloads \<and>
    list_all (\<lambda>s. es_duration s = 1024 \<and> es_sync s \<and> es_composition s = 0) (et_samples track) \<and>
    unat (et_duration track) = min (1024 * length payloads) (2 ^ 64 - 1) \<and>
    et_timescale track = sample_rates ! i \<and>
    et_codec track = CodecAac (or (push_bit 11 (of_nat (p + 1))) (or (push_bit 7 (of_nat i))
      (push_bit 3 (of_nat c)))) (of_nat c) (sample_rates ! i)"
proof -
  let ?s = "\<lparr>ad_output = out\<lparr>snk_bytes := []\<rparr>, ad_audio = audio_default, ad_samples = [], ad_written = 0\<rparr>"
  let ?after = "(adts_written payloads ?s)\<lparr>ad_audio := (learn_some p i c payloads audio_default)\<lparr>at_pending := []\<rparr>\<rparr>"
  have "\<exists>g gs' m. payloads = g # gs' \<and> [] = take m (adts_frame p i c g) \<and> m < length g + 7"
    using assms(2)
    by (intro exI [of _ "hd payloads"] exI [of _ "tl payloads"] exI [of _ 0]) simp
  then have loop: "adts_loop (map Inr pieces) ?s = Inr ?after"
    using adts_loop_stream [OF assms(1,6,3), of ?s] assms(5,7)
    by (simp add: audio_default_def adts_known_def)
  have flush: "audio_flush (a\<lparr>at_pending := []\<rparr>) = (a\<lparr>at_pending := []\<rparr>, [])" for a
    by (simp add: audio_flush_def)
  have "p + 1 < 256" "i < 256" using assms(1) by (auto simp: adts_config_def)
  then have words: "ucast (of_nat p + 1 :: u8) = (of_nat (p + 1) :: u16)"
    "ucast (of_nat i :: u8) = (of_nat i :: u16)"
    using byte_to_word [of "p + 1"] byte_to_word [of i] by (simp_all add: add.commute)
  have known: "learn_some p i c payloads audio_default = learn_adts p i c audio_default"
    using assms(2) by (simp add: learn_some_def)
  define samples where "samples = aac_samples 0 payloads"
  have run: "demux_adts (Inr (map Inr pieces)) (Inr out) =
      rmap (\<lambda>track. (track, out\<lparr>snk_bytes := concat payloads\<rparr>))
        (audio_into_track ((learn_adts p i c audio_default)\<lparr>at_pending := [], at_samples := samples\<rparr>))"
    using assms(5)
    by (simp add: demux_adts_def loop flush write_adts_frames_def known adts_written_def samples_def)
  have "samples \<noteq> []" using assms(2) by (simp add: samples_def aac_samples_empty)
  then have "demux_adts (Inr (map Inr pieces)) (Inr out) =
      Inr (\<lparr>et_codec = CodecAac (or (push_bit 11 (of_nat (p + 1))) (or (push_bit 7 (of_nat i))
              (push_bit 3 (of_nat c)))) (of_nat c) (sample_rates ! i),
            et_timescale = sample_rates ! i, et_samples = samples, et_duration = total_duration samples\<rparr>,
           out\<lparr>snk_bytes := concat payloads\<rparr>)"
    by (simp add: run learn_adts_def audio_default_def audio_into_track_def words Let_def)
  moreover have "map (held_bytes (concat payloads)) samples = payloads"
    unfolding samples_def using assms(3,4) by (intro aac_samples_bytes [of _ _ "[]" "[]"]) simp_all
  ultimately show ?thesis
    using aac_samples_all [of 0 payloads] aac_samples_duration [of 0 payloads]
    by (simp add: samples_def unat_total_duration)
qed

section \<open>The samples of a demultiplexed track tile its file\<close>

fun tiles :: "nat \<Rightarrow> elementary_sample list \<Rightarrow> nat \<Rightarrow> bool" where
  "tiles start [] stop \<longleftrightarrow> start = stop"
| "tiles start (s # ss) stop \<longleftrightarrow>
     unat (es_offset s) = start \<and> tiles (start + unat (es_size s)) ss stop"

lemma tiles_append: "tiles a (xs @ ys) c \<longleftrightarrow> (\<exists>b. tiles a xs b \<and> tiles b ys c)"
  by (induction xs arbitrary: a) auto

lemma tiles_le: "tiles a ss b \<Longrightarrow> a \<le> b"
  by (induction ss arbitrary: a) (auto, fastforce)

lemma tiles_concat:
  "tiles a ss (length file) \<Longrightarrow> concat (map (held_bytes file) ss) = drop a file"
proof (induction ss arbitrary: a)
  case (Cons s ss)
  then have "concat (map (held_bytes file) ss) = drop (a + unat (es_size s)) file" by simp
  moreover have tile: "held_bytes file s = take (unat (es_size s)) (drop (unat (es_offset s)) file)"
    by (simp add: held_bytes_def)
  ultimately show ?case
    using Cons.prems append_take_drop_id [of "unat (es_size s)" "drop a file"]
    by (subst (asm) drop_drop) (simp add: tile add.commute)
qed simp

lemma tiles_durations: "tiles a (fill_durations prev ss dts) b \<longleftrightarrow> tiles a ss b"
  by (induction prev ss dts arbitrary: a rule: fill_durations.induct) (simp_all add: Let_def)

lemma fill_durations_bounds:
  "0 < prev \<Longrightarrow> prev \<le> 90000 \<Longrightarrow>
   list_all (\<lambda>s. 0 < es_duration s \<and> es_duration s \<le> 90000) (fill_durations prev ss dts)"
proof (induction prev ss dts rule: fill_durations.induct)
  case (2 previous s samples decode_times)
  have narrow: "0 < (ucast w :: u32) \<and> (ucast w :: u32) \<le> 90000" if "0 < w" "w \<le> 90000" for w :: u64
  proof -
    have "unat (ucast w :: u32) = unat w"
      using that by (simp add: unsigned_ucast_eq word_le_nat_alt take_bit_nat_eq_self)
    then show ?thesis using that by (simp add: word_less_nat_alt word_le_nat_alt)
  qed
  show ?case
    using 2 narrow
    by (simp add: Let_def max_frame_duration_def video_timescale_def split: list.splits)
qed simp

definition video_samples :: "demuxer \<Rightarrow> elementary_sample list" where
  "video_samples d = (case dm_video d of None \<Rightarrow> [] | Some v \<Rightarrow> vt_samples v)"

definition audio_samples :: "demuxer \<Rightarrow> elementary_sample list" where
  "audio_samples d = (case dm_audio d of None \<Rightarrow> [] | Some a \<Rightarrow> at_samples a)"

text \<open>
  What the demultiplexer keeps true: while only one of the two tracks has samples, they follow one
  another in the file without gap or overlap; audio samples last one AAC frame.
\<close>

definition tiled :: "demuxer \<Rightarrow> bool" where
  "tiled d \<longleftrightarrow>
     list_all (\<lambda>s. es_duration s = aac_frame_samples) (audio_samples d) \<and>
     (length (snk_bytes (dm_output d)) < 2 ^ 64 \<longrightarrow>
        unat (dm_written d) = length (snk_bytes (dm_output d)) \<and>
        (audio_samples d = [] \<longrightarrow> tiles 0 (video_samples d) (length (snk_bytes (dm_output d)))) \<and>
        (video_samples d = [] \<longrightarrow> tiles 0 (audio_samples d) (length (snk_bytes (dm_output d)))))"

definition same_samples :: "demuxer \<Rightarrow> demuxer \<Rightarrow> bool" where
  "same_samples d d' \<longleftrightarrow>
     dm_output d' = dm_output d \<and> dm_written d' = dm_written d \<and>
     video_samples d' = video_samples d \<and> audio_samples d' = audio_samples d"

lemma tiled_same: "same_samples d d' \<Longrightarrow> tiled d \<Longrightarrow> tiled d'"
  by (simp add: same_samples_def tiled_def)

lemma write_all_Inr: "write_all data out = Inr out' \<Longrightarrow> snk_bytes out' = snk_bytes out @ data"
  by (auto simp: write_all_def split: option.splits)

lemma try_len_Some: "try_len xs = Some w \<Longrightarrow> unat (w :: u32) = length xs"
  by (auto simp: try_len_def unsigned_of_nat take_bit_nat_eq_self split: if_splits)

lemma written_after:
  assumes "unat w = n" "n + unat len < 2 ^ 64"
  shows "unat (saturating_add w (ucast (len :: u32)) :: u64) = n + unat len"
proof -
  have "unat (ucast len :: u64) = unat len"
    by (simp add: unsigned_ucast_eq take_bit_nat_eq_self order_less_trans [OF unat_less])
  then show ?thesis using assms by (simp add: unat_saturating_add)
qed

lemma write_video_tiled:
  assumes "write_video u d = Inr d'" "tiled d"
  shows "tiled d'"
proof -
  obtain v len out dts where v: "dm_video d = Some v" and len: "try_len (cu_data u) = Some len"
    and out: "write_all (cu_data u) (dm_output d) = Inr out"
    and d': "dm_output d' = out" "dm_written d' = saturating_add (dm_written d) (ucast len)"
      "audio_samples d' = audio_samples d"
      "video_samples d' = video_samples d @ [\<lparr>es_offset = dm_written d, es_size = len, es_duration = 0,
          es_composition = composition_of (unwrap_or dts (cu_pts u)) dts, es_sync = cu_sync u\<rparr>]"
    using assms(1)
    by (auto simp: write_video_def result_simps video_samples_def audio_samples_def Let_def)
  show ?thesis
    using assms(2) written_after [of "dm_written d" _ len] try_len_Some [OF len] write_all_Inr [OF out]
    by (auto simp: tiled_def d' tiles_append)
qed

lemma write_audio_tiled:
  assumes "write_audio frame d = Inr d'" "tiled d"
  shows "tiled d'"
proof -
  obtain a len out where a: "dm_audio d = Some a" and len: "try_len frame = Some len"
    and out: "write_all frame (dm_output d) = Inr out"
    and d': "dm_output d' = out" "dm_written d' = saturating_add (dm_written d) (ucast len)"
      "video_samples d' = video_samples d"
      "audio_samples d' = audio_samples d @ [aac_sample (dm_written d) len]"
    using assms(1)
    by (auto simp: write_audio_def result_simps video_samples_def audio_samples_def Let_def)
  show ?thesis
    using assms(2) written_after [of "dm_written d" _ len] try_len_Some [OF len] write_all_Inr [OF out]
    by (auto simp: tiled_def d' tiles_append aac_sample_def)
qed
lemma each_preserves:
  assumes "\<And>x s s'. f x s = Inr s' \<Longrightarrow> P s \<Longrightarrow> P s'"
  shows "each f xs s = Inr s' \<Longrightarrow> P s \<Longrightarrow> P s'"
  by (erule each_invariant) (auto dest: assms)

lemma video_nal_samples [simp]: "vt_samples (fst (video_nal nal v)) = vt_samples v"
  by (cases nal) (simp_all add: video_nal_def video_flush_def Let_def)

lemma video_nals_samples [simp]: "vt_samples (fst (video_nals nals v)) = vt_samples v"
  by (induction nals arbitrary: v) (simp_all add: Let_def)

lemma video_push_samples: "video_push payload v = Inr (v', units) \<Longrightarrow> vt_samples v' = vt_samples v"
  by (auto simp: video_push_def video_loop_split video_nals_on_pending Let_def split: if_splits)

lemma audio_loop_keeps:
  "case audio_loop a frames of Inl _ \<Rightarrow> True | Inr (a', _) \<Rightarrow> at_samples a' = at_samples a"
proof (induction a frames rule: audio_loop.induct)
  case (1 a frames)
  show ?case
    unfolding audio_loop.simps [of a]
    using 1(1,2) [OF refl] 1(3) [OF refl _ _ _ _ refl refl refl _ _ _ _ _ refl]
    by (cases "at_sample_rate a") (simp_all add: Let_def split: option.splits cong: sum.case_cong)
qed

lemma audio_loop_samples: "audio_loop a frames = Inr (a', frames') \<Longrightarrow> at_samples a' = at_samples a"
  using audio_loop_keeps [of a frames] by simp

lemma audio_push_samples: "audio_push payload a = Inr (a', frames) \<Longrightarrow> at_samples a' = at_samples a"
  by (auto simp: audio_push_def result_simps dest!: audio_loop_samples split: if_splits)

lemma video_payload_tiled:
  assumes "video_payload start payload d = Inr d'" "tiled d"
  shows "tiled d'"
proof -
  define w where "w = unwrap_or video_default (dm_video d)"
  obtain began v v' units where
    first: "(if start then rmap (\<lambda>(header, pts, dts). (header, timed pts dts w)) (read_pes_header payload)
             else Inr (0, w)) = Inr (began, v)"
    and push: "video_push (drop began payload) v = Inr (v', units)"
    and each: "each write_video units (d\<lparr>dm_video := Some v'\<rparr>) = Inr d'"
    using assms(1) unfolding video_payload_def w_def [symmetric] by (auto simp: result_simps)
  have "vt_samples v = vt_samples w"
    using first by (auto simp: timed_def result_simps split: if_splits)
  then have v: "vt_samples v = video_samples d"
    by (simp add: w_def video_samples_def video_default_def unwrap_or_def split: option.splits)
  have "same_samples d (d\<lparr>dm_video := Some v'\<rparr>)"
    using v video_push_samples [OF push]
    by (simp add: same_samples_def video_samples_def audio_samples_def)
  then show ?thesis
    using each_preserves [of write_video tiled] write_video_tiled each tiled_same [OF _ assms(2)] by blast
qed

lemma audio_payload_tiled:
  assumes "audio_payload start payload d = Inr d'" "tiled d"
  shows "tiled d'"
proof -
  obtain began a' frames where push: "audio_push (drop began payload) (unwrap_or audio_default (dm_audio d)) = Inr (a', frames)"
    and each: "each write_audio frames (d\<lparr>dm_audio := Some a'\<rparr>) = Inr d'"
    using assms(1) by (auto simp: audio_payload_def result_simps)
  have "same_samples d (d\<lparr>dm_audio := Some a'\<rparr>)"
    using audio_push_samples [OF push]
    by (auto simp: same_samples_def video_samples_def audio_samples_def audio_default_def unwrap_or_def
        split: option.splits)
  then show ?thesis
    using each_preserves [of write_audio tiled] write_audio_tiled each tiled_same [OF _ assms(2)] by blast
qed

lemma same_samples_update [simp]:
  "same_samples d (d\<lparr>dm_pat := s\<rparr>)" "same_samples d (d\<lparr>dm_pmt := s\<rparr>)"
  "same_samples d (d\<lparr>dm_pat := s, dm_pmt_pid := p\<rparr>)"
  "same_samples d (d\<lparr>dm_pmt_pid := p, dm_pat := s\<rparr>)"
  by (simp_all add: same_samples_def video_samples_def audio_samples_def)

lemma streams_loop_same: "same_samples e d \<Longrightarrow> same_samples e (streams_loop entries d)"
proof (induction entries d rule: streams_loop.induct)
  case (1 entries d)
  have "same_samples e (declare_stream t pid d)" for t pid
    using 1(2) by (simp add: declare_stream_def same_samples_def video_samples_def audio_samples_def)
  with 1 show ?case by (subst streams_loop.simps) simp
qed

lemma maps_loop_same: "same_samples e d \<Longrightarrow> same_samples e (maps_loop sections d)"
  by (induction sections d rule: maps_loop.induct) (simp_all add: streams_loop_same)

lemma programs_tiled: "programs start payload d = Inr d' \<Longrightarrow> tiled d \<Longrightarrow> tiled d'"
  by (auto simp: programs_def result_simps split: option.splits intro!: tiled_same [of d])

lemma program_map_tiled: "program_map start payload d = Inr d' \<Longrightarrow> tiled d \<Longrightarrow> tiled d'"
  by (auto simp: program_map_def result_simps intro!: tiled_same [of d] maps_loop_same)

lemma demux_packet_tiled:
  assumes "demux_packet packet d = Inr d'" "tiled d"
  shows "tiled d'"
proof -
  have "tiled e" if "route_payload pid start payload d = Inr e" for pid start payload e
    using that assms(2) video_payload_tiled audio_payload_tiled programs_tiled program_map_tiled
    by (auto simp: route_payload_def split: if_splits)
  then show ?thesis
    using assms by (auto simp: demux_packet_def Let_def split: if_splits)
qed

lemma demux_loop_tiled:
  "demux_loop rest e started d = Inr (started', d') \<Longrightarrow> tiled d \<Longrightarrow> tiled d'"
proof (induction rest e started d rule: demux_loop.induct)
  case (1 rest e started d)
  from 1(2) [unfolded demux_loop.simps [of rest]] 1(3) show ?case
    by (auto simp: Let_def result_simps split: if_splits option.splits
        dest: demux_packet_tiled 1(1) [OF _ refl])
qed

lemma demux_finish_tiled:
  assumes "demux_finish d = Inr (track, file)" "tiled d" "length (snk_bytes file) < 2 ^ 64"
  shows "tiles 0 (et_samples track) (length (snk_bytes file)) \<and> et_samples track \<noteq> [] \<and>
    list_all (\<lambda>s. 0 < es_duration s \<and> es_duration s \<le> 90000) (et_samples track) \<and>
    et_duration track = total_duration (et_samples track)"
proof -
  define vf where "vf = (case dm_video d of None \<Rightarrow> (None, []) | Some v \<Rightarrow> map_prod Some id (video_flush v))"
  define af where "af = (case dm_audio d of None \<Rightarrow> (None, []) | Some a \<Rightarrow> map_prod Some id (audio_flush a))"
  let ?d = "d\<lparr>dm_video := fst vf, dm_audio := fst af\<rparr>"
  obtain d1 d2 where video: "each write_video (snd vf) ?d = Inr d1"
    and audio: "each write_audio (snd af) d1 = Inr d2" and written: "file = dm_output d2"
    and track: "(case (dm_video d2, dm_audio d2) of
       (Some v, None) \<Rightarrow> video_into_track v | (None, Some a) \<Rightarrow> audio_into_track a
     | (Some _, Some _) \<Rightarrow> Inl (MuxUnsupported ''the transport stream already carries both tracks'')
     | (None, None) \<Rightarrow> Inl (missing_track d2)) = Inr track"
    using assms(1) unfolding demux_finish_def vf_def [symmetric] af_def [symmetric]
    by (auto simp: result_simps split: prod.splits)
  have "same_samples d ?d"
    by (auto simp: same_samples_def video_samples_def audio_samples_def vf_def af_def video_flush_def
        audio_flush_def Let_def split: option.splits)
  then have "tiled d2"
    using tiled_same [OF _ assms(2)] video audio each_preserves [of write_video tiled]
      each_preserves [of write_audio tiled] write_video_tiled write_audio_tiled by blast
  then have d2: "audio_samples d2 = [] \<Longrightarrow> tiles 0 (video_samples d2) (length (snk_bytes file))"
    "video_samples d2 = [] \<Longrightarrow> tiles 0 (audio_samples d2) (length (snk_bytes file))"
    "list_all (\<lambda>s. es_duration s = aac_frame_samples) (audio_samples d2)"
    using assms(3) by (simp_all add: tiled_def written)
  consider v where "dm_video d2 = Some v" "dm_audio d2 = None" "video_into_track v = Inr track"
    | a where "dm_video d2 = None" "dm_audio d2 = Some a" "audio_into_track a = Inr track"
    using track by (auto split: option.splits)
  then show ?thesis
  proof cases
    case 1
    have "vt_samples v \<noteq> []" and
      t: "et_samples track = fill_durations default_frame_duration (vt_samples v) (vt_decode_times v)"
      "et_duration track = total_duration (et_samples track)"
      using 1(3) by (auto simp: video_into_track_def result_simps Let_def split: if_splits)
    moreover have "tiles 0 (vt_samples v) (length (snk_bytes file))"
      using d2(1) 1 by (simp add: video_samples_def audio_samples_def)
    ultimately show ?thesis
      using fill_durations_bounds [of default_frame_duration "vt_samples v" "vt_decode_times v"]
      by (cases "vt_samples v")
         (simp_all add: tiles_durations default_frame_duration_def video_timescale_def Let_def)
  next
    case 2
    have "at_samples a \<noteq> []" "et_samples track = at_samples a"
      "et_duration track = total_duration (et_samples track)"
      using 2(3) by (auto simp: audio_into_track_def result_simps Let_def split: if_splits)
    moreover have "tiles 0 (at_samples a) (length (snk_bytes file))"
      "list_all (\<lambda>s. es_duration s = aac_frame_samples) (at_samples a)"
      using d2(2,3) 2 by (simp_all add: video_samples_def audio_samples_def)
    ultimately show ?thesis
      by (auto simp: list_all_iff aac_frame_samples_def)
  qed
qed

text \<open>
  C23.  A transport stream that is demultiplexed gives a track whose samples, in order, cover the
  output file without gap or overlap: cutting the file at the samples and putting the pieces together
  gives the file back.  Every sample lasts between one tick and one second of the clock, and the
  track's duration is the sum of its samples', up to the largest 64-bit value.
\<close>

theorem elementary_samples_tile_the_file:
  assumes "demux (Inr source) (Inr out) = Inr (track, file)" "length (snk_bytes file) < 2 ^ 64"
  shows "tiles 0 (et_samples track) (length (snk_bytes file)) \<and>
    concat (map (held_bytes (snk_bytes file)) (et_samples track)) = snk_bytes file \<and>
    et_samples track \<noteq> [] \<and>
    list_all (\<lambda>s. 0 < es_duration s \<and> es_duration s \<le> 90000) (et_samples track) \<and>
    unat (et_duration track) = min (\<Sum>s\<leftarrow>et_samples track. unat (es_duration s)) (2 ^ 64 - 1)"
proof -
  obtain d where run: "demux_loop (src_bytes source) (src_error source) False
      (demuxer_new (out\<lparr>snk_bytes := []\<rparr>)) = Inr (True, d)" and finish: "demux_finish d = Inr (track, file)"
    using assms(1) by (auto simp: demux_def result_simps split: if_splits)
  have "tiled (demuxer_new (out\<lparr>snk_bytes := []\<rparr>))"
    by (simp add: tiled_def demuxer_new_def video_samples_def audio_samples_def)
  from demux_loop_tiled [OF run this] demux_finish_tiled [OF finish _ assms(2)]
  have "tiles 0 (et_samples track) (length (snk_bytes file))" "et_samples track \<noteq> []"
    "list_all (\<lambda>s. 0 < es_duration s \<and> es_duration s \<le> 90000) (et_samples track)"
    "et_duration track = total_duration (et_samples track)" by auto
  then show ?thesis
    using tiles_concat [of 0 "et_samples track" "snk_bytes file"] by (simp add: unat_total_duration)
qed

section \<open>Concrete streams\<close>

theorem nal_units_survive_packetisation_witness:
  "\<exists>v complete.
     video_feed [[0, 0], [1, 9], [16, 0, 0], [0, 1, 0x65], [7, 0, 0, 1], [0x41]] video_default =
       Inr (v, complete) \<and>
     video_nals [[9, 16], [0x65, 7]] video_default = (v\<lparr>vt_pending := []\<rparr>, complete) \<and>
     concat (map cu_data complete) @ vt_unit v = [0, 0, 0, 2, 9, 16, 0, 0, 0, 2, 0x65, 7] \<and>
     vt_pending v = [0, 0, 1, 0x41]"
proof -
  have "nal_prefixed [9, 16] = [0, 0, 0, 2, 9, 16]" "nal_prefixed [0x65, 7] = [0, 0, 0, 2, 0x65, 7]"
    by code_simp+
  then show ?thesis
    using nal_units_survive_packetisation
      [of "[(0, [9, 16]), (1, [0x65, 7]), (0, [0x41])]"
          "[[0, 0], [1, 9], [16, 0, 0], [0, 1, 0x65], [7, 0, 0, 1], [0x41]]"]
    by (simp add: clean_nal_def starts_with_def annexb_def max_pending_def)
qed

definition demo_sink :: sink where
  "demo_sink = \<lparr>snk_bytes = [], snk_error = (\<lambda>_. None), snk_flush = None\<rparr>"

definition demo_adts :: "u8 list" where
  "demo_adts = [0xFF, 0xF1, 0x50, 0x80, 1, 0x1F, 0xFC, 7, 0xFF, 0xF1, 0x50, 0x80, 1, 0x3F, 0xFC, 8, 9]"

theorem packed_audio_roundtrip_witness:
  "\<exists>track file. demux_adts (Inr [Inr (take 3 demo_adts), Inr (take 6 (drop 3 demo_adts)),
       Inr (drop 9 demo_adts)]) (Inr demo_sink) = Inr (track, file) \<and>
     snk_bytes file = [7, 8, 9] \<and>
     map (held_bytes (snk_bytes file)) (et_samples track) = [[7], [8, 9]] \<and>
     unat (et_duration track) = 2048 \<and> et_timescale track = 44100"
proof -
  have "adts_config 1 4 2" by (simp add: adts_config_def)
  moreover have "list_all adts_fits [[7], [8, 9]]" by (simp add: adts_fits_def)
  moreover have "never_fails demo_sink" by (simp add: never_fails_def demo_sink_def)
  moreover have "list_all (\<lambda>piece. piece \<noteq> []) [take 3 demo_adts, take 6 (drop 3 demo_adts), drop 9 demo_adts]"
    "concat [take 3 demo_adts, take 6 (drop 3 demo_adts), drop 9 demo_adts] =
       adts_stream 1 4 2 [[7], [8, 9]]"
    by code_simp+
  ultimately show ?thesis
    using packed_audio_roundtrip [of 1 4 2 "[[7], [8, 9]]" demo_sink
      "[take 3 demo_adts, take 6 (drop 3 demo_adts), drop 9 demo_adts]"]
    by (fastforce simp: sample_rates_def)
qed

definition demo_packet :: "u8 \<Rightarrow> u8 list \<Rightarrow> u8 list" where
  "demo_packet pid payload =
     [0x47, 0x40, pid, 0x30, of_nat (183 - length payload)] @
     replicate (183 - length payload) 0xFF @ payload"

lemma demux_stuffed_packet:
  assumes "length payload \<le> 182" "payload \<noteq> []"
  shows "demux_packet (demo_packet pid payload) d = route_payload (ucast pid) True payload d"
    and "demux_loop (demo_packet pid payload @ rest) e started d =
           rbind (route_payload (ucast pid) True payload d) (demux_loop rest e True)"
proof -
  have len: "unat (of_nat (183 - length payload) :: u8) = 183 - length payload"
    by (simp add: unat_byte)
  let ?p = "demo_packet pid payload"
  have p: "length ?p = 188" "?p ! 0 = 0x47" "?p ! 1 = 0x40" "?p ! 2 = pid" "?p ! 3 = 0x30"
    "?p ! 4 = of_nat (183 - length payload)"
    using assms by (simp_all add: demo_packet_def)
  have "drop (5 + k) (a # b # c # e # g # replicate k x @ t) = t" for k t and a b c e g x :: u8
    by (simp add: eval_nat_numeral)
  then have "drop (5 + (183 - length payload)) ?p = payload"
    by (simp only: demo_packet_def append_Cons append_Nil)
  note p = p this
  have off: "188 - length payload \<noteq> 188" "\<not> 188 < 188 - length payload"
    using assms by (cases payload; simp)+
  show step: "demux_packet ?p d = route_payload (ucast pid) True payload d"
    using p assms len off by (simp add: demux_packet_def Let_def packet_size_def)
  show "demux_loop (?p @ rest) e started d =
      rbind (route_payload (ucast pid) True payload d) (demux_loop rest e True)"
    using p(1,2) step
    by (subst demux_loop.simps) (simp add: packet_size_def Let_def sync_byte_def nth_append)
qed

definition demo_pat :: "u8 list" where
  "demo_pat = [0, 0x00, 0xB0, 13, 0, 1, 0xC1, 0, 0, 0, 1, 0xE0, 16, 0, 0, 0, 0]"

definition demo_pmt :: "u8 list" where
  "demo_pmt = [0, 0x02, 0xB0, 18, 0, 1, 0xC1, 0, 0, 0xE0, 17, 0xF0, 0, 0x0F, 0xE0, 17, 0xF0, 0, 0, 0, 0, 0]"

definition demo_pes :: "u8 list" where
  "demo_pes = [0, 0, 1, 0xC0, 0, 0, 0x80, 0, 0] @ demo_adts"

definition demo_stream :: source_file where
  "demo_stream = \<lparr>src_bytes = demo_packet 0 demo_pat @ demo_packet 16 demo_pmt @ demo_packet 17 demo_pes,
     src_error = None\<rparr>"

lemma demo_demux:
  "case demux (Inr demo_stream) (Inr demo_sink) of
     Inl _ \<Rightarrow> False | Inr (track, f) \<Rightarrow> snk_bytes f = [7, 8, 9] \<and> length (et_samples track) = 2"
proof -
  have step: "length payload \<le> 182 \<Longrightarrow> payload \<noteq> [] \<Longrightarrow> demux_loop (demo_packet pid payload @ rest) None started =
      (\<lambda>d. rbind (route_payload (ucast pid) True payload d) (demux_loop rest None True))"
    for pid payload rest started
    by (rule ext) (rule demux_stuffed_packet(2))
  have small: "length demo_pat \<le> 182" "length demo_pmt \<le> 182" "length demo_pes \<le> 182"
    "demo_pat \<noteq> []" "demo_pmt \<noteq> []" "demo_pes \<noteq> []"
    by (simp_all add: demo_pat_def demo_pmt_def demo_pes_def demo_adts_def)
  have steps: "demux_loop (demo_packet 0 demo_pat @ demo_packet 16 demo_pmt @ demo_packet 17 demo_pes) None False d =
      rbind (route_payload 0 True demo_pat d) (\<lambda>d1. rbind (route_payload 16 True demo_pmt d1) (\<lambda>d2.
        rbind (route_payload 17 True demo_pes d2) (demux_loop [] None True)))" for d
    using step [OF small(3,6), of 17 "[]"] by (simp add: step small)
  have end_loop: "demux_loop [] None True = (\<lambda>d. Inr (True, d))"
    by (rule ext) (simp add: demux_loop.simps [of "[]"] packet_size_def)
  have "case rbind (rbind (route_payload 0 True demo_pat (demuxer_new (demo_sink\<lparr>snk_bytes := []\<rparr>))) (\<lambda>d1.
        rbind (route_payload 16 True demo_pmt d1) (\<lambda>d2.
        rbind (route_payload 17 True demo_pes d2) (\<lambda>d. Inr (True, d)))))
        (\<lambda>(started, d). if \<not> started then Inl (MuxMalformed ''the transport stream is empty'')
          else demux_finish d) of
     Inl _ \<Rightarrow> False | Inr (track, f) \<Rightarrow> snk_bytes f = [7, 8, 9] \<and> length (et_samples track) = 2"
    by code_simp
  then show ?thesis
    by (simp only: demux_def demo_stream_def map_err_simps rbind_simps source_file.simps steps end_loop)
qed

theorem elementary_samples_tile_the_file_witness:
  "\<exists>track f. demux (Inr demo_stream) (Inr demo_sink) = Inr (track, f) \<and> snk_bytes f = [7, 8, 9] \<and>
     length (et_samples track) = 2 \<and> concat (map (held_bytes [7, 8, 9]) (et_samples track)) = [7, 8, 9] \<and>
     unat (et_duration track) = min (\<Sum>s\<leftarrow>et_samples track. unat (es_duration s)) (2 ^ 64 - 1)"
proof -
  obtain track f where run: "demux (Inr demo_stream) (Inr demo_sink) = Inr (track, f)"
    "snk_bytes f = [7, 8, 9]" "length (et_samples track) = 2"
    using demo_demux by (auto split: sum.splits)
  then show ?thesis using elementary_samples_tile_the_file [OF run(1)] by simp
qed

section \<open>Boundary behaviour\<close>

text \<open>
  The end of the stream does not end the last NAL unit: closing the track emits the access unit
  assembled so far and leaves the unit in the buffer out.
\<close>

lemma last_nal_is_dropped:
  "case video_feed [annexb [(0, [0x67, 1]), (0, [0x68, 2]), (0, [0x65, 3])]] video_default of
     Inl _ \<Rightarrow> False
   | Inr (v, complete) \<Rightarrow> complete = [] \<and>
       map cu_data (snd (video_flush v)) = [[0, 0, 0, 2, 0x67, 1, 0, 0, 0, 2, 0x68, 2]]"
  by code_simp

text \<open>
  A NAL unit is handled when the next start code is seen, which stands in the next packet where a
  picture is one unit: the picture then gets the timestamps of the packet after its own.
\<close>

lemma timestamps_of_the_next_packet:
  "case video_push [0, 0, 1, 0x41, 1] (timed (Some 10) None video_default) of
     Inl _ \<Rightarrow> False
   | Inr (v1, units1) \<Rightarrow>
       (case video_push [0, 0, 1, 0x41, 2] (timed (Some 20) None v1) of
          Inl _ \<Rightarrow> False
        | Inr (v2, units2) \<Rightarrow>
            (case video_push [0, 0, 1, 0x41, 3] (timed (Some 30) None v2) of
               Inl _ \<Rightarrow> False
             | Inr (v3, units3) \<Rightarrow> units1 = [] \<and> units2 = [] \<and>
                 map (\<lambda>u. (cu_data u, cu_pts u)) units3 = [([0, 0, 0, 2, 0x41, 1], Some 20)]))"
  by code_simp

text \<open>
  Where the reader resynchronises, a sync word cut after its first byte is thrown away with the bytes
  before it: the same bytes in one piece give the frame.
\<close>

lemma split_sync_word_is_lost:
  "map_option snd (result_ok (audio_push ([1, 2, 3, 4, 5, 6, 7, 0xFF] @ drop 1 (adts_frame 1 4 2 [9]))
     audio_default)) = Some [[9]]"
  "case audio_push [1, 2, 3, 4, 5, 6, 7, 0xFF] audio_default of
     Inl _ \<Rightarrow> False
   | Inr (a, frames) \<Rightarrow> frames = [] \<and>
       map_option snd (result_ok (audio_push (drop 1 (adts_frame 1 4 2 [9])) a)) = Some []"
  by code_simp+

text \<open>A table whose first packet carries fewer than three of its bytes is never assembled.\<close>

lemma short_table_start_is_lost:
  "case section_push section_default [0, 0x00, 0xB0] True of
     Inl _ \<Rightarrow> False
   | Inr (s, done_now) \<Rightarrow> done_now = [] \<and> section_push s (drop 3 demo_pat) False = Inr (s, [])"
  "map_option snd (result_ok (section_push section_default demo_pat True)) = Some [drop 1 demo_pat]"
  by code_simp+

end
