(* ===== verification/Sps_Correct.thy ===== *)
theory Sps_Correct
  imports Ts
begin

text \<open>
  Reading a sequence parameter set: the bits of its bytes, the fixed-width and Exp-Golomb codes, the
  emulation prevention bytes, and the picture size of the fields an encoder wrote.
\<close>

section \<open>Bits\<close>

definition byte_bits :: "u8 \<Rightarrow> bool list" where
  "byte_bits b = map (bit b) (rev [0..<8])"

definition bits_of :: "u8 list \<Rightarrow> bool list" where
  "bits_of bytes = concat (map byte_bits bytes)"

lemma length_bits_of [simp]: "length (bits_of bytes) = 8 * length bytes"
  by (induction bytes) (simp_all add: bits_of_def byte_bits_def)

lemma bits_of_nth: "i < 8 * length bytes \<Longrightarrow> bits_of bytes ! i = bit (bytes ! (i div 8)) (7 - i mod 8)"
proof (induction bytes arbitrary: i)
  case (Cons b bytes)
  have split: "bits_of (b # bytes) = byte_bits b @ bits_of bytes" by (simp add: bits_of_def)
  show ?case
  proof (cases "i < 8")
    case True
    then show ?thesis by (simp add: split nth_append byte_bits_def rev_nth)
  next
    case False
    then obtain j where i: "i = 8 + j" by (metis le_iff_add not_less)
    then have "bits_of bytes ! j = bit (bytes ! (j div 8)) (7 - j mod 8)"
      using Cons by simp
    moreover have "(8 + j) div 8 = Suc (j div 8)" "(8 + j) mod 8 = j mod 8" by simp_all
    ultimately show ?thesis by (simp only: split nth_append i) (simp add: byte_bits_def)
  qed
qed simp

definition remaining :: "bit_reader \<Rightarrow> bool list" where
  "remaining r = drop (bt_position r) (bits_of (bt_bytes r))"

text \<open>\<open>decodes m bs x\<close>: where the next bits are \<open>bs\<close>, \<open>m\<close> reads them all and returns \<open>x\<close>.\<close>

definition decodes :: "'a bits_act \<Rightarrow> bool list \<Rightarrow> 'a \<Rightarrow> bool" where
  "decodes m bs x \<longleftrightarrow>
     (\<forall>r rest. remaining r = bs @ rest \<longrightarrow> (\<exists>r'. m r = (Inr x, r') \<and> remaining r' = rest))"

named_theorems decodes_intros \<open>composition of readers\<close>

lemma decodes_ret: "decodes (ret x) [] x"
  by (simp add: decodes_def ret_def)

lemma decodes_bind [decodes_intros]:
  "decodes m bs x \<Longrightarrow> decodes (f x) cs y \<Longrightarrow> decodes (act_bind m f) (bs @ cs) y"
  by (fastforce simp: decodes_def act_bind_def)

lemma decodes_bind_last:
  "decodes m bs x \<Longrightarrow> decodes (f x) [] y \<Longrightarrow> decodes (act_bind m f) bs y"
  using decodes_bind [of m bs x f "[]" y] by simp

lemma decodes_read_bit: "decodes read_bit [b] (of_bool b)"
  unfolding decodes_def
proof (intro allI impI)
  fix r rest
  assume rest: "remaining r = [b] @ rest"
  let ?p = "bt_position r"
  have p: "?p < 8 * length (bt_bytes r)"
    using rest by (cases "?p < length (bits_of (bt_bytes r))") (auto simp: remaining_def)
  then have "remaining r = bits_of (bt_bytes r) ! ?p # drop (Suc ?p) (bits_of (bt_bytes r))"
    by (simp add: remaining_def Cons_nth_drop_Suc)
  with rest have b: "b = bit (bt_bytes r ! (?p div 8)) (7 - ?p mod 8)"
    and rest': "rest = drop (Suc ?p) (bits_of (bt_bytes r))" using p by (simp_all add: bits_of_nth)
  have "nth_get (bt_bytes r) (?p div 8) = Some (bt_bytes r ! (?p div 8))"
    using p by (simp add: nth_get_def div_less_iff_less_mult mult.commute)
  moreover have "ucast (and (drop_bit (7 - ?p mod 8) (bt_bytes r ! (?p div 8))) 1) = (of_bool b :: u64)"
    by (simp add: b and_one_eq bit_iff_odd_drop_bit mod2_eq_if)
  ultimately show "\<exists>r'. read_bit r = (Inr (of_bool b), r') \<and> remaining r' = rest"
    by (simp add: read_bit_def remaining_def rest')
qed

fun from_bits :: "nat \<Rightarrow> bool list \<Rightarrow> nat" where
  "from_bits acc [] = acc"
| "from_bits acc (b # bs) = from_bits (2 * acc + of_bool b) bs"

definition bin :: "nat \<Rightarrow> nat \<Rightarrow> bool list" where
  "bin k n = map (bit n) (rev [0..<k])"

lemma length_bin [simp]: "length (bin k n) = k"
  by (simp add: bin_def)

lemma from_bits_bin: "from_bits acc (bin k n) = acc * 2 ^ k + n mod 2 ^ k"
proof (induction k arbitrary: acc)
  case (Suc k)
  have "bin (Suc k) n = bit n k # bin k n" by (simp add: bin_def)
  moreover have "n mod 2 ^ Suc k = of_bool (bit n k) * 2 ^ k + n mod 2 ^ k"
    using take_bit_Suc_from_most [of k n] by (simp only: take_bit_eq_mod mult.commute)
  ultimately show ?case by (simp add: Suc algebra_simps)
qed (simp add: bin_def)

lemma decodes_read_loop:
  "length bs = n \<Longrightarrow> decodes (read_bits_loop n (of_nat acc)) bs (of_nat (from_bits acc bs))"
proof (induction n arbitrary: bs acc)
  case (Suc n)
  obtain b cs where bs: "bs = b # cs" "length cs = n" using Suc.prems by (cases bs) auto
  have eq: "or (push_bit 1 (of_nat acc)) (of_bool b) = (of_nat (2 * acc + of_bool b) :: u64)"
    by (cases b) (simp_all add: or_one_eq push_bit_eq_mult mult.commute)
  then have "decodes (read_bits_loop n (or (push_bit 1 (of_nat acc)) (of_bool b))) cs
      (of_nat (from_bits (2 * acc + of_bool b) cs))"
    using Suc.IH [OF bs(2)] by (simp only: eq)
  then have "decodes (act_bind read_bit (\<lambda>bit. read_bits_loop n (or (push_bit 1 (of_nat acc)) bit)))
      ([b] @ cs) (of_nat (from_bits (2 * acc + of_bool b) cs))"
    by (rule decodes_bind [OF decodes_read_bit])
  then show ?case by (simp add: bs)
qed (simp add: decodes_ret)

lemma decodes_read_bits: "decodes (read_bits k) (bin k n) (of_nat (n mod 2 ^ k))"
  using decodes_read_loop [of "bin k n" k 0] by (simp add: read_bits_def from_bits_bin)

section \<open>Exp-Golomb codes\<close>

fun bit_width :: "nat \<Rightarrow> nat" where
  "bit_width n = (if n < 2 then 0 else Suc (bit_width (n div 2)))"

declare bit_width.simps [simp del]

lemma bit_width_bounds: "0 < n \<Longrightarrow> 2 ^ bit_width n \<le> n \<and> n < 2 * 2 ^ bit_width n"
proof (induction n rule: bit_width.induct)
  case (1 n)
  then show ?case by (subst (1 2) bit_width.simps) auto
qed

text \<open>The unsigned code of \<open>n\<close>: as many zeros as \<open>n + 1\<close> has bits behind its first, and those bits.\<close>

definition golomb :: "nat \<Rightarrow> bool list" where
  "golomb n = (let z = bit_width (n + 1) in replicate z False @ [True] @ bin z (n + 1))"

definition golomb_signed :: "int \<Rightarrow> bool list" where
  "golomb_signed v = golomb (nat (if 0 < v then 2 * v - 1 else - 2 * v))"

lemma read_bits_one: "decodes (read_bits 1) [b] (of_bool b)"
  using decodes_read_bits [of 1 "of_bool b"] by (cases b) (simp_all add: bin_def bit_0)

lemma decodes_leading_zeros:
  "k + z \<le> 32 \<Longrightarrow> decodes (leading_zeros k) (replicate z False @ [True]) (k + z)"
proof (induction z arbitrary: k)
  case 0
  have "decodes (act_bind (read_bits 1) (\<lambda>b. if b = 0 then m else ret k)) [True] k" for m
    by (rule decodes_bind_last [OF read_bits_one]) (simp add: decodes_ret)
  then show ?case by (subst leading_zeros.simps) simp
next
  case (Suc z)
  have "decodes (leading_zeros k) ([False] @ (replicate z False @ [True])) (k + Suc z)"
    by (subst leading_zeros.simps, rule decodes_bind [OF read_bits_one])
       (use Suc.prems Suc.IH [of "k + 1"] in simp)
  then show ?case by simp
qed

lemma golomb_value:
  assumes "n < 2 ^ 33 - 1"
  defines "z \<equiv> bit_width (n + 1)"
  shows "z \<le> 32" "(push_bit z 1 - 1 + of_nat ((n + 1) mod 2 ^ z) :: u64) = of_nat n"
proof -
  have z: "2 ^ z \<le> n + 1" "n + 1 < 2 * 2 ^ z"
    using bit_width_bounds [of "n + 1"] by (simp_all add: z_def)
  have "(2::nat) ^ z < 2 ^ 33" using z(1) assms(1) by simp
  from power_less_imp_less_exp [OF _ this] show "z \<le> 32" by simp
  have "(n + 1) mod 2 ^ z = n + 1 - 2 ^ z"
    using z by (simp add: mod_if)
  then have "n = 2 ^ z - 1 + (n + 1) mod 2 ^ z" using z(1) by simp
  then have "(of_nat n :: u64) = of_nat (2 ^ z - 1) + of_nat ((n + 1) mod 2 ^ z)"
    by (metis of_nat_add)
  then show "(push_bit z 1 - 1 + of_nat ((n + 1) mod 2 ^ z) :: u64) = of_nat n"
    by (simp add: push_bit_eq_mult of_nat_diff)
qed

lemma decodes_unsigned [decodes_intros]:
  assumes "n < 2 ^ 33 - 1" shows "decodes read_unsigned (golomb n) (of_nat n)"
proof -
  let ?z = "bit_width (n + 1)"
  note v = golomb_value [OF assms]
  have "decodes (leading_zeros 0) (replicate ?z False @ [True]) ?z"
    using decodes_leading_zeros [of 0 ?z] v(1) by simp
  moreover have "decodes (if ?z = 0 then ret 0 else act_bind (read_bits ?z) (\<lambda>rest. ret (push_bit ?z 1 - 1 + rest)))
      (bin ?z (n + 1)) (of_nat n :: u64)"
  proof (cases "?z = 0")
    case True
    then have "n = 0" using bit_width_bounds [of "n + 1"] by simp
    then show ?thesis using True by (simp add: decodes_ret bin_def)
  next
    case False
    have "decodes (act_bind (read_bits ?z) (\<lambda>rest. ret (push_bit ?z 1 - 1 + rest))) (bin ?z (n + 1))
      (push_bit ?z 1 - 1 + of_nat ((n + 1) mod 2 ^ ?z) :: u64)"
      by (rule decodes_bind_last [OF decodes_read_bits decodes_ret])
    then show ?thesis using False v(2) by simp
  qed
  ultimately have "decodes read_unsigned ((replicate ?z False @ [True]) @ bin ?z (n + 1)) (of_nat n)"
    unfolding read_unsigned_def by (rule decodes_bind)
  then show ?thesis by (simp add: golomb_def Let_def)
qed

lemma decodes_signed [decodes_intros]:
  assumes "\<bar>v\<bar> < 2 ^ 32 - 1" shows "decodes read_signed (golomb_signed v) v"
proof -
  define n where "n = nat (if 0 < v then 2 * v - 1 else - 2 * v)"
  have n: "n < 2 ^ 33 - 1" using assms by (auto simp: n_def abs_if nat_less_iff split: if_splits)
  then have u: "uint (of_nat n :: u64) = int n"
    by (simp add: unsigned_of_nat take_bit_nat_eq_self flip: uint_nat)
  have i: "int n = (if 0 < v then 2 * v - 1 else - 2 * v)" by (simp add: n_def)
  have "(if uint (of_nat n :: u64) mod 2 = 0 then - (uint (of_nat n :: u64) div 2)
         else (uint (of_nat n :: u64) + 1) div 2) = v"
    unfolding u i by (cases "0 < v"; simp only: if_True if_False not_less refl; presburger)
  then have "decodes (ret (if uint (of_nat n :: u64) mod 2 = 0 then - (uint (of_nat n :: u64) div 2)
         else (uint (of_nat n :: u64) + 1) div 2)) [] v" by (simp only: decodes_ret)
  then have "decodes read_signed (golomb n) v"
    unfolding read_signed_def by (rule decodes_bind_last [OF decodes_unsigned [OF n]])
  then show ?thesis by (simp add: golomb_signed_def n_def)
qed

section \<open>Emulation prevention\<close>

fun insert_emulation :: "nat \<Rightarrow> u8 list \<Rightarrow> u8 list" where
  "insert_emulation zeros [] = []"
| "insert_emulation zeros (b # bs) =
     (if 2 \<le> zeros \<and> b \<le> 3 then 0x03 # b # insert_emulation (if b = 0 then 1 else 0) bs
      else b # insert_emulation (if b = 0 then zeros + 1 else 0) bs)"

lemma remove_insert_emulation: "remove_emulation_prevention (insert_emulation 0 bs) = bs"
proof -
  let ?step = "\<lambda>b (out, zeros). if 2 \<le> zeros \<and> b = 0x03 then (out, 0)
    else (out @ [b], if b = 0 then zeros + 1 else (0 :: nat))"
  have "fst (fold ?step (insert_emulation z bs) (out, z)) = out @ bs" for z out
  proof (induction z bs arbitrary: out rule: insert_emulation.induct)
    case (2 zeros b bs)
    then show ?case by (cases "2 \<le> zeros \<and> b \<le> 3"; cases "b = 0") auto
  qed simp
  from this [of 0 "[]"] show ?thesis by (simp add: remove_emulation_prevention_def)
qed

section \<open>Parameter sets as an encoder writes them\<close>

datatype order_count =
    OrderLsb nat
  | OrderCycle bool int int "int list"
  | OrderNone

record sps_fields =
  sf_head :: nat
  sf_profile :: nat
  sf_constraints :: nat
  sf_level :: nat
  sf_id :: nat
  sf_chroma :: nat
  sf_plane :: bool
  sf_luma_depth :: nat
  sf_chroma_depth :: nat
  sf_bypass :: bool
  sf_frame_num :: nat
  sf_order :: order_count
  sf_refs :: nat
  sf_gaps :: bool
  sf_width :: nat
  sf_height :: nat
  sf_frames_only :: bool
  sf_adaptive :: bool
  sf_direct :: bool
  sf_crop :: "(nat \<times> nat \<times> nat \<times> nat) option"

definition high_profile :: "sps_fields \<Rightarrow> bool" where
  "high_profile f \<longleftrightarrow> (of_nat (sf_profile f) :: u64) \<in> chroma_profiles"

definition chroma_of :: "sps_fields \<Rightarrow> nat" where
  "chroma_of f = (if high_profile f then sf_chroma f else 1)"

definition chroma_bits :: "sps_fields \<Rightarrow> bool list" where
  "chroma_bits f =
     (if high_profile f then
        golomb (sf_chroma f) @ (if sf_chroma f = 3 then [sf_plane f] else []) @
        golomb (sf_luma_depth f) @ golomb (sf_chroma_depth f) @ [sf_bypass f] @ [False]
      else [])"

fun order_bits :: "order_count \<Rightarrow> bool list" where
  "order_bits (OrderLsb k) = golomb 0 @ golomb k"
| "order_bits (OrderCycle zero a b cycle) =
     golomb 1 @ [zero] @ golomb_signed a @ golomb_signed b @ golomb (length cycle) @
     concat (map golomb_signed cycle)"
| "order_bits OrderNone = golomb 2"

definition size_bits :: "sps_fields \<Rightarrow> bool list" where
  "size_bits f =
     golomb (sf_width f) @ golomb (sf_height f) @ [sf_frames_only f] @
     (if sf_frames_only f then [] else [sf_adaptive f]) @ [sf_direct f] @
     (case sf_crop f of
        None \<Rightarrow> [False]
      | Some (left, right, upper, lower) \<Rightarrow>
          [True] @ golomb left @ golomb right @ golomb upper @ golomb lower)"

definition sps_bits :: "sps_fields \<Rightarrow> bool list" where
  "sps_bits f =
     bin 8 (sf_head f) @ bin 8 (sf_profile f) @ bin 8 (sf_constraints f) @ bin 8 (sf_level f) @
     golomb (sf_id f) @ chroma_bits f @ golomb (sf_frame_num f) @ order_bits (sf_order f) @
     golomb (sf_refs f) @ [sf_gaps f] @ size_bits f"

text \<open>The picture the fields describe, in luma samples.\<close>

definition crop_width :: "sps_fields \<Rightarrow> nat" where
  "crop_width f =
     (case sf_crop f of None \<Rightarrow> 0
      | Some (left, right, _, _) \<Rightarrow> (left + right) * (if chroma_of f \<in> {1, 2} then 2 else 1))"

definition crop_height :: "sps_fields \<Rightarrow> nat" where
  "crop_height f =
     (case sf_crop f of None \<Rightarrow> 0
      | Some (_, _, upper, lower) \<Rightarrow>
          (upper + lower) * (if chroma_of f = 1 then 2 else 1) * (if sf_frames_only f then 1 else 2))"

definition picture_width :: "sps_fields \<Rightarrow> nat" where
  "picture_width f = 16 * (sf_width f + 1) - crop_width f"

definition picture_height :: "sps_fields \<Rightarrow> nat" where
  "picture_height f = (if sf_frames_only f then 16 else 32) * (sf_height f + 1) - crop_height f"

abbreviation code_ok :: "nat \<Rightarrow> bool" where
  "code_ok n \<equiv> n < 2 ^ 32 - 1"

fun order_ok :: "order_count \<Rightarrow> bool" where
  "order_ok (OrderLsb k) \<longleftrightarrow> code_ok k"
| "order_ok (OrderCycle zero a b cycle) \<longleftrightarrow>
     code_ok (length cycle) \<and> list_all (\<lambda>v. \<bar>v\<bar> < 2 ^ 32 - 1) (a # b # cycle)"
| "order_ok OrderNone \<longleftrightarrow> True"

definition sps_ok :: "sps_fields \<Rightarrow> bool" where
  "sps_ok f \<longleftrightarrow>
     sf_profile f < 256 \<and> sf_chroma f \<le> 3 \<and> order_ok (sf_order f) \<and>
     list_all code_ok [sf_id f, sf_luma_depth f, sf_chroma_depth f, sf_frame_num f, sf_refs f,
       sf_width f, sf_height f] \<and>
     (case sf_crop f of None \<Rightarrow> True
      | Some (left, right, upper, lower) \<Rightarrow> list_all code_ok [left, right, upper, lower])"

lemma decodes_code: "code_ok n \<Longrightarrow> decodes read_unsigned (golomb n) (of_nat n)"
  by (rule decodes_unsigned) simp

lemma decodes_optional_bit:
  "decodes (if P then read_bits 1 else ret 0) (if P then [b] else []) (if P then of_bool b else 0)"
  by (simp add: decodes_ret read_bits_one [simplified])

lemma decodes_skip_signed:
  "list_all (\<lambda>v. \<bar>v\<bar> < 2 ^ 32 - 1) vs \<Longrightarrow>
     decodes (skip_signed (length vs)) (concat (map golomb_signed vs)) ()"
  by (induction vs) (auto intro!: decodes_ret decodes_bind [OF decodes_signed])

lemma decodes_order: "order_ok order \<Longrightarrow> decodes read_order_count (order_bits order) ()"
proof (cases order)
  case (OrderLsb k)
  assume "order_ok order"
  then show ?thesis
    unfolding read_order_count_def OrderLsb order_bits.simps
    by (intro decodes_bind) (auto simp: OrderLsb intro!: decodes_code decodes_bind_last decodes_ret)
next
  case (OrderCycle zero a b cycle)
  assume ok: "order_ok order"
  have n: "unat (of_nat (length cycle) :: u64) = length cycle"
    using ok by (simp add: OrderCycle unsigned_of_nat take_bit_nat_eq_self)
  have "decodes (act_bind read_unsigned (\<lambda>cycle. skip_signed (unat cycle)))
      (golomb (length cycle) @ concat (map golomb_signed cycle)) ()"
    using ok decodes_skip_signed [of cycle]
    by (intro decodes_bind [OF decodes_code]) (simp_all add: OrderCycle n)
  then have "decodes (act_bind (read_bits 1) (\<lambda>_. act_bind read_signed (\<lambda>_. act_bind read_signed (\<lambda>_.
        act_bind read_unsigned (\<lambda>cycle. skip_signed (unat cycle))))))
      ([zero] @ golomb_signed a @ golomb_signed b @ golomb (length cycle) @
       concat (map golomb_signed cycle)) ()"
    using ok by (intro decodes_bind [OF read_bits_one] decodes_bind [OF decodes_signed]) (simp_all add: OrderCycle)
  then show ?thesis
    unfolding read_order_count_def OrderCycle order_bits.simps
    by (intro decodes_bind [OF decodes_code]) simp_all
next
  case OrderNone
  then show ?thesis
    unfolding read_order_count_def
    by (simp, intro decodes_bind_last [OF decodes_code]) (simp_all add: decodes_ret)
qed

lemma decodes_chroma:
  assumes "sps_ok f" "profile = of_nat (sf_profile f)"
  shows "decodes (read_chroma profile) (chroma_bits f) (of_nat (chroma_of f))"
proof (cases "high_profile f")
  case False
  then show ?thesis
    using assms(2) by (simp add: read_chroma_def chroma_bits_def chroma_of_def high_profile_def decodes_ret)
next
  case True
  have c3: "(of_nat (sf_chroma f) = (3 :: u64)) \<longleftrightarrow> sf_chroma f = 3"
  proof -
    have "sf_chroma f \<le> 3" using assms(1) by (simp add: sps_ok_def)
    then consider "sf_chroma f = 0" | "sf_chroma f = 1" | "sf_chroma f = 2" | "sf_chroma f = 3" by linarith
    then show ?thesis by cases simp_all
  qed
  have codes: "code_ok (sf_chroma f)" "code_ok (sf_luma_depth f)" "code_ok (sf_chroma_depth f)"
    using assms(1) by (simp_all add: sps_ok_def)
  define last_bit where
    "last_bit scaling = act_bind (skip_scaling_matrix (of_nat (sf_chroma f)) scaling) (\<lambda>_. ret (of_nat (sf_chroma f) :: u64))"
      for scaling
  have "decodes (last_bit (of_bool False)) [] (of_nat (sf_chroma f))"
    using decodes_bind_last [OF decodes_ret decodes_ret] by (simp add: last_bit_def skip_scaling_matrix_def)
  then have "decodes (act_bind (read_bits 1) last_bit) [False] (of_nat (sf_chroma f))"
    by (rule decodes_bind_last [OF read_bits_one])
  then have "decodes (act_bind (if (of_nat (sf_chroma f) :: u64) = 3 then read_bits 1 else ret 0) (\<lambda>_.
      act_bind read_unsigned (\<lambda>_. act_bind read_unsigned (\<lambda>_. act_bind (read_bits 1) (\<lambda>_.
      act_bind (read_bits 1) last_bit)))))
      ((if sf_chroma f = 3 then [sf_plane f] else []) @ golomb (sf_luma_depth f) @
       golomb (sf_chroma_depth f) @ [sf_bypass f] @ [False]) (of_nat (sf_chroma f))"
    unfolding c3
    by (intro decodes_bind [OF decodes_optional_bit] decodes_bind [OF decodes_code [OF codes(2)]]
        decodes_bind [OF decodes_code [OF codes(3)]] decodes_bind [OF read_bits_one])
  then have "decodes (read_chroma profile) (golomb (sf_chroma f) @
      (if sf_chroma f = 3 then [sf_plane f] else []) @ golomb (sf_luma_depth f) @
      golomb (sf_chroma_depth f) @ [sf_bypass f] @ [False]) (of_nat (sf_chroma f))"
    unfolding read_chroma_def last_bit_def assms(2) True [unfolded high_profile_def, THEN eqTrueI] if_True
    by (rule decodes_bind [OF decodes_code [OF codes(1)]])
  then show ?thesis using True by (simp add: chroma_bits_def chroma_of_def)
qed

lemma saturating_of_nat:
  "m + n < 2 ^ 64 \<Longrightarrow> saturating_add (of_nat m) (of_nat n) = (of_nat (m + n) :: u64)"
  "m * n < 2 ^ 64 \<Longrightarrow> m < 2 ^ 64 \<Longrightarrow> n < 2 ^ 64 \<Longrightarrow>
     saturating_mul (of_nat m) (of_nat n) = (of_nat (m * n) :: u64)"
  "m < 2 ^ 64 \<Longrightarrow> n < 2 ^ 64 \<Longrightarrow>
     saturating_sub (of_nat m) (of_nat n) = (of_nat (m - n) :: u64)"
  by (simp_all add: saturating_add_def saturating_mul_def saturating_sub_def unsigned_of_nat
      take_bit_nat_eq_self word_le_nat_alt of_nat_diff)

lemma chroma_cases:
  assumes "sps_ok f" obtains "chroma_of f = 0" | "chroma_of f = 1" | "chroma_of f = 2" | "chroma_of f = 3"
proof -
  have "chroma_of f \<le> 3" using assms by (simp add: sps_ok_def chroma_of_def)
  then show ?thesis using that by linarith
qed

text \<open>Cropping in words is cropping in numbers.\<close>

lemma cropped_word:
  assumes "code_ok a" "code_ok b" "k \<le> 2" "w < 2 ^ 40"
  shows "saturating_sub (of_nat w) (saturating_mul (saturating_add (of_nat a) (of_nat b)) (of_nat k)) =
           (of_nat (w - (a + b) * k) :: u64)"
    and "j \<le> 2 \<Longrightarrow> saturating_sub (of_nat w)
           (saturating_mul (saturating_mul (saturating_add (of_nat a) (of_nat b)) (of_nat k)) (of_nat j)) =
           (of_nat (w - (a + b) * k * j) :: u64)"
proof -
  have k: "(a + b) * k \<le> (a + b) * 2" using assms(3) by (intro mult_le_mono) auto
  then show "saturating_sub (of_nat w) (saturating_mul (saturating_add (of_nat a) (of_nat b)) (of_nat k)) =
           (of_nat (w - (a + b) * k) :: u64)"
    using assms by (simp add: saturating_of_nat del: of_nat_add of_nat_mult)
  assume "j \<le> 2"
  then have "(a + b) * k * j \<le> (a + b) * 2 * 2" using k by (intro mult_le_mono [OF k])
  then show "saturating_sub (of_nat w)
           (saturating_mul (saturating_mul (saturating_add (of_nat a) (of_nat b)) (of_nat k)) (of_nat j)) =
           (of_nat (w - (a + b) * k * j) :: u64)"
    using assms k \<open>j \<le> 2\<close> by (simp add: saturating_of_nat del: of_nat_add of_nat_mult)
qed

lemma decodes_size:
  assumes ok: "sps_ok f"
  shows "decodes (read_size (of_nat (chroma_of f))) (size_bits f)
           (of_nat (picture_width f), of_nat (picture_height f))"
proof -
  have codes: "code_ok (sf_width f)" "code_ok (sf_height f)" using ok by (simp_all add: sps_ok_def)
  define w where "w = 16 * (sf_width f + 1)"
  define h where "h = (if sf_frames_only f then 16 else 32) * (sf_height f + 1)"
  have units: "saturating_mul (saturating_add (of_nat (sf_width f)) 1) 16 = (of_nat w :: u64)"
    "saturating_mul (saturating_add (of_nat (sf_height f)) 1)
      (if (of_bool (sf_frames_only f) :: u64) = 1 then 16 else 32) = (of_nat h :: u64)"
    using codes saturating_of_nat(1) [of "sf_width f" 1] saturating_of_nat(2) [of "sf_width f + 1" 16]
      saturating_of_nat(1) [of "sf_height f" 1] saturating_of_nat(2) [of "sf_height f + 1" 16]
      saturating_of_nat(2) [of "sf_height f + 1" 32]
    by (simp_all add: w_def h_def mult.commute)
  have small: "w < 2 ^ 40" "h < 2 ^ 40" using codes by (simp_all add: w_def h_def)
  define tail where "tail cropped =
      (if cropped = 1 then
       act_bind read_unsigned (\<lambda>left. act_bind read_unsigned (\<lambda>right.
       act_bind read_unsigned (\<lambda>upper. act_bind read_unsigned (\<lambda>lower.
       let (unit_x, unit_y) = (if of_nat (chroma_of f) = (1 :: u64) then (2, 2)
             else if of_nat (chroma_of f) = (2 :: u64) then (2, 1) else (1, 1))
       in ret (saturating_sub (of_nat w) (saturating_mul (saturating_add left right) unit_x),
               saturating_sub (of_nat h)
                 (saturating_mul (saturating_mul (saturating_add upper lower) unit_y)
                    (if (of_bool (sf_frames_only f) :: u64) = 1 then 1 else 2)))))))
     else ret (of_nat w, of_nat h))" for cropped :: u64
  let ?size = "(of_nat (picture_width f), of_nat (picture_height f)) :: u64 \<times> u64"
  have tail: "decodes (act_bind (read_bits 1) tail)
      (case sf_crop f of None \<Rightarrow> [False]
       | Some (left, right, upper, lower) \<Rightarrow> [True] @ golomb left @ golomb right @ golomb upper @ golomb lower) ?size"
  proof (cases "sf_crop f")
    case None
    have "decodes (tail (of_bool False)) [] ?size"
      by (simp add: tail_def decodes_ret picture_width_def picture_height_def crop_width_def
          crop_height_def None w_def h_def)
    then have "decodes (act_bind (read_bits 1) tail) [False] ?size"
      by (rule decodes_bind_last [OF read_bits_one])
    then show ?thesis by (simp add: None)
  next
    case (Some c)
    then obtain l r u d where crop: "sf_crop f = Some (l, r, u, d)" by (cases c) auto
    have lrud: "code_ok l" "code_ok r" "code_ok u" "code_ok d" using ok by (simp_all add: sps_ok_def crop)
    have size: "picture_width f = w - crop_width f" "picture_height f = h - crop_height f"
      by (simp_all add: picture_width_def picture_height_def w_def h_def)
    note W = cropped_word(1) [OF lrud(1,2) _ small(1)] and H = cropped_word(2) [OF lrud(3,4) _ small(2)]
    have last_step: "(let (unit_x, unit_y) = (if of_nat (chroma_of f) = (1 :: u64) then (2, 2)
             else if of_nat (chroma_of f) = (2 :: u64) then (2, 1) else (1, 1))
       in ret (saturating_sub (of_nat w) (saturating_mul (saturating_add (of_nat l) (of_nat r)) unit_x),
               saturating_sub (of_nat h)
                 (saturating_mul (saturating_mul (saturating_add (of_nat u) (of_nat d)) unit_y)
                    (if (of_bool (sf_frames_only f) :: u64) = 1 then 1 else 2)))) = (ret ?size :: (u64 \<times> u64) bits_act)"
      using W [of 1, simplified] W [of 2, simplified] H [of 1 1, simplified] H [of 1 2, simplified]
        H [of 2 1, simplified] H [of 2 2, simplified]
      by - (rule chroma_cases [OF ok]; cases "sf_frames_only f";
        simp add: size crop_width_def crop_height_def crop)
    have "decodes (tail (of_bool True)) (golomb l @ golomb r @ golomb u @ golomb d) ?size"
      unfolding tail_def of_bool_eq(2) if_P [OF refl]
      by (rule decodes_bind [OF decodes_code [OF lrud(1)]] decodes_bind [OF decodes_code [OF lrud(2)]]
          decodes_bind [OF decodes_code [OF lrud(3)]] decodes_bind_last [OF decodes_code [OF lrud(4)]])+
         (simp only: last_step decodes_ret)
    then have "decodes (act_bind (read_bits 1) tail) ([True] @ golomb l @ golomb r @ golomb u @ golomb d) ?size"
      by (rule decodes_bind [OF read_bits_one])
    then show ?thesis by (simp add: crop)
  qed
  have only: "(of_bool (sf_frames_only f) :: u64) = 0 \<longleftrightarrow> \<not> sf_frames_only f" by simp
  have "decodes (act_bind (if (of_bool (sf_frames_only f) :: u64) = 0 then read_bits 1 else ret 0) (\<lambda>_.
      act_bind (read_bits 1) (\<lambda>_. act_bind (read_bits 1) tail)))
      ((if \<not> sf_frames_only f then [sf_adaptive f] else []) @ [sf_direct f] @
       (case sf_crop f of None \<Rightarrow> [False]
       | Some (left, right, upper, lower) \<Rightarrow> [True] @ golomb left @ golomb right @ golomb upper @ golomb lower)) ?size"
    unfolding only
    by (intro decodes_bind [OF decodes_optional_bit] decodes_bind [OF read_bits_one] tail)
  then have rest: "decodes (act_bind (if (of_bool (sf_frames_only f) :: u64) = 0 then read_bits 1 else ret 0) (\<lambda>_.
      act_bind (read_bits 1) (\<lambda>_. act_bind (read_bits 1) tail)))
      ((if sf_frames_only f then [] else [sf_adaptive f]) @ [sf_direct f] @
       (case sf_crop f of None \<Rightarrow> [False]
       | Some (left, right, upper, lower) \<Rightarrow> [True] @ golomb left @ golomb right @ golomb upper @ golomb lower)) ?size"
    by (cases "sf_frames_only f") simp_all
  show ?thesis
    unfolding read_size_def size_bits_def
    by (rule decodes_bind [OF decodes_bind_last [OF decodes_code [OF codes(1)] decodes_ret]]
        decodes_bind [OF decodes_bind_last [OF decodes_code [OF codes(2)] decodes_ret]]
        decodes_bind [OF read_bits_one])+
       (use rest in \<open>simp only: Let_def units tail_def [abs_def]\<close>)
qed

lemma decodes_sps:
  assumes "sps_ok f"
  shows "decodes sps_size (sps_bits f) (of_nat (picture_width f), of_nat (picture_height f))"
proof -
  have p: "(of_nat (sf_profile f mod 2 ^ 8) :: u64) = of_nat (sf_profile f)"
    using assms by (simp add: sps_ok_def)
  show ?thesis
    unfolding sps_size_def sps_bits_def
    by (intro decodes_bind [OF decodes_read_bits] decodes_bind [OF decodes_chroma [OF assms p]]
        decodes_bind [OF decodes_code] decodes_bind [OF decodes_order] decodes_bind [OF read_bits_one]
        decodes_size [OF assms])
       (use assms in \<open>simp_all add: sps_ok_def\<close>)
qed

text \<open>
  C32.  The picture size is the one the encoder wrote: a sequence parameter set whose bytes, before the
  emulation prevention bytes were put in, begin with the bits of the fields \<open>f\<close> is read as the coded
  size of \<open>f\<close> less its cropping, for every profile without scaling matrices, every order-count kind
  and every chroma format; a size of zero or above 65535 is refused.
\<close>

theorem picture_size_roundtrip:
  assumes "sps_ok f" "bits_of rbsp = sps_bits f @ padding"
  shows "dimensions (insert_emulation 0 rbsp) =
    (if 2 ^ 16 \<le> picture_width f
     then Inl (MuxMalformed ''the sequence parameter set declares no usable width'')
     else if 2 ^ 16 \<le> picture_height f
     then Inl (MuxMalformed ''the sequence parameter set declares no usable height'')
     else if picture_width f = 0 \<or> picture_height f = 0
     then Inl (MuxMalformed ''the sequence parameter set declares an empty picture'')
     else Inr (of_nat (picture_width f), of_nat (picture_height f)))"
proof -
  let ?r = "\<lparr>bt_bytes = rbsp, bt_position = 0\<rparr>"
  have "remaining ?r = sps_bits f @ padding" using assms(2) by (simp add: remaining_def)
  then have run: "fst (sps_size ?r) = Inr (of_nat (picture_width f), of_nat (picture_height f))"
    using decodes_sps [OF assms(1)] by (fastforce simp: decodes_def)
  have "picture_width f \<le> 16 * (sf_width f + 1)" "picture_height f \<le> 32 * (sf_height f + 1)"
    by (auto simp: picture_width_def picture_height_def intro: le_trans [OF diff_le_self])
  then have "picture_width f < 2 ^ 64" "picture_height f < 2 ^ 64"
    using assms(1) by (simp_all add: sps_ok_def)
  then have unat: "unat (of_nat (picture_width f) :: u64) = picture_width f"
    "unat (of_nat (picture_height f) :: u64) = picture_height f"
    by (simp_all add: unsigned_of_nat take_bit_nat_eq_self)
  have narrow: "try_u16 w = (if unat w < 2 ^ 16 then Some (of_nat (unat w)) else None)" for w :: u64
  proof -
    have "uint w < 2 ^ 16 \<longleftrightarrow> unat w < 2 ^ 16" 
      using of_nat_less_iff [of "unat w" "2 ^ 16", where 'a = int] by simp
    then show ?thesis by (simp only: try_u16_def of_nat_unat)
  qed
  have zero: "(of_nat n :: u16) = 0 \<longleftrightarrow> n = 0" if "n < 2 ^ 16" for n
    using that by (auto simp: word_of_nat_eq_0_iff dest: dvd_imp_le)
  show ?thesis
    by (simp add: dimensions_def remove_insert_emulation run narrow unat zero)
qed

text \<open>A baseline picture of 640 by 480 samples whose lower 8 rows are cropped.\<close>

definition demo_sps :: sps_fields where
  "demo_sps =
     \<lparr>sf_head = 0x67, sf_profile = 66, sf_constraints = 0, sf_level = 30, sf_id = 0, sf_chroma = 0,
      sf_plane = False, sf_luma_depth = 0, sf_chroma_depth = 0, sf_bypass = False, sf_frame_num = 0,
      sf_order = OrderLsb 0, sf_refs = 1, sf_gaps = False, sf_width = 39, sf_height = 29,
      sf_frames_only = True, sf_adaptive = False, sf_direct = True, sf_crop = Some (0, 0, 0, 4)\<rparr>"

theorem picture_size_roundtrip_witness:
  "dimensions (insert_emulation 0 [0x67, 66, 0, 30, 0xF4, 5, 1, 0xEF, 0xCB]) = Inr (640, 472)"
proof -
  have ok: "sps_ok demo_sps"
    by (simp add: demo_sps_def sps_ok_def)
  have bits: "bits_of [0x67, 66, 0, 30, 0xF4, 5, 1, 0xEF, 0xCB] = sps_bits demo_sps @ [True]"
    by code_simp
  have "picture_width demo_sps = 640" "picture_height demo_sps = 472"
    by (simp_all add: picture_width_def picture_height_def crop_width_def crop_height_def demo_sps_def
        chroma_of_def high_profile_def chroma_profiles_def)
  then show ?thesis using picture_size_roundtrip [OF ok bits] by simp
qed

end
