(* ===== verification/Mux.thy ===== *)
theory Mux
  imports Ts Bit_Fields
begin

text \<open>
  The muxer (\<open>crates/gunda-stream/src/mux.rs\<close>): the boxes of an ISO media file, the
  initialization segment and the fragments of a fragmented input, the tables of the output, and the
  layout of the file that holds two tracks.  A file on disk is its bytes; the reads of a source
  return pieces of the sizes the disk chooses, and a write meets the error of its sink.
\<close>

section \<open>Constants\<close>

definition max_metadata_box :: u64 where "max_metadata_box = 16 * 1024 * 1024"
definition copy_buffer :: int where "copy_buffer = 256 * 1024"

definition identity_matrix :: "u8 list" where
  "identity_matrix =
     [0, 1, 0, 0, 0, 0, 0, 0, 0, 0, 0, 0,
      0, 0, 0, 0, 0, 1, 0, 0, 0, 0, 0, 0,
      0, 0, 0, 0, 0, 0, 0, 0, 0x40, 0, 0, 0]"

abbreviation zeros :: "nat \<Rightarrow> u8 list" where "zeros n \<equiv> replicate n 0"

abbreviation be32 :: "u32 \<Rightarrow> u8 list" where "be32 \<equiv> to_be_bytes 4"

text \<open>A length as a \<open>u32\<close>: the cast keeps the low bits, \<open>try_len\<close> refuses what does not fit.\<close>

definition len32 :: "'a list \<Rightarrow> u32" where "len32 xs = of_nat (length xs)"

definition len64 :: "'a list \<Rightarrow> u64" where "len64 xs = of_nat (length xs)"

section \<open>Samples and tracks\<close>

record mux_sample =
  sm_offset :: u64
  sm_size :: u32
  sm_duration :: u32
  sm_composition :: i32
  sm_sync :: bool

record demuxed_track =
  dt_tkhd :: "u8 list"
  dt_mdhd :: "u8 list"
  dt_hdlr :: "u8 list"
  dt_media_header :: "string \<times> u8 list"
  dt_dinf :: "u8 list"
  dt_stsd :: "u8 list"
  dt_timescale :: u32
  dt_samples :: "mux_sample list"
  dt_duration :: u64

record mux_track =
  tk_path :: string
  tk_demuxed :: demuxed_track

definition sample_bytes :: "demuxed_track \<Rightarrow> u64" where
  "sample_bytes t = sum_list (map (\<lambda>s. ucast (sm_size s)) (dt_samples t))"

text \<open>The timescale of a track is never zero (\<open>Mux_Correct\<close>), so the division is Rust's.\<close>

definition duration_in :: "u32 \<Rightarrow> demuxed_track \<Rightarrow> u64" where
  "duration_in timescale t =
     saturating_mul (dt_duration t) (ucast timescale) div ucast (dt_timescale t)"

section \<open>Boxes built from a body\<close>

definition boxed :: "string \<Rightarrow> u8 list \<Rightarrow> u8 list" where
  "boxed kind body = be32 (saturating_add (len32 body) 8) @ as_bytes kind @ body"

definition full_box_payload :: "u32 \<Rightarrow> u8 list \<Rightarrow> u8 list" where
  "full_box_payload flags body = [0] @ drop 1 (be32 flags) @ body"

definition full_box_body :: "string \<Rightarrow> u32 \<Rightarrow> u8 list \<Rightarrow> u8 list" where
  "full_box_body kind flags body = boxed kind (full_box_payload flags body)"

definition track_header_body :: "u16 \<Rightarrow> u16 \<Rightarrow> u16 \<Rightarrow> u8 list" where
  "track_header_body volume width height =
     [0, 0, 0, 7] @ zeros 4 @ zeros 4 @ zeros 4 @ zeros 4 @ zeros 4 @ zeros 8 @ zeros 2 @ zeros 2 @
     to_be_bytes 2 volume @ zeros 2 @ identity_matrix @
     be32 (push_bit 16 (ucast width)) @ be32 (push_bit 16 (ucast height))"

definition media_header_body :: "u32 \<Rightarrow> u8 list" where
  "media_header_body timescale =
     [0, 0, 0, 0] @ zeros 4 @ zeros 4 @ be32 timescale @ zeros 4 @ [0x55, 0xC4] @ [0, 0]"

definition handler_body :: "string \<Rightarrow> u8 list" where
  "handler_body kind =
     [0, 0, 0, 0] @ zeros 4 @ as_bytes kind @ zeros 12 @
     (if kind = ''vide'' then as_bytes ''VideoHandler'' @ [0] else as_bytes ''SoundHandler'' @ [0])"

definition dinf_body :: "u8 list" where
  "dinf_body = boxed ''dref'' ([0, 0, 0, 0] @ be32 1 @ full_box_body ''url '' 1 [])"

definition sample_table :: "u8 list \<Rightarrow> u8 list" where
  "sample_table entry = [0, 0, 0, 0] @ be32 1 @ entry"

definition video_sample_entry :: "u8 list \<Rightarrow> u16 \<Rightarrow> u16 \<Rightarrow> u8 list" where
  "video_sample_entry configuration width height =
     boxed ''avc1''
       (zeros 6 @ to_be_bytes 2 (1 :: u16) @ zeros 16 @ to_be_bytes 2 width @ to_be_bytes 2 height @
        be32 0x00480000 @ be32 0x00480000 @ zeros 4 @ to_be_bytes 2 (1 :: u16) @ zeros 32 @
        to_be_bytes 2 (0x0018 :: u16) @ to_be_bytes 2 (0xFFFF :: u16) @
        boxed ''avcC'' configuration @ boxed ''pasp'' [0, 0, 0, 1, 0, 0, 0, 1])"

text \<open>An MPEG-4 descriptor: its tag, its length in one or four bytes and its payload.\<close>

definition descriptor :: "u8 list \<Rightarrow> u8 \<Rightarrow> u8 list \<Rightarrow> u8 list" where
  "descriptor out tag payload =
     (let len = length payload in
      out @ [tag] @
      (if len < 0x80 then [of_nat len]
       else [or 0x80 (and (of_nat (drop_bit 21 len)) 0x7F), or 0x80 (and (of_nat (drop_bit 14 len)) 0x7F),
             or 0x80 (and (of_nat (drop_bit 7 len)) 0x7F), and (of_nat len) 0x7F]) @
      payload)"

definition esds_body :: "u16 \<Rightarrow> u32 \<Rightarrow> u8 list" where
  "esds_body configuration average_bitrate =
     (let decoder = descriptor ([0x40, 0x15] @ zeros 3 @ be32 average_bitrate @ be32 average_bitrate)
            0x05 (to_be_bytes 2 configuration);
          es = descriptor (descriptor (zeros 2 @ [0]) 0x04 decoder) 0x06 [0x02];
          body = descriptor [] 0x03 es
      in full_box_body ''esds'' 0 body)"

definition audio_sample_entry :: "u16 \<Rightarrow> u16 \<Rightarrow> u32 \<Rightarrow> u32 \<Rightarrow> u8 list" where
  "audio_sample_entry configuration channel_count sample_rate average_bitrate =
     boxed ''mp4a''
       (zeros 6 @ to_be_bytes 2 (1 :: u16) @ zeros 8 @ to_be_bytes 2 channel_count @
        to_be_bytes 2 (16 :: u16) @ zeros 4 @ be32 (push_bit 16 sample_rate) @
        esds_body configuration average_bitrate)"

definition average_bitrate :: "u64 \<Rightarrow> u64 \<Rightarrow> u32 \<Rightarrow> u32" where
  "average_bitrate bytes duration timescale =
     (if duration = 0 \<or> timescale = 0 then 0
      else
        let bits = saturating_mul (saturating_mul bytes 8) (ucast timescale);
            rate = bits div duration
        in if uint rate < 2 ^ 32 then ucast rate else - 1)"

section \<open>A track of an elementary stream\<close>

definition from_elementary_sample :: "elementary_sample \<Rightarrow> mux_sample" where
  "from_elementary_sample s =
     \<lparr>sm_offset = es_offset s, sm_size = es_size s, sm_duration = es_duration s,
      sm_composition = es_composition s, sm_sync = es_sync s\<rparr>"

definition from_elementary :: "elementary_track \<Rightarrow> demuxed_track" where
  "from_elementary track =
     (let bytes = sum_list (map (\<lambda>s. ucast (es_size s)) (et_samples track));
          (handler, media_header, stsd, width, height, volume) =
            (case et_codec track of
               CodecAvc configuration width height \<Rightarrow>
                 (''vide'', (''vmhd'', full_box_payload 1 (zeros 8)),
                  sample_table (video_sample_entry configuration width height), width, height, 0)
             | CodecAac configuration channel_count sample_rate \<Rightarrow>
                 (''soun'', (''smhd'', full_box_payload 0 (zeros 4)),
                  sample_table (audio_sample_entry configuration channel_count sample_rate
                    (average_bitrate bytes (et_duration track) (et_timescale track))),
                  0, 0, 0x0100))
      in \<lparr>dt_tkhd = track_header_body volume width height,
          dt_mdhd = media_header_body (et_timescale track),
          dt_hdlr = handler_body handler,
          dt_media_header = media_header,
          dt_dinf = dinf_body,
          dt_stsd = stsd,
          dt_timescale = et_timescale track,
          dt_samples = map from_elementary_sample (et_samples track),
          dt_duration = et_duration track\<rparr>)"

section \<open>Reading a track file\<close>

text \<open>A position past the largest signed offset cannot be sought.\<close>

definition seek_to :: "u64 \<Rightarrow> mux_error + unit" where
  "seek_to position = (if 2 ^ 63 \<le> uint position then Inl (MuxIo (OtherIo 22)) else Inr ())"

definition read_exact_at :: "source_file \<Rightarrow> u64 \<Rightarrow> nat \<Rightarrow> mux_error + u8 list" where
  "read_exact_at f position count =
     rbind (seek_to position) (\<lambda>_.
     ok_or (MuxIo (unwrap_or UnexpectedEof (src_error f)))
       (slice_get (src_bytes f) (unat position) (unat position + count)))"

record box_header =
  bh_kind :: "u8 list"
  bh_start :: u64
  bh_body :: u64
  bh_length :: u64

definition bh_end :: "box_header \<Rightarrow> u64" where
  "bh_end h = saturating_add (bh_body h) (bh_length h)"

definition read_header :: "source_file \<Rightarrow> u64 \<Rightarrow> u64 \<Rightarrow> mux_error + box_header" where
  "read_header f position file_length =
     rbind (read_exact_at f position 8) (\<lambda>head.
     let size = from_be_bytes (take 4 head) :: u32; kind = drop 4 head in
     if size = 0 then
       Inr \<lparr>bh_kind = kind, bh_start = position, bh_body = saturating_add position 8,
            bh_length = saturating_sub file_length (saturating_add position 8)\<rparr>
     else if size = 1 then Inl (MuxMalformed ''a box states its size in 64 bits'')
     else if size < 8 then Inl (MuxMalformed ''a box states an impossible size'')
     else Inr \<lparr>bh_kind = kind, bh_start = position, bh_body = saturating_add position 8,
               bh_length = ucast size - 8\<rparr>)"

definition read_body :: "source_file \<Rightarrow> box_header \<Rightarrow> mux_error + u8 list" where
  "read_body f h =
     (if max_metadata_box < bh_length h
      then Inl (MuxMalformed ''a metadata box is implausibly large'')
      else read_exact_at f (bh_body h) (unat (bh_length h)))"

text \<open>The boxes directly inside one box, as the list their iterator yields.\<close>

function boxes :: "u8 list \<Rightarrow> (u8 list \<times> u8 list) list" where
  "boxes rest =
     (if length rest < 8 then []
      else
        let declared = unat (from_be_bytes (take 4 rest) :: u32);
            size = (if declared = 0 then length rest else declared)
        in if size < 8 \<or> length rest < size then []
           else (take 4 (drop 4 rest), take (size - 8) (drop 8 rest)) # boxes (drop size rest))"
  by pat_completeness auto
termination by (relation "measure length") auto

declare boxes.simps [simp del]

fun find_map :: "('a \<Rightarrow> 'b option) \<Rightarrow> 'a list \<Rightarrow> 'b option" where
  "find_map f [] = None"
| "find_map f (x # xs) = or_else (f x) (find_map f xs)"

primrec find_box :: "string list \<Rightarrow> u8 list \<Rightarrow> u8 list option" where
  "find_box [] body = None"
| "find_box (kind # rest) body =
     find_map (\<lambda>(k, inner).
       if k \<noteq> as_bytes kind then None
       else if rest = [] then Some inner
       else find_box rest inner) (boxes body)"

section \<open>A cursor over a box's payload\<close>

record box_reader =
  rd_bytes :: "u8 list"
  rd_position :: nat

type_synonym 'a read_act = "(box_reader, mux_error, 'a) act"

definition reader_new :: "u8 list \<Rightarrow> box_reader" where
  "reader_new bytes = \<lparr>rd_bytes = bytes, rd_position = 0\<rparr>"

definition short_box :: mux_error where
  "short_box = MuxMalformed ''a box is shorter than it claims''"

definition rd_take :: "nat \<Rightarrow> u8 list read_act" where
  "rd_take count r =
     (let stop = rd_position r + count in
      if 2 ^ 64 \<le> int stop then (Inl (MuxMalformed ''a box is longer than it claims''), r)
      else (case slice_get (rd_bytes r) (rd_position r) stop of
              None \<Rightarrow> (Inl short_box, r)
            | Some bytes \<Rightarrow> (Inr bytes, r\<lparr>rd_position := stop\<rparr>)))"

definition rd_u8 :: "u8 read_act" where
  "rd_u8 r =
     (case nth_get (rd_bytes r) (rd_position r) of
        None \<Rightarrow> (Inl short_box, r)
      | Some value \<Rightarrow> (Inr value, r\<lparr>rd_position := rd_position r + 1\<rparr>))"

definition rd_u32 :: "u32 read_act" where
  "rd_u32 = act_bind (rd_take 4) (\<lambda>b. ret (from_be_bytes b))"

definition rd_i32 :: "i32 read_act" where
  "rd_i32 = act_bind (rd_take 4) (\<lambda>b. ret (from_be_bytes b))"

definition rd_u64 :: "u64 read_act" where
  "rd_u64 = act_bind (rd_take 8) (\<lambda>b. ret (from_be_bytes b))"

definition rd_full :: "(u8 \<times> u32) read_act" where
  "rd_full =
     act_bind rd_u8 (\<lambda>version.
     act_bind rd_u8 (\<lambda>a.
     act_bind rd_u8 (\<lambda>b.
     act_bind rd_u8 (\<lambda>c. ret (version, from_be_bytes [0, a, b, c])))))"

definition rd_skip :: "nat \<Rightarrow> unit read_act" where
  "rd_skip count = act_bind (rd_take count) (\<lambda>_. ret ())"

text \<open>A field that is there when its flag is set.\<close>

definition rd_flagged :: "u32 \<Rightarrow> u32 \<Rightarrow> 'a read_act \<Rightarrow> 'a option read_act" where
  "rd_flagged flags flag m =
     (if and flags flag \<noteq> 0 then act_bind m (\<lambda>x. ret (Some x)) else ret None)"

definition read_timescale :: "u8 list \<Rightarrow> u32 option" where
  "read_timescale body =
     result_ok (fst (act_bind rd_full (\<lambda>(version, _).
       act_bind (rd_skip (if version = 1 then 16 else 8)) (\<lambda>_. rd_u32)) (reader_new body)))"

definition read_decode_time :: "u8 list \<Rightarrow> u64 option" where
  "read_decode_time body =
     result_ok (fst (act_bind rd_full (\<lambda>(version, _).
       if version = 1 then rd_u64 else act_bind rd_u32 (\<lambda>t. ret (ucast t))) (reader_new body)))"

section \<open>Fragments\<close>

record track_header =
  th_base_data_offset :: "u64 option"
  th_sample_description_index :: "u32 option"
  th_default_sample_duration :: "u32 option"
  th_default_sample_size :: "u32 option"
  th_default_sample_flags :: "u32 option"

definition track_header_act :: "track_header read_act" where
  "track_header_act =
     act_bind rd_full (\<lambda>(_, flags).
     act_bind rd_u32 (\<lambda>_.
     act_bind (rd_flagged flags 0x000001 rd_u64) (\<lambda>base.
     act_bind (rd_flagged flags 0x000002 rd_u32) (\<lambda>index.
     act_bind (rd_flagged flags 0x000008 rd_u32) (\<lambda>duration.
     act_bind (rd_flagged flags 0x000010 rd_u32) (\<lambda>size.
     act_bind (rd_flagged flags 0x000020 rd_u32) (\<lambda>sample_flags.
     ret \<lparr>th_base_data_offset = base, th_sample_description_index = index,
          th_default_sample_duration = duration, th_default_sample_size = size,
          th_default_sample_flags = sample_flags\<rparr>)))))))"

definition track_header_read :: "u8 list \<Rightarrow> mux_error + track_header" where
  "track_header_read body = fst (track_header_act (reader_new body))"

record fragments =
  fr_samples :: "mux_sample list"
  fr_decoded :: u64
  fr_origin :: "u64 option"

definition fragments_default :: fragments where
  "fragments_default = \<lparr>fr_samples = [], fr_decoded = 0, fr_origin = None\<rparr>"

definition carry_gap :: "u64 \<Rightarrow> fragments \<Rightarrow> mux_error + fragments" where
  "carry_gap gap fr =
     (if 2 ^ 32 \<le> uint gap then Inl MuxTooLarge
      else if fr_samples fr = [] then Inl (MuxMalformed ''a fragment precedes every sample'')
      else
        let final = List.last (fr_samples fr) in
        rbind (ok_or MuxTooLarge (checked_add (sm_duration final) (ucast gap))) (\<lambda>duration.
        Inr (fr\<lparr>fr_samples := butlast (fr_samples fr) @ [final\<lparr>sm_duration := duration\<rparr>],
                fr_decoded := fr_decoded fr + gap\<rparr>)))"

definition align :: "u64 \<Rightarrow> fragments \<Rightarrow> mux_error + fragments" where
  "align base fr =
     (case fr_origin fr of
        None \<Rightarrow> Inr (fr\<lparr>fr_origin := Some base\<rparr>)
      | Some origin \<Rightarrow>
          let expected = saturating_add origin (fr_decoded fr) in
          if base = expected then Inr fr
          else if expected < base then carry_gap (base - expected) fr
          else Inl (MuxMalformed ''two fragments cover the same decode time''))"

text \<open>\<open>checked_add_signed\<close>.\<close>

definition checked_add_signed :: "u64 \<Rightarrow> int \<Rightarrow> u64 option" where
  "checked_add_signed a d =
     (if 0 \<le> uint a + d \<and> uint a + d < 2 ^ 64 then Some (word_of_int (uint a + d)) else None)"

definition rd_or_default :: "u32 \<Rightarrow> u32 \<Rightarrow> u32 option \<Rightarrow> string \<Rightarrow> u32 read_act" where
  "rd_or_default flags flag def missing =
     (if and flags flag \<noteq> 0 then rd_u32 else lift_result (ok_or (MuxUnsupported missing) def))"

text \<open>One sample of a run: the fields its flags announce, and where the next sample starts.\<close>

definition run_sample ::
  "u8 \<Rightarrow> u32 \<Rightarrow> track_header \<Rightarrow> u32 option \<Rightarrow> u64 \<Rightarrow> fragments \<Rightarrow> (u64 \<times> fragments) read_act" where
  "run_sample version flags header first_flags offset fr =
     act_bind (rd_or_default flags 0x000100 (th_default_sample_duration header)
                 ''a sample declares no duration'') (\<lambda>duration.
     act_bind (rd_or_default flags 0x000200 (th_default_sample_size header)
                 ''a sample declares no size'') (\<lambda>size.
     act_bind (if and flags 0x000400 \<noteq> 0 then act_bind rd_u32 (\<lambda>f. ret (Some f))
               else ret (or_else first_flags (th_default_sample_flags header))) (\<lambda>sample_flags.
     act_bind (if and flags 0x000800 \<noteq> 0
               then (if version = 0 then act_bind rd_u32 (\<lambda>c. ret (ucast c)) else rd_i32)
               else ret 0) (\<lambda>composition.
     act_bind (lift_result (ok_or MuxTooLarge (checked_add (fr_decoded fr) (ucast duration)))) (\<lambda>decoded.
     act_bind (lift_result (ok_or MuxTooLarge (checked_add offset (ucast size)))) (\<lambda>offset'.
     ret (offset',
          fr\<lparr>fr_samples := fr_samples fr @
               [\<lparr>sm_offset = offset, sm_size = size, sm_duration = duration,
                 sm_composition = composition,
                 sm_sync = (case sample_flags of None \<Rightarrow> True | Some f \<Rightarrow> and f 0x00010000 = 0)\<rparr>],
             fr_decoded := decoded\<rparr>)))))))"

text \<open>The flags announced for the first sample are only the first sample's.\<close>

primrec run_samples ::
  "nat \<Rightarrow> u8 \<Rightarrow> u32 \<Rightarrow> track_header \<Rightarrow> u32 option \<Rightarrow> u64 \<Rightarrow> fragments \<Rightarrow> (u64 \<times> fragments) read_act" where
  "run_samples 0 version flags header first_flags offset fr = ret (offset, fr)"
| "run_samples (Suc n) version flags header first_flags offset fr =
     act_bind (run_sample version flags header first_flags offset fr) (\<lambda>(offset', fr').
     run_samples n version flags header None offset' fr')"

definition run_act ::
  "track_header \<Rightarrow> u64 \<Rightarrow> u64 option \<Rightarrow> fragments \<Rightarrow> (u64 \<times> fragments) read_act" where
  "run_act header fragment cursor fr =
     act_bind rd_full (\<lambda>(version, flags).
     act_bind rd_u32 (\<lambda>count.
     act_bind (rd_flagged flags 0x000001 rd_i32) (\<lambda>data_offset.
     act_bind (rd_flagged flags 0x000004 rd_u32) (\<lambda>first_flags.
     let base = unwrap_or fragment (th_base_data_offset header) in
     act_bind (lift_result (case data_offset of
                 Some d \<Rightarrow> ok_or (MuxMalformed ''a run starts outside its file'')
                             (checked_add_signed base (sint d))
               | None \<Rightarrow> ok_or (MuxMalformed ''a run has nowhere to start'') cursor)) (\<lambda>offset.
     run_samples (unat count) version flags header first_flags offset fr)))))"

definition push_run ::
  "u8 list \<Rightarrow> track_header \<Rightarrow> u64 \<Rightarrow> u64 option \<times> fragments \<Rightarrow> mux_error + u64 option \<times> fragments" where
  "push_run run header fragment s =
     rmap (\<lambda>(offset, fr). (Some offset, fr))
       (fst (run_act header fragment (fst s) (snd s) (reader_new run)))"

definition push_traf :: "u8 list \<Rightarrow> u64 \<Rightarrow> fragments \<Rightarrow> mux_error + fragments" where
  "push_traf traf fragment fr =
     rbind (ok_or (MuxMalformed ''a fragment has no track header'') (find_box [''tfhd''] traf)) (\<lambda>body.
     rbind (track_header_read body) (\<lambda>header.
     if th_sample_description_index header \<notin> {None, Some 1}
     then Inl (MuxUnsupported ''a fragment selects a second sample entry'')
     else
       rbind (case Option.bind (find_box [''tfdt''] traf) read_decode_time of
                None \<Rightarrow> Inr fr | Some base \<Rightarrow> align base fr) (\<lambda>aligned.
       rmap snd
         (each (\<lambda>(kind, run) s.
             if kind = as_bytes ''trun'' then push_run run header fragment s else Inr s)
            (boxes traf) (None, aligned)))))"

definition push_fragment :: "u8 list \<Rightarrow> u64 \<Rightarrow> fragments \<Rightarrow> mux_error + fragments" where
  "push_fragment moof start =
     each (\<lambda>(kind, traf) fr. if kind = as_bytes ''traf'' then push_traf traf start fr else Inr fr)
       (boxes moof)"

section \<open>The initialization segment\<close>

definition read_initialization :: "u8 list \<Rightarrow> fragments \<Rightarrow> mux_error + demuxed_track" where
  "read_initialization moov fragments =
     (let missing = ok_or (MuxMalformed ''the initialization segment describes no track'') in
      rbind (missing (find_box [''trak''] moov)) (\<lambda>track.
      rbind (missing (find_box [''tkhd''] track)) (\<lambda>tkhd.
      rbind (missing (find_box [''mdia'', ''mdhd''] track)) (\<lambda>mdhd.
      rbind (ok_or (MuxMalformed ''the initialization segment describes no track'')
               (read_timescale mdhd)) (\<lambda>timescale.
      if timescale = 0 then Inl (MuxMalformed ''the media header declares no timescale'')
      else
        rbind (missing (find_box [''mdia'', ''hdlr''] track)) (\<lambda>hdlr.
        rbind (ok_or (MuxMalformed ''the initialization segment describes no track'')
                 (find_map (\<lambda>kind. map_option (\<lambda>body. (kind, body))
                     (find_box [''mdia'', ''minf'', kind] track)) [''vmhd'', ''smhd'', ''nmhd'']))
          (\<lambda>media_header.
        rbind (missing (find_box [''mdia'', ''minf'', ''dinf''] track)) (\<lambda>dinf.
        rbind (missing (find_box [''mdia'', ''minf'', ''stbl'', ''stsd''] track)) (\<lambda>stsd.
        if fr_samples fragments = [] then Inl (MuxMalformed ''the track carries no samples'')
        else
          Inr \<lparr>dt_tkhd = tkhd, dt_mdhd = mdhd, dt_hdlr = hdlr, dt_media_header = media_header,
               dt_dinf = dinf, dt_stsd = stsd, dt_timescale = timescale,
               dt_samples = fr_samples fragments, dt_duration = fr_decoded fragments\<rparr>)))))))))"

text \<open>The top-level boxes of the file; every header moves the position forward.\<close>

lemma read_header_advances:
  assumes "read_header f position len = Inr h" shows "position < bh_end h"
proof -
  from assms have "seek_to position = Inr ()"
    by (cases "seek_to position") (simp_all add: read_header_def read_exact_at_def)
  then have "uint position < 2 ^ 63"
    unfolding seek_to_def by (metis Inl_Inr_False not_le)
  then have "int (unat position) < int (2 ^ 63)" by (simp only: uint_nat of_nat_power of_nat_numeral)
  then have "unat position < 2 ^ 63" by (simp only: of_nat_less_iff)
  then have "unat position < unat (saturating_add position 8)"
    by (simp add: unat_saturating_add)
  also have "saturating_add position 8 = bh_body h"
  proof -
    obtain head where "read_exact_at f position 8 = Inr head"
      using assms by (cases "read_exact_at f position 8") (simp_all add: read_header_def)
    with assms show ?thesis by (auto simp: read_header_def Let_def split: if_splits)
  qed
  also have "unat (bh_body h) \<le> unat (bh_end h)"
    using saturating_add_ge(1) by (simp add: bh_end_def word_le_nat_alt)
  finally show ?thesis by (simp add: word_less_nat_alt)
qed

function demux_top ::
  "source_file \<Rightarrow> u64 \<Rightarrow> u64 \<Rightarrow> u8 list option \<Rightarrow> fragments \<Rightarrow> mux_error + u8 list option \<times> fragments" where
  "demux_top f len position init fr =
     (if saturating_add position 8 \<le> len then
        rbind (read_header f position len) (\<lambda>h.
          if bh_kind h = as_bytes ''moov''
          then rbind (read_body f h) (\<lambda>body. demux_top f len (bh_end h) (Some body) fr)
          else if bh_kind h = as_bytes ''moof''
          then rbind (read_body f h) (\<lambda>body.
                 rbind (push_fragment body (bh_start h) fr) (demux_top f len (bh_end h) init))
          else demux_top f len (bh_end h) init fr)
      else Inr (init, fr))"
  by pat_completeness auto
termination
proof (relation "measure (\<lambda>(f, len, position, _). 2 ^ 64 - unat position)", goal_cases)
  case (2 f len position init fr h) then show ?case
    using read_header_advances [of f position len h] unat_less [of "bh_end h"]
    by (simp add: word_less_nat_alt)
next
  case (3 f len position init fr h) then show ?case
    using read_header_advances [of f position len h] unat_less [of "bh_end h"]
    by (simp add: word_less_nat_alt)
next
  case (4 f len position init fr h) then show ?case
    using read_header_advances [of f position len h] unat_less [of "bh_end h"]
    by (simp add: word_less_nat_alt)
qed simp

declare demux_top.simps [simp del]

definition demux_iso :: "source_file \<Rightarrow> mux_error + demuxed_track" where
  "demux_iso f =
     rbind (demux_top f (len64 (src_bytes f)) 0 None fragments_default) (\<lambda>(init, fragments).
     rbind (ok_or (MuxMalformed ''there is no initialization segment'') init) (\<lambda>initialization.
     read_initialization initialization fragments))"

section \<open>Fields the writer replaces\<close>

definition splice :: "nat \<Rightarrow> 'a list \<Rightarrow> 'a list \<Rightarrow> 'a list" where
  "splice position field bytes =
     take position bytes @ field @ drop (position + length field) bytes"

datatype header_field = FieldIdentifier | FieldDuration

fun track_header_field :: "u8 \<Rightarrow> header_field \<Rightarrow> nat \<times> nat" where
  "track_header_field version FieldIdentifier = (if version = 1 then (20, 4) else (12, 4))"
| "track_header_field version FieldDuration = (if version = 1 then (28, 8) else (20, 4))"

definition media_header_field :: "u8 \<Rightarrow> nat \<times> nat" where
  "media_header_field version = (if version = 1 then (24, 8) else (16, 4))"

definition short_header :: mux_error where
  "short_header = MuxMalformed ''a header is too short for its fields''"

definition put_u32 :: "nat \<times> nat \<Rightarrow> u32 \<Rightarrow> u8 list \<Rightarrow> mux_error + u8 list" where
  "put_u32 field value body =
     rbind (ok_or short_header (slice_get body (fst field) (fst field + 4))) (\<lambda>_.
     Inr (splice (fst field) (be32 value) body))"

definition try_u32 :: "u64 \<Rightarrow> mux_error + u32" where
  "try_u32 w = (if uint w < 2 ^ 32 then Inr (ucast w) else Inl MuxTooLarge)"

definition put_duration :: "nat \<times> nat \<Rightarrow> u64 \<Rightarrow> u8 list \<Rightarrow> mux_error + u8 list" where
  "put_duration field value body =
     rbind (ok_or short_header (slice_get body (fst field) (fst field + snd field))) (\<lambda>_.
     if snd field = 8 then Inr (splice (fst field) (to_be_bytes 8 value) body)
     else rmap (\<lambda>v. splice (fst field) (be32 v) body) (try_u32 value))"

section \<open>The sample tables\<close>

text \<open>A run of equal values grows by one, another value starts the next run.\<close>

definition push_value :: "'a \<Rightarrow> (u32 \<times> 'a) list \<Rightarrow> mux_error + (u32 \<times> 'a) list" where
  "push_value value runs =
     (if runs \<noteq> [] \<and> snd (List.last runs) = value
      then rmap (\<lambda>count. butlast runs @ [(count, value)])
             (ok_or MuxTooLarge (checked_add (fst (List.last runs)) 1))
      else Inr (runs @ [(1, value)]))"

definition table_len :: "'a list \<Rightarrow> mux_error + u32" where
  "table_len xs = ok_or MuxTooLarge (try_len xs)"

definition run_table :: "u8 \<Rightarrow> (u32 \<times> u32) list \<Rightarrow> mux_error + u8 list" where
  "run_table version runs =
     rmap (\<lambda>len. [version, 0, 0, 0] @ be32 len @ concat (map (\<lambda>(count, v). be32 count @ be32 v) runs))
       (table_len runs)"

definition build_stts :: "mux_sample list \<Rightarrow> mux_error + u8 list" where
  "build_stts samples = rbind (each push_value (map sm_duration samples) []) (run_table 0)"

definition build_ctts :: "mux_sample list \<Rightarrow> mux_error + u8 list option" where
  "build_ctts samples =
     (if list_all (\<lambda>s. sm_composition s = 0) samples then Inr None
      else
        let version = (if list_ex (\<lambda>s. sint (sm_composition s) < 0) samples then 1 else 0) in
        rbind (each push_value (map sm_composition samples) []) (\<lambda>runs.
        rmap Some (run_table version runs)))"

definition build_stsc :: "mux_sample list \<Rightarrow> mux_error + u8 list" where
  "build_stsc samples =
     rmap (\<lambda>len. [0, 0, 0, 0] @ be32 1 @ be32 1 @ be32 len @ be32 1) (table_len samples)"

definition build_stsz :: "mux_sample list \<Rightarrow> mux_error + u8 list" where
  "build_stsz samples =
     rmap (\<lambda>len. [0, 0, 0, 0] @ be32 0 @ be32 len @ concat (map (\<lambda>s. be32 (sm_size s)) samples))
       (table_len samples)"

text \<open>The numbers of the sync samples, counted from one.\<close>

fun sync_numbers :: "nat \<Rightarrow> mux_sample list \<Rightarrow> mux_error + u32 list" where
  "sync_numbers index [] = Inr []"
| "sync_numbers index (s # samples) =
     (if sm_sync s then
        if int index + 1 < 2 ^ 32
        then rmap (\<lambda>numbers. of_nat (index + 1) # numbers) (sync_numbers (index + 1) samples)
        else Inl MuxTooLarge
      else sync_numbers (index + 1) samples)"

definition build_stss :: "mux_sample list \<Rightarrow> mux_error + u8 list option" where
  "build_stss samples =
     (if list_all sm_sync samples then Inr None
      else
        rbind (sync_numbers 0 samples) (\<lambda>numbers.
        rmap (\<lambda>len. Some ([0, 0, 0, 0] @ be32 len @ concat (map be32 numbers))) (table_len numbers)))"

section \<open>The box writer\<close>

text \<open>The buffer, and the positions of the chunk offsets that are filled in later.\<close>

record mux_writer =
  wr_bytes :: "u8 list"
  wr_patch :: "nat list"

definition writer_default :: mux_writer where
  "writer_default = \<lparr>wr_bytes = [], wr_patch = []\<rparr>"

definition put_bytes :: "u8 list \<Rightarrow> mux_writer \<Rightarrow> mux_writer" where
  "put_bytes bytes w = w\<lparr>wr_bytes := wr_bytes w @ bytes\<rparr>"

definition writer_open :: "string \<Rightarrow> mux_writer \<Rightarrow> mux_writer" where
  "writer_open kind w = put_bytes ([0, 0, 0, 0] @ as_bytes kind) w"

definition writer_close :: "nat \<Rightarrow> mux_writer \<Rightarrow> mux_writer" where
  "writer_close position w =
     (let size = int (length (wr_bytes w) - position);
          len = (if size < 2 ^ 32 then word_of_int size else - 1)
      in w\<lparr>wr_bytes := splice position (be32 len) (wr_bytes w)\<rparr>)"

definition writer_full :: "string \<Rightarrow> u8 list \<Rightarrow> mux_writer \<Rightarrow> mux_writer" where
  "writer_full kind body w =
     writer_close (length (wr_bytes w)) (put_bytes body (writer_open kind w))"

definition writer_container ::
  "string \<Rightarrow> (mux_writer \<Rightarrow> mux_error + mux_writer) \<Rightarrow> mux_writer \<Rightarrow> mux_error + mux_writer" where
  "writer_container kind build w =
     rmap (writer_close (length (wr_bytes w))) (build (writer_open kind w))"

definition write_stco :: "bool \<Rightarrow> mux_writer \<Rightarrow> mux_writer" where
  "write_stco large_offsets w =
     (let opened = writer_open (if large_offsets then ''co64'' else ''stco'') w;
          counted = put_bytes ([0, 0, 0, 0] @ be32 1) opened;
          marked = counted\<lparr>wr_patch := wr_patch counted @ [length (wr_bytes counted)]\<rparr>
      in writer_close (length (wr_bytes w))
           (put_bytes (if large_offsets then zeros 8 else zeros 4) marked))"

definition build_ftyp :: "u8 list" where
  "build_ftyp =
     wr_bytes (writer_close 0
       (put_bytes (concat (map as_bytes [''isom'', ''iso2'', ''mp41'', ''mp42'']))
       (put_bytes (be32 0x00000200)
       (put_bytes (as_bytes ''isom'') (writer_open ''ftyp'' writer_default)))))"

definition mvhd_body :: "u32 \<Rightarrow> u64 \<Rightarrow> nat \<Rightarrow> mux_error + u8 list" where
  "mvhd_body timescale duration track_count =
     rbind (try_u32 duration) (\<lambda>duration32.
     if 2 ^ 32 \<le> int track_count + 1 then Inl MuxTooLarge
     else
       Inr ([0] @ [0, 0, 0] @ be32 0 @ be32 0 @ be32 timescale @ be32 duration32 @ be32 0x00010000 @
            to_be_bytes 2 (0x0100 :: u16) @ [0, 0] @ zeros 8 @ identity_matrix @ zeros 24 @
            be32 (of_nat (track_count + 1))))"

definition write_mvhd :: "u32 \<Rightarrow> u64 \<Rightarrow> nat \<Rightarrow> mux_writer \<Rightarrow> mux_error + mux_writer" where
  "write_mvhd timescale duration track_count w =
     rmap (\<lambda>body. writer_full ''mvhd'' body w) (mvhd_body timescale duration track_count)"

definition head_byte :: "u8 list \<Rightarrow> u8" where
  "head_byte bytes = unwrap_or 0 (nth_get bytes 0)"

definition patched_tkhd :: "u32 \<Rightarrow> u32 \<Rightarrow> demuxed_track \<Rightarrow> mux_error + u8 list" where
  "patched_tkhd identifier movie_timescale t =
     (let version = head_byte (dt_tkhd t) in
      rbind (put_u32 (track_header_field version FieldIdentifier) identifier (dt_tkhd t))
        (put_duration (track_header_field version FieldDuration) (duration_in movie_timescale t)))"

definition patched_mdhd :: "demuxed_track \<Rightarrow> mux_error + u8 list" where
  "patched_mdhd t = put_duration (media_header_field (head_byte (dt_mdhd t))) (dt_duration t) (dt_mdhd t)"

text \<open>A box the table may leave out.\<close>

definition writer_optional :: "string \<Rightarrow> u8 list option \<Rightarrow> mux_writer \<Rightarrow> mux_writer" where
  "writer_optional kind body w = (case body of None \<Rightarrow> w | Some b \<Rightarrow> writer_full kind b w)"

record sample_tables =
  tb_stts :: "u8 list"
  tb_ctts :: "u8 list option"
  tb_stsc :: "u8 list"
  tb_stsz :: "u8 list"
  tb_stss :: "u8 list option"

definition build_tables :: "mux_sample list \<Rightarrow> mux_error + sample_tables" where
  "build_tables samples =
     rbind (build_stts samples) (\<lambda>stts.
     rbind (build_ctts samples) (\<lambda>ctts.
     rbind (build_stsc samples) (\<lambda>stsc.
     rbind (build_stsz samples) (\<lambda>stsz.
     rbind (build_stss samples) (\<lambda>stss.
     Inr \<lparr>tb_stts = stts, tb_ctts = ctts, tb_stsc = stsc, tb_stsz = stsz, tb_stss = stss\<rparr>)))))"

text \<open>Statements of the writer in sequence; \<open>full\<close> and \<open>write_stco\<close> cannot fail.\<close>

primrec writer_steps ::
  "(mux_writer \<Rightarrow> mux_error + mux_writer) list \<Rightarrow> mux_writer \<Rightarrow> mux_error + mux_writer" where
  "writer_steps [] w = Inr w"
| "writer_steps (step # steps) w = rbind (step w) (writer_steps steps)"

definition infallible :: "(mux_writer \<Rightarrow> mux_writer) \<Rightarrow> mux_writer \<Rightarrow> mux_error + mux_writer" where
  "infallible step w = Inr (step w)"

definition write_stbl ::
  "demuxed_track \<Rightarrow> sample_tables \<Rightarrow> bool \<Rightarrow> mux_writer \<Rightarrow> mux_error + mux_writer" where
  "write_stbl t tables large_offsets =
     writer_steps
       [infallible (writer_full ''stsd'' (dt_stsd t)),
        infallible (writer_full ''stts'' (tb_stts tables)),
        infallible (writer_optional ''ctts'' (tb_ctts tables)),
        infallible (writer_full ''stsc'' (tb_stsc tables)),
        infallible (writer_full ''stsz'' (tb_stsz tables)),
        infallible (writer_optional ''stss'' (tb_stss tables)),
        infallible (write_stco large_offsets)]"

definition write_minf ::
  "demuxed_track \<Rightarrow> sample_tables \<Rightarrow> bool \<Rightarrow> mux_writer \<Rightarrow> mux_error + mux_writer" where
  "write_minf t tables large_offsets =
     writer_steps
       [infallible (writer_full (fst (dt_media_header t)) (snd (dt_media_header t))),
        infallible (writer_full ''dinf'' (dt_dinf t)),
        writer_container ''stbl'' (write_stbl t tables large_offsets)]"

definition write_mdia ::
  "demuxed_track \<Rightarrow> u8 list \<Rightarrow> sample_tables \<Rightarrow> bool \<Rightarrow> mux_writer \<Rightarrow> mux_error + mux_writer" where
  "write_mdia t mdhd tables large_offsets =
     writer_steps
       [infallible (writer_full ''mdhd'' mdhd),
        infallible (writer_full ''hdlr'' (dt_hdlr t)),
        writer_container ''minf'' (write_minf t tables large_offsets)]"

text \<open>The headers with their fields replaced and the tables, all before the first box is opened.\<close>

definition trak_parts ::
  "nat \<Rightarrow> u32 \<Rightarrow> demuxed_track \<Rightarrow> mux_error + u8 list \<times> u8 list \<times> sample_tables" where
  "trak_parts index movie_timescale t =
     (if 2 ^ 32 \<le> int index + 1 then Inl MuxTooLarge
      else
        rbind (patched_tkhd (of_nat (index + 1)) movie_timescale t) (\<lambda>tkhd.
        rbind (patched_mdhd t) (\<lambda>mdhd.
        rbind (build_tables (dt_samples t)) (\<lambda>tables. Inr (tkhd, mdhd, tables)))))"

fun write_boxes ::
  "demuxed_track \<Rightarrow> bool \<Rightarrow> mux_writer \<Rightarrow> u8 list \<times> u8 list \<times> sample_tables \<Rightarrow> mux_error + mux_writer" where
  "write_boxes t large_offsets w (tkhd, mdhd, tables) =
     writer_container ''trak''
       (writer_steps
         [infallible (writer_full ''tkhd'' tkhd),
          writer_container ''mdia'' (write_mdia t mdhd tables large_offsets)]) w"

definition write_trak ::
  "demuxed_track \<Rightarrow> nat \<Rightarrow> u32 \<Rightarrow> bool \<Rightarrow> mux_writer \<Rightarrow> mux_error + mux_writer" where
  "write_trak t index movie_timescale large_offsets w =
     rbind (trak_parts index movie_timescale t) (write_boxes t large_offsets w)"

fun write_traks ::
  "u32 \<Rightarrow> bool \<Rightarrow> (nat \<times> demuxed_track) list \<Rightarrow> mux_writer \<Rightarrow> mux_error + mux_writer" where
  "write_traks movie_timescale large_offsets [] w = Inr w"
| "write_traks movie_timescale large_offsets ((index, t) # its) w =
     rbind (write_trak t index movie_timescale large_offsets w)
       (write_traks movie_timescale large_offsets its)"

definition build_moov ::
  "demuxed_track list \<Rightarrow> u32 \<Rightarrow> u64 \<Rightarrow> bool \<Rightarrow> mux_error + mux_writer" where
  "build_moov tracks movie_timescale movie_duration large_offsets =
     writer_container ''moov''
       (writer_steps
         [write_mvhd movie_timescale movie_duration (length tracks),
          write_traks movie_timescale large_offsets (List.enumerate 0 tracks)])
       writer_default"

section \<open>The layout of the file\<close>

definition movie_timescale :: u32 where "movie_timescale = 1000"

definition mdat_header_size :: "u64 \<Rightarrow> nat" where
  "mdat_header_size payload = (if uint payload > 2 ^ 32 - 1 - 8 then 16 else 8)"

text \<open>Where each track's samples start, from the end of the header on.\<close>

fun layout_starts :: "u64 \<Rightarrow> u64 list \<Rightarrow> mux_error + u64 list" where
  "layout_starts start [] = Inr []"
| "layout_starts start (count # counts) =
     rbind (ok_or MuxTooLarge (checked_add start count)) (\<lambda>next_start.
     rmap (\<lambda>starts. start # starts) (layout_starts next_start counts))"

definition patch_offset :: "bool \<Rightarrow> nat \<times> u64 \<Rightarrow> u8 list \<Rightarrow> mux_error + u8 list" where
  "patch_offset large_offsets place moov =
     (let missing = MuxMalformed ''a chunk offset was not written'' in
      if large_offsets
      then rbind (ok_or missing (slice_get moov (fst place) (fst place + 8))) (\<lambda>_.
           Inr (splice (fst place) (to_be_bytes 8 (snd place)) moov))
      else rbind (try_u32 (snd place)) (\<lambda>start.
           rbind (ok_or missing (slice_get moov (fst place) (fst place + 4))) (\<lambda>_.
           Inr (splice (fst place) (be32 start) moov))))"

definition mdat_header :: "u64 \<Rightarrow> mux_error + u8 list" where
  "mdat_header payload =
     (if mdat_header_size payload = 8
      then rmap (\<lambda>size. be32 size @ as_bytes ''mdat'') (try_u32 (payload + 8))
      else rmap (\<lambda>size. be32 1 @ as_bytes ''mdat'' @ to_be_bytes 8 size)
             (ok_or MuxTooLarge (checked_add payload 16)))"

definition movie_duration :: "demuxed_track list \<Rightarrow> u64" where
  "movie_duration tracks = fold max (map (duration_in movie_timescale) tracks) 0"

definition payload_bytes :: "demuxed_track list \<Rightarrow> u64" where
  "payload_bytes tracks = sum_list (map sample_bytes tracks)"

text \<open>Everything up to the first sample byte, with the length of the whole file.\<close>

definition choose_moov :: "bool \<Rightarrow> demuxed_track list \<Rightarrow> mux_error + bool \<times> mux_writer" where
  "choose_moov force_large_offsets tracks =
     rbind (build_moov tracks movie_timescale (movie_duration tracks) False) (\<lambda>compact.
     let compact_header = of_nat (length build_ftyp + length (wr_bytes compact) + 8);
         large_offsets = (force_large_offsets \<or>
           uint (saturating_add compact_header (payload_bytes tracks)) > 2 ^ 32 - 1) in
     if large_offsets
     then rmap (\<lambda>w. (True, w)) (build_moov tracks movie_timescale (movie_duration tracks) True)
     else Inr (False, compact))"

definition fill_offsets ::
  "bool \<Rightarrow> demuxed_track list \<Rightarrow> u8 list \<Rightarrow> nat list \<Rightarrow> mux_error + u64 \<times> u8 list" where
  "fill_offsets large_offsets tracks moov patch =
     (let payload = payload_bytes tracks;
          header = of_nat (length build_ftyp + length moov + mdat_header_size payload) in
      rbind (ok_or MuxTooLarge (checked_add header payload)) (\<lambda>file_length.
      rbind (layout_starts header (map sample_bytes tracks)) (\<lambda>starts.
      rmap (Pair file_length) (each (patch_offset large_offsets) (zip patch starts) moov))))"

definition layout_moov :: "bool \<Rightarrow> demuxed_track list \<Rightarrow> mux_error + u64 \<times> u8 list" where
  "layout_moov force_large_offsets tracks =
     rbind (choose_moov force_large_offsets tracks) (\<lambda>(large_offsets, w).
     fill_offsets large_offsets tracks (wr_bytes w) (wr_patch w))"

section \<open>Copying the samples\<close>

text \<open>A read of the file returns at least one byte before its end, and as many as the disk likes.\<close>

definition read_some :: "(nat \<Rightarrow> nat) \<Rightarrow> source_file \<Rightarrow> u64 \<Rightarrow> nat \<Rightarrow> mux_error + u8 list" where
  "read_some pieces f position wanted =
     (let data = take (max 1 (min (pieces (unat position)) wanted)) (drop (unat position) (src_bytes f))
      in case src_error f of
           Some k \<Rightarrow> if data = [] then Inl (MuxIo k) else Inr data
         | None \<Rightarrow> Inr data)"

function copy_sample ::
  "(nat \<Rightarrow> nat) \<Rightarrow> source_file \<Rightarrow> nat \<Rightarrow> u64 \<times> sink \<Rightarrow> mux_error + u64 \<times> sink" where
  "copy_sample pieces f remaining s =
     (if remaining = 0 then Inr s
      else
        rbind (read_some pieces f (fst s) (nat (min (int remaining) copy_buffer))) (\<lambda>data.
        if data = [] then Inl (MuxMalformed ''a sample runs past the end of its track'')
        else
          rbind (write_all data (snd s)) (\<lambda>out.
          copy_sample pieces f (remaining - length data) (fst s + of_nat (length data), out))))"
  by pat_completeness auto
termination by (relation "measure (\<lambda>(pieces, f, remaining, s). remaining)") auto

declare copy_sample.simps [simp del]

definition copy_one ::
  "(nat \<Rightarrow> nat) \<Rightarrow> source_file \<Rightarrow> mux_sample \<Rightarrow> u64 \<times> sink \<Rightarrow> mux_error + u64 \<times> sink" where
  "copy_one pieces f sample s =
     rbind (if sm_offset sample \<noteq> fst s
            then rmap (\<lambda>_. (sm_offset sample, snd s)) (seek_to (sm_offset sample))
            else Inr s)
       (copy_sample pieces f (unat (sm_size sample)))"

definition copy_samples ::
  "(nat \<Rightarrow> nat) \<Rightarrow> io_kind + source_file \<Rightarrow> mux_sample list \<Rightarrow> sink \<Rightarrow> mux_error + sink" where
  "copy_samples pieces source samples out =
     rbind (map_err MuxIo source) (\<lambda>f.
     rmap snd (each (copy_one pieces f) samples (0, out)))"

section \<open>The disk\<close>

text \<open>
  The files by path; the error that reads of a file meet after its bytes, the sizes its reads come
  in, and what creating a file gives: the sink its bytes go to, and what a failed write leaves.
\<close>

record mux_disk =
  dk_files :: "string \<Rightarrow> u8 list option"
  dk_read_error :: "string \<Rightarrow> io_kind option"
  dk_pieces :: "string \<Rightarrow> nat \<Rightarrow> nat"
  dk_create :: "string \<Rightarrow> io_kind + sink"
  dk_partial :: "string \<Rightarrow> u8 list"
  dk_remove_error :: "string \<Rightarrow> io_kind option"
  dk_temporary :: "string list"

type_synonym 'a disk_act = "(mux_disk, mux_error, 'a) act"

definition open_source :: "mux_disk \<Rightarrow> string \<Rightarrow> io_kind + source_file" where
  "open_source d path =
     (case dk_files d path of
        None \<Rightarrow> Inl NotFoundIo
      | Some bytes \<Rightarrow> Inr \<lparr>src_bytes = bytes, src_error = dk_read_error d path\<rparr>)"

text \<open>A file is written by \<open>m\<close>: it is there once it was created, whole when \<open>m\<close> succeeds.\<close>

definition write_file :: "string \<Rightarrow> (sink \<Rightarrow> mux_error + 'a \<times> sink) \<Rightarrow> 'a disk_act" where
  "write_file path m d =
     (case dk_create d path of
        Inl k \<Rightarrow> (Inl (MuxIo k), d)
      | Inr out \<Rightarrow>
          (case m (out\<lparr>snk_bytes := []\<rparr>) of
             Inl e \<Rightarrow> (Inl e, d\<lparr>dk_files := (dk_files d)(path \<mapsto> dk_partial d path)\<rparr>)
           | Inr (x, out') \<Rightarrow> (Inr x, d\<lparr>dk_files := (dk_files d)(path \<mapsto> snk_bytes out')\<rparr>)))"

definition write_parts :: "string \<Rightarrow> mux_track list \<Rightarrow> u64 \<Rightarrow> u8 list \<Rightarrow> u64 disk_act" where
  "write_parts output tracks file_length moov d =
     write_file output (\<lambda>out.
       rbind (write_all build_ftyp out) (\<lambda>out.
       rbind (write_all moov out) (\<lambda>out.
       rbind (mdat_header (payload_bytes (map tk_demuxed tracks))) (\<lambda>mdat.
       rbind (write_all mdat out) (\<lambda>out.
       rbind (each (\<lambda>t. copy_samples (dk_pieces d (tk_path t)) (open_source d (tk_path t))
                         (dt_samples (tk_demuxed t))) tracks out) (\<lambda>out.
       rbind (flush_sink out) (\<lambda>_. Inr (file_length, out)))))))) d"

text \<open>The output path is another than the paths of the tracks: creating it would empty them.\<close>

definition write_output :: "string \<Rightarrow> mux_track list \<Rightarrow> bool \<Rightarrow> u64 disk_act" where
  "write_output output tracks force_large_offsets d =
     (case layout_moov force_large_offsets (map tk_demuxed tracks) of
        Inl e \<Rightarrow> (Inl e, d)
      | Inr (file_length, moov) \<Rightarrow> write_parts output tracks file_length moov d)"

text \<open>The pieces the reads of a whole file return, up to the first that is empty or fails.\<close>

function file_reads :: "(nat \<Rightarrow> nat) \<Rightarrow> io_kind option \<Rightarrow> nat \<Rightarrow> u8 list \<Rightarrow> (io_kind + u8 list) list" where
  "file_reads pieces read_error position rest =
     (if rest = [] then [case read_error of Some k \<Rightarrow> Inl k | None \<Rightarrow> Inr []]
      else
        let n = nat (max 1 (min (int (pieces position)) (64 * 1024)))
        in Inr (take n rest) # file_reads pieces read_error (position + n) (drop n rest))"
  by pat_completeness auto
termination by (relation "measure (\<lambda>(pieces, read_error, position, rest). length rest)") auto

declare file_reads.simps [simp del]

definition elementary_path :: "string \<Rightarrow> string" where
  "elementary_path path = path @ ''.elementary''"

definition reserve :: "string \<Rightarrow> string disk_act" where
  "reserve path d =
     (Inr (elementary_path path),
      d\<lparr>dk_temporary := dk_temporary d @ [elementary_path path]\<rparr>)"

definition read_track_head :: "string \<Rightarrow> u8 list disk_act" where
  "read_track_head path d =
     (rbind (map_err MuxIo (open_source d path)) (\<lambda>f. read_some (dk_pieces d path) f 0 sniff_bytes), d)"

definition elementary_of ::
  "string \<Rightarrow> (sink \<Rightarrow> mux_error + elementary_track \<times> sink) \<Rightarrow> mux_track disk_act" where
  "elementary_of path m =
     act_bind (reserve path) (\<lambda>elementary.
     act_bind (write_file elementary m) (\<lambda>track.
     ret \<lparr>tk_path = elementary, tk_demuxed = from_elementary track\<rparr>))"

definition read_track :: "string \<Rightarrow> mux_track disk_act" where
  "read_track path =
     act_bind (read_track_head path) (\<lambda>head.
     act_bind get_state (\<lambda>d.
     case sniff head False of
       Some CtTs \<Rightarrow> elementary_of path (\<lambda>out. demux (open_source d path) (Inr out))
     | Some CtAac \<Rightarrow>
         elementary_of path (\<lambda>out.
           demux_adts (rmap (\<lambda>f. file_reads (dk_pieces d path) (src_error f) 0 (src_bytes f))
                         (open_source d path)) (Inr out))
     | _ \<Rightarrow>
         lift_result (rbind (map_err MuxIo (open_source d path)) (\<lambda>f.
           rmap (\<lambda>t. \<lparr>tk_path = path, tk_demuxed = t\<rparr>) (demux_iso f)))))"

text \<open>\<open>fs::remove_file\<close>, which the disk may refuse; the drop ignores whether it did.\<close>

definition remove_file :: "string \<Rightarrow> mux_disk \<Rightarrow> (io_kind + unit) \<times> mux_disk" where
  "remove_file path d =
     (case dk_remove_error d path of
        Some k \<Rightarrow> (Inl k, d)
      | None \<Rightarrow>
          (case dk_files d path of
             None \<Rightarrow> (Inl NotFoundIo, d)
           | Some _ \<Rightarrow> (Inr (), d\<lparr>dk_files := (dk_files d)(path := None)\<rparr>)))"

definition remove_temporaries :: "mux_disk \<Rightarrow> mux_disk" where
  "remove_temporaries d = fold (\<lambda>path d. snd (remove_file path d)) (dk_temporary d) d"

definition mux_mp4_with_layout :: "string \<Rightarrow> string \<Rightarrow> string \<Rightarrow> bool \<Rightarrow> u64 disk_act" where
  "mux_mp4_with_layout video audio output force_large_offsets d =
     (let (result, d') =
        act_bind (read_track video) (\<lambda>v.
        act_bind (read_track audio) (\<lambda>a.
        write_output output [v, a] force_large_offsets)) (d\<lparr>dk_temporary := []\<rparr>)
      in (result, remove_temporaries d'))"

definition mux_mp4 :: "string \<Rightarrow> string \<Rightarrow> string \<Rightarrow> u64 disk_act" where
  "mux_mp4 video audio output = mux_mp4_with_layout video audio output False"

end
