(* ===== verification/Mux_Correct.thy ===== *)
theory Mux_Correct
  imports Mux
begin

text \<open>
  The muxer's promises: the back-patching writer serialises a tree of boxes, the box iterator reads
  such a serialisation back, the run-length tables expand to the samples, a fragmented track lasts
  as long as its samples, and the file laid out has every chunk offset at its track's samples.
\<close>

section \<open>Boxes and their bytes\<close>

definition size_field :: "nat \<Rightarrow> u32" where
  "size_field n = (if int n < 2 ^ 32 then word_of_int (int n) else - 1)"

definition box_bytes :: "string \<Rightarrow> u8 list \<Rightarrow> u8 list" where
  "box_bytes kind body = be32 (size_field (8 + length body)) @ as_bytes kind @ body"

lemma length_as_bytes [simp]: "length (as_bytes s) = length s"
  by (simp add: as_bytes_def)

lemma length_box_bytes: "length kind = 4 \<Longrightarrow> length (box_bytes kind body) = 8 + length body"
  by (simp add: box_bytes_def)

lemma splice_append:
  "length field = length old \<Longrightarrow> splice (length a) field (a @ old @ b) = a @ field @ b"
  by (simp add: splice_def)

lemma length_splice: "position + length field \<le> length bytes \<Longrightarrow> length (splice position field bytes) = length bytes"
  by (simp add: splice_def)

lemma put_bytes_simps [simp]:
  "wr_bytes (put_bytes bytes w) = wr_bytes w @ bytes" "wr_patch (put_bytes bytes w) = wr_patch w"
  by (simp_all add: put_bytes_def)

lemma writer_open_simps [simp]:
  "wr_bytes (writer_open kind w) = wr_bytes w @ [0, 0, 0, 0] @ as_bytes kind"
  "wr_patch (writer_open kind w) = wr_patch w"
  by (simp_all add: writer_open_def)

lemma writer_close_patch [simp]: "wr_patch (writer_close position w) = wr_patch w"
  by (simp add: writer_close_def Let_def)

lemma writer_close_box:
  assumes "wr_bytes w' = a @ [0, 0, 0, 0] @ as_bytes kind @ body" "length kind = 4"
  shows "wr_bytes (writer_close (length a) w') = a @ box_bytes kind body"
proof -
  have "int (length (wr_bytes w') - length a) = int (8 + length body)" using assms by simp
  then have "wr_bytes (writer_close (length a) w') =
      splice (length a) (be32 (size_field (8 + length body))) (wr_bytes w')"
    unfolding writer_close_def size_field_def Let_def by simp
  then show ?thesis
    using assms splice_append [of "be32 (size_field (8 + length body))" "[0, 0, 0, 0]" a "as_bytes kind @ body"]
    by (simp add: box_bytes_def)
qed

lemma writer_full_simps:
  "length kind = 4 \<Longrightarrow> wr_bytes (writer_full kind body w) = wr_bytes w @ box_bytes kind body"
  "wr_patch (writer_full kind body w) = wr_patch w"
  by (simp_all add: writer_full_def writer_close_box)

lemma writer_optional_simps:
  "length kind = 4 \<Longrightarrow> wr_bytes (writer_optional kind body w) =
     wr_bytes w @ (case body of None \<Rightarrow> [] | Some b \<Rightarrow> box_bytes kind b)"
  "wr_patch (writer_optional kind body w) = wr_patch w"
  by (simp_all add: writer_optional_def writer_full_simps split: option.splits)

text \<open>A step of the writer that appends bytes, and the places of the offsets within them.\<close>

definition appends :: "(mux_writer \<Rightarrow> mux_error + mux_writer) \<Rightarrow> u8 list \<Rightarrow> nat list \<Rightarrow> bool" where
  "appends step bytes places \<longleftrightarrow>
     (\<forall>w. \<exists>w'. step w = Inr w' \<and> wr_bytes w' = wr_bytes w @ bytes \<and>
        wr_patch w' = wr_patch w @ map ((+) (length (wr_bytes w))) places)"

named_theorems appends_intros \<open>what the steps of the writer append\<close>

lemma appends_container [appends_intros]:
  assumes "appends build body places" "length kind = 4"
  shows "appends (writer_container kind build) (box_bytes kind body) (map ((+) 8) places)"
  unfolding appends_def
proof
  fix w
  obtain w' where w': "build (writer_open kind w) = Inr w'"
    "wr_bytes w' = wr_bytes (writer_open kind w) @ body"
    "wr_patch w' = wr_patch w @ map ((+) (length (wr_bytes (writer_open kind w)))) places"
    using assms(1) unfolding appends_def by (metis writer_open_simps(2))
  moreover have "wr_bytes (writer_close (length (wr_bytes w)) w') = wr_bytes w @ box_bytes kind body"
    by (rule writer_close_box) (simp_all add: w' assms(2))
  ultimately show "\<exists>w'. writer_container kind build w = Inr w' \<and>
      wr_bytes w' = wr_bytes w @ box_bytes kind body \<and>
      wr_patch w' = wr_patch w @ map ((+) (length (wr_bytes w))) (map ((+) 8) places)"
    by (simp add: writer_container_def assms(2) comp_def add.assoc)
qed

lemma appends_full [appends_intros]:
  "length kind = 4 \<Longrightarrow> appends (\<lambda>w. Inr (writer_full kind body w)) (box_bytes kind body) []"
  by (simp add: appends_def writer_full_simps)

lemma appends_optional [appends_intros]:
  "length kind = 4 \<Longrightarrow> appends (\<lambda>w. Inr (writer_optional kind body w))
     (case body of None \<Rightarrow> [] | Some b \<Rightarrow> box_bytes kind b) []"
  by (simp add: appends_def writer_optional_simps)

lemma appends_seq [appends_intros]:
  assumes "appends f a p" "appends g b q"
  shows "appends (\<lambda>w. rbind (f w) g) (a @ b) (p @ map ((+) (length a)) q)"
  unfolding appends_def
proof
  fix w
  obtain w1 where w1: "f w = Inr w1" "wr_bytes w1 = wr_bytes w @ a"
    "wr_patch w1 = wr_patch w @ map ((+) (length (wr_bytes w))) p"
    using assms(1) unfolding appends_def by blast
  obtain w2 where w2: "g w1 = Inr w2" "wr_bytes w2 = wr_bytes w1 @ b"
    "wr_patch w2 = wr_patch w1 @ map ((+) (length (wr_bytes w1))) q"
    using assms(2) unfolding appends_def by blast
  show "\<exists>w'. rbind (f w) g = Inr w' \<and> wr_bytes w' = wr_bytes w @ a @ b \<and>
      wr_patch w' = wr_patch w @ map ((+) (length (wr_bytes w))) (p @ map ((+) (length a)) q)"
    by (simp add: w1 w2 comp_def add.assoc)
qed

lemma appends_stco: 
  "appends (\<lambda>w. Inr (write_stco large w))
     (box_bytes (if large then ''co64'' else ''stco'')
        ([0, 0, 0, 0] @ be32 1 @ (if large then zeros 8 else zeros 4))) [16]"
proof -
  have "length (if large then ''co64'' else ''stco'') = 4" by simp
  from writer_close_box [OF _ this] show ?thesis
    unfolding appends_def write_stco_def Let_def by simp
qed

section \<open>The movie box as a tree\<close>

datatype box_tree = Leaf string "u8 list" | Node string "box_tree list"

primrec tree_bytes :: "box_tree \<Rightarrow> u8 list" where
  "tree_bytes (Leaf kind body) = box_bytes kind body"
| "tree_bytes (Node kind children) = box_bytes kind (concat (map tree_bytes children))"

definition forest_bytes :: "box_tree list \<Rightarrow> u8 list" where
  "forest_bytes ts = concat (map tree_bytes ts)"

lemma forest_bytes_simps [simp]:
  "forest_bytes [] = []" "forest_bytes (t # ts) = tree_bytes t @ forest_bytes ts"
  "forest_bytes (ts @ us) = forest_bytes ts @ forest_bytes us"
  by (simp_all add: forest_bytes_def)

lemma tree_bytes_Node: "tree_bytes (Node kind ts) = box_bytes kind (forest_bytes ts)"
  by (simp add: forest_bytes_def)

definition leaf_option :: "string \<Rightarrow> u8 list option \<Rightarrow> box_tree list" where
  "leaf_option kind body = (case body of None \<Rightarrow> [] | Some b \<Rightarrow> [Leaf kind b])"

lemma forest_leaf_option [simp]:
  "forest_bytes (leaf_option kind body) = (case body of None \<Rightarrow> [] | Some b \<Rightarrow> box_bytes kind b)"
  by (simp add: leaf_option_def split: option.splits)

text \<open>The chunk offset is what the file layout fills in; everything else is the track's.\<close>

definition offset_leaf :: "bool \<Rightarrow> u8 list \<Rightarrow> box_tree" where
  "offset_leaf large chunk =
     Leaf (if large then ''co64'' else ''stco'') ([0, 0, 0, 0] @ be32 1 @ chunk)"

definition stbl_tree :: "demuxed_track \<Rightarrow> sample_tables \<Rightarrow> bool \<Rightarrow> u8 list \<Rightarrow> box_tree" where
  "stbl_tree t tables large chunk =
     Node ''stbl'' (([Leaf ''stsd'' (dt_stsd t), Leaf ''stts'' (tb_stts tables)] @
       leaf_option ''ctts'' (tb_ctts tables) @
       [Leaf ''stsc'' (tb_stsc tables), Leaf ''stsz'' (tb_stsz tables)] @
       leaf_option ''stss'' (tb_stss tables)) @ [offset_leaf large chunk])"

definition minf_tree :: "demuxed_track \<Rightarrow> sample_tables \<Rightarrow> bool \<Rightarrow> u8 list \<Rightarrow> box_tree" where
  "minf_tree t tables large chunk =
     Node ''minf'' ([Leaf (fst (dt_media_header t)) (snd (dt_media_header t)), Leaf ''dinf'' (dt_dinf t)] @
       [stbl_tree t tables large chunk])"

definition trak_tree ::
  "demuxed_track \<Rightarrow> bool \<Rightarrow> u8 list \<times> u8 list \<times> sample_tables \<Rightarrow> u8 list \<Rightarrow> box_tree" where
  "trak_tree t large parts chunk =
     (case parts of (tkhd, mdhd, tables) \<Rightarrow>
        Node ''trak'' ([Leaf ''tkhd'' tkhd] @
          [Node ''mdia'' ([Leaf ''mdhd'' mdhd, Leaf ''hdlr'' (dt_hdlr t)] @
             [minf_tree t tables large chunk])]))"

definition placeholder :: "bool \<Rightarrow> u8 list" where
  "placeholder large = (if large then zeros 8 else zeros 4)"

text \<open>A tree whose bytes end with the chunk offset, whatever its value.\<close>

definition ends_in :: "nat \<Rightarrow> (u8 list \<Rightarrow> box_tree) \<Rightarrow> bool" where
  "ends_in n T \<longleftrightarrow> (\<exists>front. \<forall>chunk. length chunk = n \<longrightarrow> tree_bytes (T chunk) = front @ chunk)"

lemma ends_in_Leaf: "ends_in n (\<lambda>chunk. Leaf kind (body @ chunk))"
  unfolding ends_in_def
  by (rule exI [of _ "be32 (size_field (8 + (length body + n))) @ as_bytes kind @ body"])
     (simp add: box_bytes_def)

lemma ends_in_Node: 
  assumes "ends_in n T" shows "ends_in n (\<lambda>chunk. Node kind (ts @ [T chunk]))"
proof -
  obtain front where "length chunk = n \<Longrightarrow> tree_bytes (T chunk) = front @ chunk" for chunk
    using assms unfolding ends_in_def by blast
  then show ?thesis
    unfolding ends_in_def tree_bytes_Node
    by (intro exI [of _ "be32 (size_field (8 + (length (forest_bytes ts) + length front + n))) @
          as_bytes kind @ forest_bytes ts @ front"])
       (simp add: box_bytes_def add.assoc)
qed

lemma ends_in_offset: "ends_in n (offset_leaf large)"
  unfolding offset_leaf_def using ends_in_Leaf [of n _ "[0, 0, 0, 0] @ be32 1"] by simp

lemma ends_in_trak: "ends_in n (trak_tree t large parts)"
  unfolding trak_tree_def minf_tree_def stbl_tree_def
  by (cases parts) (simp only: prod.case ends_in_Node ends_in_offset)

section \<open>The writer serialises the tree\<close>

text \<open>A step that appends bytes whose last \<open>n\<close> are one offset to fill in.\<close>

definition appends_offset :: "nat \<Rightarrow> (mux_writer \<Rightarrow> mux_error + mux_writer) \<Rightarrow> u8 list \<Rightarrow> bool" where
  "appends_offset n step bytes \<longleftrightarrow> n \<le> length bytes \<and> appends step bytes [length bytes - n]"

lemma appends_offset_container:
  assumes "appends_offset n build body" "length kind = 4"
  shows "appends_offset n (writer_container kind build) (box_bytes kind body)"
  using appends_container [of build body _ kind] assms
  by (fastforce simp: appends_offset_def length_box_bytes)

lemma appends_offset_seq:
  assumes "appends f a []" "appends_offset n g b"
  shows "appends_offset n (\<lambda>w. rbind (f w) g) (a @ b)"
  using appends_seq [OF assms(1), of g b "[length b - n]"] assms(2)
  by (auto simp: appends_offset_def)

text \<open>Sequences of steps: the first ones append whole boxes, the last one the offset.\<close>

lemma appends_steps:
  "appends (writer_steps []) [] []"
  "appends step bytes [] \<Longrightarrow> appends (writer_steps steps) rest [] \<Longrightarrow>
     appends (writer_steps (step # steps)) (bytes @ rest) []"
  using appends_seq [of step bytes "[]" "writer_steps steps" rest "[]"] by (simp_all add: appends_def)

lemma appends_offset_steps:
  "appends_offset n step bytes \<Longrightarrow> appends_offset n (writer_steps [step]) bytes"
  "appends step a [] \<Longrightarrow> appends_offset n (writer_steps steps) b \<Longrightarrow>
     appends_offset n (writer_steps (step # steps)) (a @ b)"
proof -
  assume step: "appends_offset n step bytes"
  have "writer_steps [step] w = step w" for w by (cases "step w") simp_all
  then have "writer_steps [step] = step" by (rule ext)
  with step show "appends_offset n (writer_steps [step]) bytes" by simp
next
  assume "appends step a []" "appends_offset n (writer_steps steps) b"
  then have "appends_offset n (\<lambda>w. rbind (step w) (writer_steps steps)) (a @ b)" by (rule appends_offset_seq)
  moreover have "writer_steps (step # steps) = (\<lambda>w. rbind (step w) (writer_steps steps))" by (rule ext) simp
  ultimately show "appends_offset n (writer_steps (step # steps)) (a @ b)" by simp
qed

lemma appends_infallible:
  "length kind = 4 \<Longrightarrow> appends (infallible (writer_full kind body)) (tree_bytes (Leaf kind body)) []"
  "length kind = 4 \<Longrightarrow> appends (infallible (writer_optional kind option)) (forest_bytes (leaf_option kind option)) []"
  by (simp_all add: appends_def infallible_def writer_full_simps writer_optional_simps)

lemma appends_offset_stco:
  "appends_offset (length (placeholder large)) (infallible (write_stco large))
     (tree_bytes (offset_leaf large (placeholder large)))"
  using appends_stco [of large]
  by (cases large) (simp_all add: appends_offset_def offset_leaf_def placeholder_def length_box_bytes
      infallible_def appends_def)

lemma appends_offset_stbl:
  "appends_offset (length (placeholder large)) (writer_container ''stbl'' (write_stbl t tables large))
     (tree_bytes (stbl_tree t tables large (placeholder large)))"
proof -
  have "appends_offset (length (placeholder large)) (write_stbl t tables large)
      (tree_bytes (Leaf ''stsd'' (dt_stsd t)) @ tree_bytes (Leaf ''stts'' (tb_stts tables)) @
       forest_bytes (leaf_option ''ctts'' (tb_ctts tables)) @ tree_bytes (Leaf ''stsc'' (tb_stsc tables)) @
       tree_bytes (Leaf ''stsz'' (tb_stsz tables)) @ forest_bytes (leaf_option ''stss'' (tb_stss tables)) @
       tree_bytes (offset_leaf large (placeholder large)))"
    unfolding write_stbl_def
    by (intro appends_offset_steps appends_offset_stco) (rule appends_infallible, simp)+
  from appends_offset_container [OF this] show ?thesis
    unfolding stbl_tree_def tree_bytes_Node by simp
qed

text \<open>The kind of the media header is one of three the reader looks for, or what the muxer writes.\<close>

definition known_header :: "demuxed_track \<Rightarrow> bool" where
  "known_header t \<longleftrightarrow> fst (dt_media_header t) \<in> {''vmhd'', ''smhd'', ''nmhd''}"

lemma known_header_length: "known_header t \<Longrightarrow> length (fst (dt_media_header t)) = 4"
  by (auto simp: known_header_def)

lemma appends_offset_trak:
  assumes "known_header t" "trak_parts index ts t = Inr parts"
  shows "appends_offset (length (placeholder large)) (write_trak t index ts large)
     (tree_bytes (trak_tree t large parts (placeholder large)))"
proof -
  obtain tkhd mdhd tables where parts: "parts = (tkhd, mdhd, tables)" by (cases parts)
  let ?n = "length (placeholder large)"
  have minf: "appends_offset ?n (writer_container ''minf'' (write_minf t tables large))
      (tree_bytes (minf_tree t tables large (placeholder large)))"
  proof -
    have "appends_offset ?n (write_minf t tables large)
        (tree_bytes (Leaf (fst (dt_media_header t)) (snd (dt_media_header t))) @
         tree_bytes (Leaf ''dinf'' (dt_dinf t)) @ tree_bytes (stbl_tree t tables large (placeholder large)))"
      unfolding write_minf_def
      by (intro appends_offset_steps appends_offset_stbl)
         (rule appends_infallible, simp add: known_header_length [OF assms(1)])+
    from appends_offset_container [OF this] show ?thesis
      unfolding minf_tree_def tree_bytes_Node by simp
  qed
  have mdia: "appends_offset ?n (writer_container ''mdia'' (write_mdia t mdhd tables large))
      (tree_bytes (Node ''mdia'' ([Leaf ''mdhd'' mdhd, Leaf ''hdlr'' (dt_hdlr t)] @
         [minf_tree t tables large (placeholder large)])))"
  proof -
    have "appends_offset ?n (write_mdia t mdhd tables large)
        (tree_bytes (Leaf ''mdhd'' mdhd) @ tree_bytes (Leaf ''hdlr'' (dt_hdlr t)) @
         tree_bytes (minf_tree t tables large (placeholder large)))"
      unfolding write_mdia_def
      by (intro appends_offset_steps minf) (rule appends_infallible, simp)+
    from appends_offset_container [OF this] show ?thesis
      unfolding tree_bytes_Node by simp
  qed
  have "appends_offset ?n
      (writer_steps [infallible (writer_full ''tkhd'' tkhd), writer_container ''mdia'' (write_mdia t mdhd tables large)])
      (tree_bytes (Leaf ''tkhd'' tkhd) @ tree_bytes (Node ''mdia'' ([Leaf ''mdhd'' mdhd, Leaf ''hdlr'' (dt_hdlr t)] @
         [minf_tree t tables large (placeholder large)])))"
    by (intro appends_offset_steps mdia) (rule appends_infallible, simp)
  from appends_offset_container [OF this, of "''trak''"] show ?thesis
    using assms(2) by (simp add: write_trak_def [abs_def] parts trak_tree_def tree_bytes_Node)
qed

text \<open>The whole movie box, with the errors of its parts and the offsets it is given.\<close>

definition trak_forest ::
  "u32 \<Rightarrow> bool \<Rightarrow> ((nat \<times> demuxed_track) \<times> u8 list) list \<Rightarrow> mux_error + box_tree list" where
  "trak_forest ts large =
     traverse_list (\<lambda>((index, t), chunk).
       rmap (\<lambda>parts. trak_tree t large parts chunk) (trak_parts index ts t))"

definition moov_tree ::
  "demuxed_track list \<Rightarrow> u32 \<Rightarrow> u64 \<Rightarrow> bool \<Rightarrow> u8 list list \<Rightarrow> mux_error + box_tree" where
  "moov_tree tracks ts duration large chunks =
     rbind (mvhd_body ts duration (length tracks)) (\<lambda>mvhd.
     rmap (\<lambda>traks. Node ''moov'' (Leaf ''mvhd'' mvhd # traks))
       (trak_forest ts large (zip (List.enumerate 0 tracks) chunks)))"

fun offset_places :: "nat \<Rightarrow> nat \<Rightarrow> box_tree list \<Rightarrow> nat list" where
  "offset_places n position [] = []"
| "offset_places n position (t # ts) =
     (position + (length (tree_bytes t) - n)) # offset_places n (position + length (tree_bytes t)) ts"

abbreviation written :: "mux_writer \<Rightarrow> u8 list \<times> nat list" where
  "written w \<equiv> (wr_bytes w, wr_patch w)"

lemma each_write_trak:
  assumes "list_all (known_header \<circ> snd) its"
  shows "rmap written (write_traks ts large its w) =
     rmap (\<lambda>traks. (wr_bytes w @ forest_bytes traks,
             wr_patch w @ offset_places (length (placeholder large)) (length (wr_bytes w)) traks))
       (trak_forest ts large (zip its (replicate (length its) (placeholder large))))"
  using assms
proof (induction its arbitrary: w)
  case Nil
  then show ?case by (simp add: trak_forest_def)
next
  case (Cons it its)
  obtain index t where it: "it = (index, t)" by (cases it)
  have four: "known_header t" using Cons.prems by (simp add: it)
  show ?case
  proof (cases "trak_parts index ts t")
    case (Inl e)
    then show ?thesis by (simp add: it write_trak_def trak_forest_def)
  next
    case (Inr parts)
    define bytes where "bytes = tree_bytes (trak_tree t large parts (placeholder large))"
    have "appends_offset (length (placeholder large)) (write_trak t index ts large) bytes"
      unfolding bytes_def by (rule appends_offset_trak [OF four Inr])
    then obtain w' where w': "write_trak t index ts large w = Inr w'" "wr_bytes w' = wr_bytes w @ bytes"
      "wr_patch w' = wr_patch w @ [length (wr_bytes w) + (length bytes - length (placeholder large))]"
      unfolding appends_offset_def appends_def by fastforce
    let ?forest = "trak_forest ts large (zip its (replicate (length its) (placeholder large)))"
    have "rmap written (write_traks ts large (it # its) w) =
        rmap (\<lambda>traks. (wr_bytes w' @ forest_bytes traks,
          wr_patch w' @ offset_places (length (placeholder large)) (length (wr_bytes w')) traks)) ?forest"
      using Cons.IH [of w'] Cons.prems by (simp add: it w')
    moreover have "trak_forest ts large
          (zip (it # its) (replicate (length (it # its)) (placeholder large))) =
        rmap ((#) (trak_tree t large parts (placeholder large))) ?forest"
      by (cases ?forest) (simp_all add: it trak_forest_def Inr)
    ultimately show ?thesis
      by (cases ?forest) (simp_all add: w' bytes_def)
  qed
qed

lemma list_all_enumerate: "list_all P ts \<Longrightarrow> list_all (P \<circ> snd) (List.enumerate n ts)"
  by (induction ts arbitrary: n) simp_all

definition moov_places :: "bool \<Rightarrow> box_tree \<Rightarrow> nat list" where
  "moov_places large tree =
     (case tree of
        Node _ (mvhd # traks) \<Rightarrow>
          offset_places (length (placeholder large)) (8 + length (tree_bytes mvhd)) traks
      | _ \<Rightarrow> [])"

theorem build_moov_written:
  assumes "list_all known_header tracks"
  shows "rmap written (build_moov tracks ts duration large) =
     rmap (\<lambda>tree. (tree_bytes tree, moov_places large tree))
       (moov_tree tracks ts duration large (replicate (length tracks) (placeholder large)))"
proof (cases "mvhd_body ts duration (length tracks)")
  case (Inl e)
  then show ?thesis by (simp add: build_moov_def moov_tree_def writer_container_def write_mvhd_def)
next
  case (Inr mvhd)
  define w where "w = writer_full ''mvhd'' mvhd (writer_open ''moov'' writer_default)"
  have w: "wr_bytes w = [0, 0, 0, 0] @ as_bytes ''moov'' @ box_bytes ''mvhd'' mvhd" "wr_patch w = []"
    by (simp_all add: w_def writer_full_simps writer_default_def)
  let ?traks = "write_traks ts large (List.enumerate 0 tracks) w"
  let ?forest = "trak_forest ts large
      (zip (List.enumerate 0 tracks) (replicate (length tracks) (placeholder large)))"
  have traks: "rmap written ?traks = rmap (\<lambda>traks. (wr_bytes w @ forest_bytes traks,
      offset_places (length (placeholder large)) (length (wr_bytes w)) traks)) ?forest"
    using each_write_trak [OF list_all_enumerate [OF assms, of 0], of ts large w]
    by (simp add: w(2))
  have moov: "build_moov tracks ts duration large = rmap (writer_close 0) ?traks"
    by (cases ?traks) (simp_all add: build_moov_def writer_container_def write_mvhd_def Inr w_def writer_default_def)
  show ?thesis
  proof (cases ?forest)
    case (Inl e)
    with traks have "?traks = Inl e" by (cases ?traks) simp_all
    then show ?thesis by (simp add: moov moov_tree_def \<open>mvhd_body _ _ _ = Inr mvhd\<close> Inl)
  next
    case forest: (Inr traks')
    with traks obtain w' where w': "?traks = Inr w'" "wr_bytes w' = wr_bytes w @ forest_bytes traks'"
      "wr_patch w' = offset_places (length (placeholder large)) (length (wr_bytes w)) traks'"
      by (cases ?traks) auto
    have "wr_bytes (writer_close (length ([] :: u8 list)) w') = [] @ box_bytes ''moov'' (box_bytes ''mvhd'' mvhd @ forest_bytes traks')"
      by (rule writer_close_box) (simp_all add: w' w)
    then show ?thesis
      using forest by (simp add: moov w' moov_tree_def Inr forest_bytes_def moov_places_def w length_box_bytes)
  qed
qed

section \<open>The iterator reads a serialised forest\<close>

primrec tree_kind :: "box_tree \<Rightarrow> string" where
  "tree_kind (Leaf kind body) = kind"
| "tree_kind (Node kind ts) = kind"

primrec tree_body :: "box_tree \<Rightarrow> u8 list" where
  "tree_body (Leaf kind body) = body"
| "tree_body (Node kind ts) = forest_bytes ts"

text \<open>Kinds are four letters, and no box is too large for its size field.\<close>

definition fits :: "box_tree \<Rightarrow> bool" where
  "fits t \<longleftrightarrow> length (tree_kind t) = 4 \<and> int (length (tree_body t)) + 8 < 2 ^ 32"

lemma tree_bytes_box: "tree_bytes t = box_bytes (tree_kind t) (tree_body t)"
  by (cases t) (simp_all add: forest_bytes_def)

lemma length_tree_bytes: "length (tree_kind t) = 4 \<Longrightarrow> length (tree_bytes t) = 8 + length (tree_body t)"
  by (simp add: tree_bytes_box length_box_bytes)

lemma size_field_fits: "int n < 2 ^ 32 \<Longrightarrow> unat (size_field n) = n"
proof -
  assume n: "int n < 2 ^ 32"
  then have "int n < int (2 ^ 32)" by simp
  then have "n < 2 ^ 32" by (simp only: of_nat_less_iff)
  then have "unat (of_nat n :: u32) = n"
    by (simp add: unsigned_of_nat take_bit_nat_eq_self)
  then show ?thesis using n by (simp add: size_field_def)
qed

lemma boxes_Cons:
  assumes "fits t"
  shows "boxes (tree_bytes t @ rest) = (as_bytes (tree_kind t), tree_body t) # boxes rest"
proof -
  let ?n = "8 + length (tree_body t)"
  from assms have n: "int ?n < 2 ^ 32" "length (tree_kind t) = 4" by (simp_all add: fits_def)
  then have size: "unat (from_be_bytes (be32 (size_field ?n)) :: u32) = ?n"
    using size_field_fits [of ?n] from_to_be_bytes [of 4 "size_field ?n"] by simp
  have "tree_bytes t @ rest = be32 (size_field ?n) @ as_bytes (tree_kind t) @ tree_body t @ rest"
    by (simp add: tree_bytes_box box_bytes_def)
  then show ?thesis
    by (subst boxes.simps) (simp add: n size Let_def del: from_be_bytes.simps)
qed

lemma boxes_forest:
  "list_all fits ts \<Longrightarrow> boxes (forest_bytes ts) = map (\<lambda>t. (as_bytes (tree_kind t), tree_body t)) ts"
proof (induction ts)
  case Nil
  show ?case by (subst boxes.simps) simp
next
  case (Cons t ts)
  then show ?case by (simp add: boxes_Cons)
qed

lemma find_map_Some: "find_map f xs = Some y \<Longrightarrow> \<exists>x\<in>set xs. f x = Some y"
  by (induction xs) (auto simp: or_else_def split: option.splits)

lemma find_map_split:
  "(\<And>x. x \<in> set xs \<Longrightarrow> f x = None) \<Longrightarrow> find_map f (xs @ y # ys) = or_else (f y) (find_map f ys)"
  by (induction xs) simp_all

text \<open>A path leads to the first box of its kind, and on inside that one.\<close>

lemma find_box_forest:
  assumes "list_all fits (before @ t # after)" "\<forall>b\<in>set before. tree_kind b \<noteq> tree_kind t"
  shows "find_box [tree_kind t] (forest_bytes (before @ t # after)) = Some (tree_body t)"
    and "rest \<noteq> [] \<Longrightarrow> find_box rest (tree_body t) = Some body \<Longrightarrow>
      find_box (tree_kind t # rest) (forest_bytes (before @ t # after)) = Some body"
proof -
  have boxes: "boxes (forest_bytes (before @ t # after)) =
      map (\<lambda>t. (as_bytes (tree_kind t), tree_body t)) before @
      (as_bytes (tree_kind t), tree_body t) #
      map (\<lambda>t. (as_bytes (tree_kind t), tree_body t)) after"
    using boxes_forest [OF assms(1)] by simp
  show "find_box [tree_kind t] (forest_bytes (before @ t # after)) = Some (tree_body t)"
    by (simp only: find_box.simps boxes, subst find_map_split) (use assms(2) in \<open>auto\<close>)
  show "find_box (tree_kind t # rest) (forest_bytes (before @ t # after)) = Some body"
    if "rest \<noteq> []" "find_box rest (tree_body t) = Some body"
    by (simp only: find_box.simps boxes, subst find_map_split) (use assms(2) that in \<open>auto\<close>)
qed

section \<open>Filling in the chunk offsets\<close>

definition offset_bytes :: "bool \<Rightarrow> u64 \<Rightarrow> u8 list" where
  "offset_bytes large start = (if large then to_be_bytes 8 start else be32 (ucast start))"

lemma length_offset_bytes [simp]: "length (offset_bytes large start) = length (placeholder large)"
  by (simp add: offset_bytes_def placeholder_def)

lemma patch_offset_splice:
  assumes "patch_offset large (length a, start) (a @ placeholder large @ b) = Inr moov"
  shows "moov = a @ offset_bytes large start @ b"
proof -
  have "moov = splice (length a) (offset_bytes large start) (a @ placeholder large @ b)"
    using assms by (auto simp: patch_offset_def offset_bytes_def try_u32_def Let_def result_simps split: if_splits)
  then show ?thesis by (simp add: splice_append)
qed

fun front_places :: "nat \<Rightarrow> nat \<Rightarrow> u8 list list \<Rightarrow> nat list" where
  "front_places n position [] = []"
| "front_places n position (f # fs) =
     (position + length f) # front_places n (position + length f + n) fs"

lemma patch_fronts:
  assumes "each (patch_offset large) (zip (front_places (length (placeholder large)) (length a) fronts) starts)
      (a @ concat (map (\<lambda>f. f @ placeholder large) fronts)) = Inr moov"
    and "length starts = length fronts"
  shows "moov = a @ concat (map2 (\<lambda>f start. f @ offset_bytes large start) fronts starts)"
  using assms
proof (induction fronts arbitrary: a starts)
  case (Cons f fronts)
  obtain start starts' where starts: "starts = start # starts'" "length starts' = length fronts"
    using Cons.prems(2) by (cases starts) auto
  let ?rest = "concat (map (\<lambda>f. f @ placeholder large) fronts)"
  let ?places = "front_places (length (placeholder large)) (length a + length f + length (placeholder large)) fronts"
  obtain moov' where moov': "patch_offset large (length (a @ f), start) ((a @ f) @ placeholder large @ ?rest) = Inr moov'"
    "each (patch_offset large) (zip ?places starts') moov' = Inr moov"
    using Cons.prems(1) by (auto simp: starts result_simps)
  have "moov' = (a @ f @ offset_bytes large start) @ ?rest"
    using patch_offset_splice [OF moov'(1)] by simp
  then have "moov = (a @ f @ offset_bytes large start) @
      concat (map2 (\<lambda>f start. f @ offset_bytes large start) fronts starts')"
    using Cons.IH [of "a @ f @ offset_bytes large start" starts'] moov'(2) starts(2) by (simp add: add.assoc)
  then show ?case by (simp add: starts)
qed simp

lemma trak_forest_fronts:
  assumes "trak_forest ts large (zip its (replicate (length its) (placeholder large))) = Inr traks"
  shows "\<exists>fronts. length fronts = length its \<and> map tree_bytes traks = map (\<lambda>f. f @ placeholder large) fronts \<and>
    (\<forall>chunks. length chunks = length its \<longrightarrow> list_all (\<lambda>c. length c = length (placeholder large)) chunks \<longrightarrow>
      (\<exists>traks'. trak_forest ts large (zip its chunks) = Inr traks' \<and>
         map tree_bytes traks' = map2 (@) fronts chunks))"
  using assms
proof (induction its arbitrary: traks)
  case Nil
  then show ?case by (simp add: trak_forest_def)
next
  case (Cons it its)
  obtain index t where it: "it = (index, t)" by (cases it)
  obtain parts traks' where parts: "trak_parts index ts t = Inr parts"
    and traks': "trak_forest ts large (zip its (replicate (length its) (placeholder large))) = Inr traks'"
    and traks: "traks = trak_tree t large parts (placeholder large) # traks'"
    using Cons.prems by (auto simp: it trak_forest_def result_simps)
  obtain front where front: "length chunk = length (placeholder large) \<Longrightarrow>
      tree_bytes (trak_tree t large parts chunk) = front @ chunk" for chunk
    using ends_in_trak [of "length (placeholder large)" t large parts] unfolding ends_in_def by blast
  obtain fronts where fronts: "length fronts = length its"
    "map tree_bytes traks' = map (\<lambda>f. f @ placeholder large) fronts"
    "\<And>chunks. length chunks = length its \<Longrightarrow> list_all (\<lambda>c. length c = length (placeholder large)) chunks \<Longrightarrow>
      \<exists>traks'. trak_forest ts large (zip its chunks) = Inr traks' \<and> map tree_bytes traks' = map2 (@) fronts chunks"
    using Cons.IH [OF traks'] by blast
  show ?case
  proof (intro exI [of _ "front # fronts"] conjI allI impI)
    fix chunks :: "u8 list list"
    assume c: "length chunks = length (it # its)" "list_all (\<lambda>c. length c = length (placeholder large)) chunks"
    then obtain chunk chunks' where chunks: "chunks = chunk # chunks'" by (cases chunks) auto
    then obtain ys where "trak_forest ts large (zip its chunks') = Inr ys" "map tree_bytes ys = map2 (@) fronts chunks'"
      using fronts(3) [of chunks'] c by auto
    then show "\<exists>traks'. trak_forest ts large (zip (it # its) chunks) = Inr traks' \<and>
        map tree_bytes traks' = map2 (@) (front # fronts) chunks"
      using c chunks front [of chunk] by (simp add: it trak_forest_def parts)
  qed (simp_all add: fronts traks front)
qed

lemma offset_places_fronts:
  "map tree_bytes traks = map (\<lambda>f. f @ chunk) fronts \<Longrightarrow> length chunk = n \<Longrightarrow>
     offset_places n position traks = front_places n position fronts"
proof (induction fronts arbitrary: traks position)
  case (Cons f fronts)
  then obtain t traks' where "traks = t # traks'" by (cases traks) auto
  then show ?case using Cons by (simp add: add.assoc)
qed simp

text \<open>After the patches, the movie box is the tree with the offsets in place.\<close>

lemma patched_moov_tree:
  assumes wf: "list_all known_header tracks"
    and built: "build_moov tracks ts duration large = Inr w"
    and patched: "each (patch_offset large) (zip (wr_patch w) starts) (wr_bytes w) = Inr moov"
    and "length starts = length tracks"
  shows "rmap tree_bytes (moov_tree tracks ts duration large (map (offset_bytes large) starts)) = Inr moov"
    and "length moov = length (wr_bytes w)"
proof -
  let ?ph = "placeholder large"
  obtain tree where tree: "moov_tree tracks ts duration large (replicate (length tracks) ?ph) = Inr tree"
    "wr_bytes w = tree_bytes tree" "wr_patch w = moov_places large tree"
    using build_moov_written [OF wf, of ts duration large] built
    by (cases "moov_tree tracks ts duration large (replicate (length tracks) ?ph)") auto
  then obtain mvhd traks where mvhd: "mvhd_body ts duration (length tracks) = Inr mvhd"
    and traks: "trak_forest ts large (zip (List.enumerate 0 tracks) (replicate (length tracks) ?ph)) = Inr traks"
    and tree_eq: "tree = Node ''moov'' (Leaf ''mvhd'' mvhd # traks)"
    by (auto simp: moov_tree_def result_simps)
  obtain fronts where fronts: "length fronts = length tracks"
    "map tree_bytes traks = map (\<lambda>f. f @ ?ph) fronts"
    "\<And>chunks. length chunks = length tracks \<Longrightarrow> list_all (\<lambda>c. length c = length ?ph) chunks \<Longrightarrow>
      \<exists>traks'. trak_forest ts large (zip (List.enumerate 0 tracks) chunks) = Inr traks' \<and>
        map tree_bytes traks' = map2 (@) fronts chunks"
    using trak_forest_fronts [of ts large "List.enumerate 0 tracks"] traks by auto
  let ?chunks = "map (offset_bytes large) starts"
  obtain traks' where traks': "trak_forest ts large (zip (List.enumerate 0 tracks) ?chunks) = Inr traks'"
    "map tree_bytes traks' = map2 (@) fronts ?chunks"
    using fronts(3) [of ?chunks] assms(4) by (auto simp: list_all_iff)
  define front where "front n = be32 (size_field (8 + n)) @ as_bytes ''moov'' @ box_bytes ''mvhd'' mvhd" for n
  have body: "concat (map tree_bytes traks) = concat (map (\<lambda>f. f @ ?ph) fronts)" 
    "concat (map tree_bytes traks') = concat (map2 (@) fronts ?chunks)"
    by (simp_all add: fronts(2) traks'(2))
  have same: "length (concat (map2 (@) fronts ?chunks)) = length (concat (map (\<lambda>f. f @ ?ph) fronts))"
    using fronts(1) assms(4)
    by (induction fronts starts arbitrary: tracks rule: list_induct2') (auto, metis length_Suc_conv)
  let ?n = "length (box_bytes ''mvhd'' mvhd) + length (concat (map (\<lambda>f. f @ ?ph) fronts))"
  have bytes: "wr_bytes w = front ?n @ concat (map (\<lambda>f. f @ ?ph) fronts)"
    by (simp add: tree tree_eq box_bytes_def [of "''moov''"] body front_def)
  have places: "wr_patch w = front_places (length ?ph) (length (front ?n)) fronts"
    using offset_places_fronts [OF fronts(2) refl] by (simp add: tree tree_eq moov_places_def front_def add.assoc)
  have moov: "moov = front ?n @ concat (map2 (\<lambda>f start. f @ offset_bytes large start) fronts starts)"
    by (rule patch_fronts) (use patched assms(4) fronts(1) in \<open>simp_all add: bytes places\<close>)
  have map2: "map2 (\<lambda>f start. f @ offset_bytes large start) fronts starts = map2 (@) fronts ?chunks"
    by (simp add: zip_map2 comp_def split_def)
  show "rmap tree_bytes (moov_tree tracks ts duration large ?chunks) = Inr moov"
    using same by (simp add: moov_tree_def mvhd traks' moov map2 box_bytes_def [of "''moov''"] body(2) front_def)
  show "length moov = length (wr_bytes w)"
    using same by (simp add: moov map2 bytes)
qed

section \<open>Copying samples\<close>

definition sample_data :: "u8 list \<Rightarrow> mux_sample \<Rightarrow> u8 list" where
  "sample_data bytes s = take (unat (sm_size s)) (drop (unat (sm_offset s)) bytes)"

definition track_data :: "u8 list \<Rightarrow> mux_sample list \<Rightarrow> u8 list" where
  "track_data bytes samples = concat (map (sample_data bytes) samples)"

definition within :: "u8 list \<Rightarrow> mux_sample \<Rightarrow> bool" where
  "within bytes s \<longleftrightarrow> unat (sm_offset s) + unat (sm_size s) \<le> length bytes"

lemma take_length_take: "take (length (take k xs)) xs = take k xs"
  by (simp add: min_def)

lemma read_some_data:
  assumes "read_some pieces f position wanted = Inr data" "data \<noteq> []" "0 < wanted"
  obtains k where "0 < k" "k \<le> wanted" "data = take k (drop (unat position) (src_bytes f))"
    "unat position + k \<le> length (src_bytes f)" "length data = k"
proof -
  let ?k = "max 1 (min (pieces (unat position)) wanted)"
  have data: "data = take ?k (drop (unat position) (src_bytes f))"
    using assms(1) by (auto simp: read_some_def Let_def split: option.splits if_splits)
  have k: "length data \<le> wanted" using assms(3) by (simp add: data)
  have len: "unat position + length data \<le> length (src_bytes f)"
    using assms(2) by (auto simp: data)
  have "data = take (length data) (drop (unat position) (src_bytes f))"
    unfolding data by (rule take_length_take [symmetric])
  then show thesis using that [of "length data"] assms(2) k len by simp
qed

lemma read_some_progress:
  assumes "unat position < length (src_bytes f)" "0 < wanted"
  obtains data where "read_some pieces f position wanted = Inr data" "data \<noteq> []"
proof -
  have "take (max 1 (min (pieces (unat position)) wanted)) (drop (unat position) (src_bytes f)) \<noteq> []"
    using assms(1) by (cases "drop (unat position) (src_bytes f)") auto
  then show thesis using that unfolding read_some_def Let_def by (cases "src_error f") simp_all
qed

lemma advance_position:
  "unat position + k \<le> length bytes \<Longrightarrow> length bytes < 2 ^ 63 \<Longrightarrow>
     unat (position + of_nat k :: u64) = unat position + k"
  by (simp add: unat_word_ariths unsigned_of_nat take_bit_nat_eq_self)

lemma take_add_drop: "take k (drop n xs) @ take m (drop (n + k) xs) = take (k + m) (drop n xs)"
  by (simp add: take_add add.commute)

lemma copy_sample_reads:
  assumes "copy_sample pieces f n (position, out) = Inr (position', out')" "length (src_bytes f) < 2 ^ 63"
  shows "out' = out\<lparr>snk_bytes := snk_bytes out @ take n (drop (unat position) (src_bytes f))\<rparr> \<and>
    (0 < n \<longrightarrow> unat position + n \<le> length (src_bytes f))"
  using assms
proof (induction pieces f n "(position, out)" arbitrary: position out rule: copy_sample.induct)
  case (1 pieces f n position out)
  show ?case
  proof (cases "n = 0")
    case True
    then show ?thesis using "1.prems"(1) by (subst (asm) copy_sample.simps) simp
  next
    case False
    let ?wanted = "nat (min (int n) copy_buffer)"
    obtain data out1 where data: "read_some pieces f position ?wanted = Inr data" "data \<noteq> []"
      and out1: "write_all data out = Inr out1"
      and step: "copy_sample pieces f (n - length data) (position + of_nat (length data), out1) = Inr (position', out')"
      using "1.prems"(1) False by (subst (asm) copy_sample.simps) (auto simp: result_simps split: if_splits)
    obtain k where k: "0 < k" "k \<le> ?wanted" "data = take k (drop (unat position) (src_bytes f))"
      "unat position + k \<le> length (src_bytes f)" "length data = k"
      by (rule read_some_data [OF data]) (use False in \<open>auto simp: copy_buffer_def\<close>)
    then have "k \<le> n" by linarith
    have next_position: "unat (position + of_nat k :: u64) = unat position + k"
      by (rule advance_position [OF k(4) "1.prems"(2)])
    have "out' = out1\<lparr>snk_bytes := snk_bytes out1 @ take (n - k) (drop (unat position + k) (src_bytes f))\<rparr> \<and>
      (0 < n - k \<longrightarrow> unat position + k + (n - k) \<le> length (src_bytes f))"
      using "1.hyps" [of data out1] False data out1 step "1.prems"(2) by (simp add: k(5) next_position)
    moreover have "out1 = out\<lparr>snk_bytes := snk_bytes out @ data\<rparr>"
      using out1 by (auto simp: write_all_def split: option.splits)
    ultimately show ?thesis
      using k \<open>k \<le> n\<close> take_add_drop [of k "unat position" "src_bytes f" "n - k"] by auto
  qed
qed

text \<open>With a sink that takes everything, a sample within its file is copied whatever the reads return.\<close>

definition accepting :: "sink \<Rightarrow> bool" where
  "accepting out \<longleftrightarrow> snk_error out = (\<lambda>_. None)"

lemma write_all_accepting: "accepting out \<Longrightarrow> write_all data out = Inr (out\<lparr>snk_bytes := snk_bytes out @ data\<rparr>)"
  by (simp add: write_all_def accepting_def)

lemma accepting_bytes [simp]: "accepting (out\<lparr>snk_bytes := bytes\<rparr>) = accepting out"
  by (simp add: accepting_def)

lemma copy_sample_succeeds:
  assumes "accepting out" "unat position + n \<le> length (src_bytes f)" "length (src_bytes f) < 2 ^ 63"
  shows "copy_sample pieces f n (position, out) =
    Inr (position + of_nat n, out\<lparr>snk_bytes := snk_bytes out @ take n (drop (unat position) (src_bytes f))\<rparr>)"
  using assms
proof (induction n arbitrary: position out rule: less_induct)
  case (less n)
  show ?case
  proof (cases "n = 0")
    case True
    then show ?thesis by (subst copy_sample.simps) simp
  next
    case False
    let ?wanted = "nat (min (int n) copy_buffer)"
    have wanted: "0 < ?wanted" using False by (simp add: copy_buffer_def)
    obtain data where data: "read_some pieces f position ?wanted = Inr data" "data \<noteq> []"
      by (rule read_some_progress [of position f ?wanted pieces]) (use less.prems(2) False wanted in auto)
    obtain k where k: "0 < k" "k \<le> ?wanted" "data = take k (drop (unat position) (src_bytes f))"
      "unat position + k \<le> length (src_bytes f)" "length data = k"
      by (rule read_some_data [OF data wanted])
    then have kn: "k \<le> n" by linarith
    let ?out = "out\<lparr>snk_bytes := snk_bytes out @ data\<rparr>"
    have at: "unat (position + of_nat k :: u64) = unat position + k"
      by (rule advance_position [OF k(4) less.prems(3)])
    have "copy_sample pieces f n (position, out) = copy_sample pieces f (n - k) (position + of_nat k, ?out)"
      using False data k(5) write_all_accepting [OF less.prems(1)] by (subst copy_sample.simps) simp
    also have "\<dots> = Inr (position + of_nat k + of_nat (n - k), ?out\<lparr>snk_bytes := snk_bytes ?out @
        take (n - k) (drop (unat (position + of_nat k :: u64)) (src_bytes f))\<rparr>)"
      by (rule less.IH) (use k kn less.prems at in auto)
    also have "\<dots> = Inr (position + of_nat n, out\<lparr>snk_bytes := snk_bytes out @
        take n (drop (unat position) (src_bytes f))\<rparr>)"
      using take_add_drop [of k "unat position" "src_bytes f" "n - k"] kn
      by (simp add: at k(3) of_nat_diff)
    finally show ?thesis .
  qed
qed

lemma copy_one_start:
  assumes "copy_one pieces f x s = Inr t"
  shows "copy_sample pieces f (unat (sm_size x)) (sm_offset x, snd s) = Inr t"
proof (cases "sm_offset x = fst s")
  case True
  then show ?thesis using assms by (cases s) (simp add: copy_one_def)
next
  case False
  then show ?thesis using assms by (cases "seek_to (sm_offset x)") (simp_all add: copy_one_def)
qed

lemma copy_samples_reads:
  assumes "each (copy_one pieces f) samples s = Inr s'" "length (src_bytes f) < 2 ^ 63"
  shows "snd s' = (snd s)\<lparr>snk_bytes := snk_bytes (snd s) @ track_data (src_bytes f) samples\<rparr> \<and>
     (\<forall>x\<in>set samples. 0 < sm_size x \<longrightarrow> within (src_bytes f) x)"
  using assms(1)
proof (induction samples arbitrary: s)
  case Nil
  then show ?case by (simp add: track_data_def)
next
  case (Cons x samples)
  obtain s1 where s1: "copy_one pieces f x s = Inr s1" "each (copy_one pieces f) samples s1 = Inr s'"
    using Cons.prems by (auto simp: result_simps)
  have "copy_sample pieces f (unat (sm_size x)) (sm_offset x, snd s) = Inr (fst s1, snd s1)"
    using copy_one_start [OF s1(1)] by simp
  note one = copy_sample_reads [OF this assms(2)]
  show ?case
    using Cons.IH [OF s1(2)] one
    by (auto simp: track_data_def sample_data_def within_def word_greater_zero_iff unat_gt_0)
qed

section \<open>Sizes and positions\<close>

lemma unat_sum_list:
  "sum_list (map unat ws) < 2 ^ 64 \<Longrightarrow> unat (sum_list ws :: u64) = sum_list (map unat ws)"
  by (induction ws) (simp_all add: unat_word_ariths)

lemma unat_ucast_up: "unat (ucast w :: u64) = unat w" for w :: u32
proof -
  have "unat w < 2 ^ 64" using unat_less [of w] by simp
  then show ?thesis by (simp add: unsigned_ucast_eq take_bit_nat_eq_self)
qed

lemma sample_sizes_bound:
  "sum_list (map (\<lambda>s. unat (sm_size s)) samples) \<le> length samples * (2 ^ 32 - 1)"
proof (induction samples)
  case (Cons s samples)
  have "unat (sm_size s) \<le> 2 ^ 32 - 1" using unat_less [of "sm_size s"] by simp
  then show ?case using Cons by simp
qed simp

lemma try_len32_Some: "(try_len xs :: u32 option) = Some len \<Longrightarrow> length xs < 2 ^ 32 \<and> len = of_nat (length xs)"
  unfolding try_len_def by (simp only: of_nat_less_numeral_power_cancel_iff) (auto split: if_splits)

lemma unat_sample_bytes:
  assumes "length (dt_samples t) < 2 ^ 32"
  shows "unat (sample_bytes t) = sum_list (map (\<lambda>s. unat (sm_size s)) (dt_samples t))"
proof -
  let ?sizes = "map (\<lambda>s. ucast (sm_size s) :: u64) (dt_samples t)"
  have unat: "map unat ?sizes = map (\<lambda>s. unat (sm_size s)) (dt_samples t)"
    by (simp add: comp_def unat_ucast_up)
  have "sum_list (map unat ?sizes) \<le> length (dt_samples t) * (2 ^ 32 - 1)"
    unfolding unat by (rule sample_sizes_bound)
  also have "\<dots> \<le> 2 ^ 32 * (2 ^ 32 - 1)" using assms by (intro mult_le_mono1) simp
  also have "\<dots> < 2 ^ 64" by simp
  finally have "unat (sum_list ?sizes) = sum_list (map unat ?sizes)" by (rule unat_sum_list)
  then show ?thesis by (simp only: unat sample_bytes_def)
qed

lemma layout_starts_positions:
  assumes "layout_starts start counts = Inr starts"
  shows "length starts = length counts \<and> unat start + sum_list (map unat counts) < 2 ^ 64 \<and>
    (\<forall>i<length counts. unat (starts ! i) = unat start + sum_list (map unat (take i counts)))"
  using assms
proof (induction counts arbitrary: start starts)
  case Nil
  then show ?case using unat_less [of start] by simp
next
  case (Cons count counts)
  obtain following rest where next_start: "checked_add start count = Some following"
    and rest: "layout_starts following counts = Inr rest" "starts = start # rest"
    using Cons.prems by (auto simp: result_simps)
  have "unat following = unat start + unat count" by (rule unat_checked_add [OF next_start])
  then show ?case
    using Cons.IH [OF rest(1)] rest(2) by (auto simp: nth_Cons less_Suc_eq_0_disj)
qed

lemma patched_starts_fit:
  assumes "each (patch_offset False) (zip places starts) bytes = Inr moov" "length places = length starts"
  shows "list_all (\<lambda>start. uint start < 2 ^ 32) starts"
  using assms
proof (induction starts arbitrary: places bytes)
  case (Cons start starts)
  then obtain place places' where "places = place # places'" by (cases places) auto
  with Cons show ?case
    by (auto simp: patch_offset_def try_u32_def Let_def result_simps split: if_splits)
qed simp

lemma build_moov_tracks:
  assumes "build_moov tracks ts duration large = Inr w" "list_all known_header tracks" "t \<in> set tracks"
  shows "length (dt_samples t) < 2 ^ 32"
proof -
  obtain traks where
    "trak_forest ts large (zip (List.enumerate 0 tracks) (replicate (length tracks) (placeholder large))) = Inr traks"
    using build_moov_written [OF assms(2), of ts duration large] assms(1)
    by (cases "moov_tree tracks ts duration large (replicate (length tracks) (placeholder large))")
       (auto simp: moov_tree_def result_simps)
  moreover have "traverse_list f xs = Inr ys \<Longrightarrow> x \<in> set xs \<Longrightarrow> is_ok (f x)"
    for f :: "(nat \<times> demuxed_track) \<times> u8 list \<Rightarrow> mux_error + box_tree" and xs ys x
    by (induction xs arbitrary: ys) (auto simp: result_simps)
  moreover obtain i where i: "i < length tracks" "tracks ! i = t"
    using assms(3) by (auto simp: in_set_conv_nth)
  have "((i, t), placeholder large) \<in>
      set (zip (List.enumerate 0 tracks) (replicate (length tracks) (placeholder large)))"
    using i by (force simp: in_set_conv_nth nth_enumerate_eq)
  ultimately have "is_ok (rmap (\<lambda>parts. trak_tree t large parts (placeholder large)) (trak_parts i ts t))"
    unfolding trak_forest_def by fastforce
  then have "is_ok (build_tables (dt_samples t))"
    by (cases "trak_parts i ts t") (auto simp: trak_parts_def result_simps split: if_splits)
  then obtain tables where "build_tables (dt_samples t) = Inr tables"
    by (cases "build_tables (dt_samples t)") simp_all
  then show ?thesis
    by (auto simp: build_tables_def build_stsz_def table_len_def result_simps dest: try_len32_Some)
qed

lemma length_offset_places [simp]: "length (offset_places n position ts) = length ts"
  by (induction ts arbitrary: position) simp_all

lemma build_moov_places:
  assumes "list_all known_header tracks" "build_moov tracks ts duration large = Inr w"
  shows "length (wr_patch w) = length tracks"
proof -
  obtain tree where tree: "moov_tree tracks ts duration large (replicate (length tracks) (placeholder large)) = Inr tree"
    "wr_patch w = moov_places large tree"
    using build_moov_written [OF assms(1), of ts duration large] assms(2)
    by (cases "moov_tree tracks ts duration large (replicate (length tracks) (placeholder large))") auto
  then show ?thesis
    by (auto simp: moov_tree_def trak_forest_def moov_places_def result_simps dest!: traverse_list_length)
qed

section \<open>The layout\<close>

lemma build_ftyp_tree:
  "build_ftyp = tree_bytes (Leaf ''ftyp'' (as_bytes ''isom'' @ be32 0x00000200 @
     concat (map as_bytes [''isom'', ''iso2'', ''mp41'', ''mp42''])))"
proof -
  let ?body = "as_bytes ''isom'' @ be32 0x00000200 @
     concat (map as_bytes [''isom'', ''iso2'', ''mp41'', ''mp42''])"
  have "wr_bytes (writer_close (length ([] :: u8 list)) (put_bytes (concat (map as_bytes [''isom'', ''iso2'', ''mp41'', ''mp42'']))
      (put_bytes (be32 0x00000200) (put_bytes (as_bytes ''isom'') (writer_open ''ftyp'' writer_default)))))
      = [] @ box_bytes ''ftyp'' ?body"
    by (rule writer_close_box) (simp_all add: writer_default_def)
  then show ?thesis by (simp add: build_ftyp_def)
qed

lemma mdat_header_length: "mdat_header payload = Inr m \<Longrightarrow> length m = mdat_header_size payload"
  by (auto simp: mdat_header_def mdat_header_size_def result_simps split: if_splits)

lemma unat_payload_bytes:
  "sum_list (map (unat \<circ> sample_bytes) tracks) < 2 ^ 64 \<Longrightarrow>
     unat (payload_bytes tracks) = sum_list (map (unat \<circ> sample_bytes) tracks)"
  unfolding payload_bytes_def using unat_sum_list [of "map sample_bytes tracks"] by (simp add: comp_def)

lemma unat_of_nat64: "n < 2 ^ 64 \<Longrightarrow> unat (of_nat n :: u64) = n"
  by (simp add: unsigned_of_nat take_bit_nat_eq_self)

lemma layout_moov_tree:
  assumes laid: "layout_moov force tracks = Inr (file_length, moov)"
    and wf: "list_all known_header tracks"
    and room: "length build_ftyp + length moov + 16 < 2 ^ 64"
  obtains large starts tree where
    "moov_tree tracks movie_timescale (movie_duration tracks) large (map (offset_bytes large) starts) = Inr tree"
    "moov = tree_bytes tree" "length starts = length tracks"
    "unat file_length = length build_ftyp + length moov + mdat_header_size (payload_bytes tracks) +
       sum_list (map (unat \<circ> sample_bytes) tracks)"
    "\<And>i. i < length tracks \<Longrightarrow> unat (starts ! i) =
       length build_ftyp + length moov + mdat_header_size (payload_bytes tracks) +
       sum_list (map (unat \<circ> sample_bytes) (take i tracks))"
    "\<not> large \<Longrightarrow> list_all (\<lambda>start. uint start < 2 ^ 32) starts"
    "\<And>t. t \<in> set tracks \<Longrightarrow> length (dt_samples t) < 2 ^ 32"
proof -
  obtain large w starts where chosen: "choose_moov force tracks = Inr (large, w)"
    and total: "checked_add (of_nat (length build_ftyp + length (wr_bytes w) +
        mdat_header_size (payload_bytes tracks))) (payload_bytes tracks) = Some file_length"
    and starts: "layout_starts (of_nat (length build_ftyp + length (wr_bytes w) +
        mdat_header_size (payload_bytes tracks))) (map sample_bytes tracks) = Inr starts"
    and patched: "each (patch_offset large) (zip (wr_patch w) starts) (wr_bytes w) = Inr moov"
    using laid unfolding layout_moov_def fill_offsets_def Let_def by (auto simp: result_simps)
  have built: "build_moov tracks movie_timescale (movie_duration tracks) large = Inr w"
    using chosen by (auto simp: choose_moov_def Let_def result_simps split: if_splits)
  let ?header = "length build_ftyp + length (wr_bytes w) + mdat_header_size (payload_bytes tracks)"
  note positions = layout_starts_positions [OF starts]
  have len: "length starts = length tracks" using positions by simp
  note tree = patched_moov_tree [OF wf built patched len]
  have "mdat_header_size (payload_bytes tracks) \<le> 16" by (simp add: mdat_header_size_def)
  then have "?header < 2 ^ 64" using room tree(2) by linarith
  then have header: "unat (of_nat ?header :: u64) = ?header" by (rule unat_of_nat64)
  have "sum_list (map (unat \<circ> sample_bytes) tracks) < 2 ^ 64"
    using positions by (simp add: comp_def)
  then have payload: "unat (payload_bytes tracks) = sum_list (map (unat \<circ> sample_bytes) tracks)"
    by (rule unat_payload_bytes)
  obtain t where t: "moov_tree tracks movie_timescale (movie_duration tracks) large
      (map (offset_bytes large) starts) = Inr t" "moov = tree_bytes t"
    using tree(1) by (auto simp: result_simps)
  show thesis
  proof (rule that [OF t len])
    show "unat file_length = length build_ftyp + length moov + mdat_header_size (payload_bytes tracks) +
       sum_list (map (unat \<circ> sample_bytes) tracks)"
      using unat_checked_add [OF total] header payload tree(2) by linarith
    show "unat (starts ! i) = length build_ftyp + length moov + mdat_header_size (payload_bytes tracks) +
       sum_list (map (unat \<circ> sample_bytes) (take i tracks))" if "i < length tracks" for i
      using positions that header tree(2) by (simp add: take_map comp_def)
    show "list_all (\<lambda>start. uint start < 2 ^ 32) starts" if "\<not> large"
    proof (rule patched_starts_fit)
      show "each (patch_offset False) (zip (wr_patch w) starts) (wr_bytes w) = Inr moov"
        using patched that by simp
      show "length (wr_patch w) = length starts"
        using build_moov_places [OF wf built] len by simp
    qed
    show "length (dt_samples t) < 2 ^ 32" if "t \<in> set tracks" for t
      by (rule build_moov_tracks [OF built wf that])
  qed
qed

lemma write_all_bytes: "write_all data out = Inr out' \<Longrightarrow> snk_bytes out' = snk_bytes out @ data"
  by (auto simp: write_all_def split: option.splits)

text \<open>The sample bytes of a track, as the disk holds them.\<close>

definition disk_data :: "mux_disk \<Rightarrow> mux_track \<Rightarrow> u8 list" where
  "disk_data d t = track_data (unwrap_or [] (dk_files d (tk_path t))) (dt_samples (tk_demuxed t))"

definition short_files :: "mux_disk \<Rightarrow> bool" where
  "short_files d \<longleftrightarrow> (\<forall>path bytes. dk_files d path = Some bytes \<longrightarrow> length bytes < 2 ^ 63)"

lemma length_track_data:
  assumes "\<forall>x\<in>set samples. 0 < sm_size x \<longrightarrow> within bytes x"
  shows "length (track_data bytes samples) = sum_list (map (\<lambda>s. unat (sm_size s)) samples)"
  using assms
proof (induction samples)
  case (Cons x samples)
  have "length (sample_data bytes x) = unat (sm_size x)"
    using Cons.prems by (cases "sm_size x = 0") (auto simp: sample_data_def within_def word_greater_zero_iff)
  then show ?case using Cons by (simp add: track_data_def)
qed (simp add: track_data_def)

lemma copy_tracks:
  assumes "each (\<lambda>t. copy_samples (dk_pieces d (tk_path t)) (open_source d (tk_path t))
      (dt_samples (tk_demuxed t))) tracks out = Inr out'" "short_files d"
  shows "snk_bytes out' = snk_bytes out @ concat (map (disk_data d) tracks) \<and>
    (\<forall>t\<in>set tracks. length (disk_data d t) = sum_list (map (\<lambda>s. unat (sm_size s)) (dt_samples (tk_demuxed t))))"
  using assms(1)
proof (induction tracks arbitrary: out)
  case (Cons t tracks)
  obtain out1 where out1: "copy_samples (dk_pieces d (tk_path t)) (open_source d (tk_path t))
      (dt_samples (tk_demuxed t)) out = Inr out1"
    and rest: "each (\<lambda>t. copy_samples (dk_pieces d (tk_path t)) (open_source d (tk_path t))
      (dt_samples (tk_demuxed t))) tracks out1 = Inr out'"
    using Cons.prems by (auto simp: result_simps)
  obtain bytes s where bytes: "dk_files d (tk_path t) = Some bytes"
    and copied: "each (copy_one (dk_pieces d (tk_path t))
        \<lparr>src_bytes = bytes, src_error = dk_read_error d (tk_path t)\<rparr>) (dt_samples (tk_demuxed t)) (0, out) = Inr s"
      "out1 = snd s"
    using out1 by (auto simp: copy_samples_def open_source_def result_simps split: option.splits)
  have "length bytes < 2 ^ 63" using assms(2) bytes by (simp add: short_files_def)
  with copy_samples_reads [OF copied(1)] have
    "snk_bytes out1 = snk_bytes out @ disk_data d t"
    "\<forall>x\<in>set (dt_samples (tk_demuxed t)). 0 < sm_size x \<longrightarrow> within bytes x"
    by (simp_all add: copied(2) disk_data_def bytes unwrap_or_def)
  then show ?case
    using Cons.IH [OF rest] length_track_data by (auto simp: disk_data_def bytes unwrap_or_def)
qed simp

lemma write_output_parts:
  assumes "write_output output tracks force d = (Inr file_length, d')"
  obtains moov mdat out out' where "layout_moov force (map tk_demuxed tracks) = Inr (file_length, moov)"
    "mdat_header (payload_bytes (map tk_demuxed tracks)) = Inr mdat"
    "each (\<lambda>t. copy_samples (dk_pieces d (tk_path t)) (open_source d (tk_path t))
       (dt_samples (tk_demuxed t))) tracks out = Inr out'"
    "snk_bytes out = build_ftyp @ moov @ mdat"
    "dk_files d' output = Some (snk_bytes out')"
proof -
  obtain moov where moov: "layout_moov force (map tk_demuxed tracks) = Inr (file_length, moov)"
    using assms by (auto simp: write_output_def write_parts_def write_file_def result_simps
        split: sum.splits prod.splits)
  obtain out0 where out0: "dk_create d output = Inr out0"
    using assms moov by (auto simp: write_output_def write_parts_def write_file_def split: sum.splits)
  obtain out1 out2 mdat out3 out4 where steps:
    "write_all build_ftyp (out0\<lparr>snk_bytes := []\<rparr>) = Inr out1" "write_all moov out1 = Inr out2"
    "mdat_header (payload_bytes (map tk_demuxed tracks)) = Inr mdat" "write_all mdat out2 = Inr out3"
    "each (\<lambda>t. copy_samples (dk_pieces d (tk_path t)) (open_source d (tk_path t))
       (dt_samples (tk_demuxed t))) tracks out3 = Inr out4"
    "dk_files d' output = Some (snk_bytes out4)"
    using assms moov out0
    by (auto simp: write_output_def write_parts_def write_file_def result_simps split: sum.splits prod.splits)
  show thesis
    by (rule that [OF moov steps(3,5) _ steps(6)])
       (use steps(1,2,4) in \<open>auto dest!: write_all_bytes\<close>)
qed

text \<open>What a written file is made of, and where its tracks are.\<close>

definition laid_out ::
  "mux_disk \<Rightarrow> mux_track list \<Rightarrow> bool \<Rightarrow> u64 list \<Rightarrow> box_tree \<Rightarrow> u8 list \<Rightarrow> u8 list \<Rightarrow> bool" where
  "laid_out d tracks large starts tree mdat bytes \<longleftrightarrow>
    bytes = build_ftyp @ tree_bytes tree @ mdat @ concat (map (disk_data d) tracks) \<and>
    moov_tree (map tk_demuxed tracks) movie_timescale (movie_duration (map tk_demuxed tracks)) large
      (map (offset_bytes large) starts) = Inr tree \<and>
    mdat_header (payload_bytes (map tk_demuxed tracks)) = Inr mdat \<and>
    length starts = length tracks \<and> (large \<or> list_all (\<lambda>start. uint start < 2 ^ 32) starts) \<and>
    (\<forall>i<length tracks. take (length (disk_data d (tracks ! i))) (drop (unat (starts ! i)) bytes) =
       disk_data d (tracks ! i))"

lemma write_output_laid_out:
  assumes "write_output output tracks force d = (Inr file_length, d')"
    and "list_all (known_header \<circ> tk_demuxed) tracks" and "short_files d" and "short_files d'"
  shows "\<exists>large starts tree mdat bytes.
    dk_files d' output = Some bytes \<and> unat file_length = length bytes \<and>
    laid_out d tracks large starts tree mdat bytes"
proof -
  let ?ts = "map tk_demuxed tracks"
  obtain moov mdat out out' where laid: "layout_moov force ?ts = Inr (file_length, moov)"
    and mdat: "mdat_header (payload_bytes ?ts) = Inr mdat"
    and copied: "each (\<lambda>t. copy_samples (dk_pieces d (tk_path t)) (open_source d (tk_path t))
       (dt_samples (tk_demuxed t))) tracks out = Inr out'"
    and out: "snk_bytes out = build_ftyp @ moov @ mdat"
    and stored: "dk_files d' output = Some (snk_bytes out')"
    by (rule write_output_parts [OF assms(1)])
  note data = copy_tracks [OF copied assms(3)]
  have bytes: "snk_bytes out' = (build_ftyp @ moov @ mdat) @ concat (map (disk_data d) tracks)"
    using data out by simp
  have "length (snk_bytes out') < 2 ^ 63" using assms(4) stored by (simp add: short_files_def)
  then have room: "length build_ftyp + length moov + 16 < 2 ^ 64" using bytes by simp
  have wf: "list_all known_header ?ts" using assms(2) by (simp add: list_all_iff)
  obtain large starts tree where layout:
    "moov_tree ?ts movie_timescale (movie_duration ?ts) large (map (offset_bytes large) starts) = Inr tree"
    "moov = tree_bytes tree" "length starts = length ?ts"
    "unat file_length = length build_ftyp + length moov + mdat_header_size (payload_bytes ?ts) +
       sum_list (map (unat \<circ> sample_bytes) ?ts)"
    "\<And>i. i < length ?ts \<Longrightarrow> unat (starts ! i) =
       length build_ftyp + length moov + mdat_header_size (payload_bytes ?ts) +
       sum_list (map (unat \<circ> sample_bytes) (take i ?ts))"
    "\<not> large \<Longrightarrow> list_all (\<lambda>start. uint start < 2 ^ 32) starts"
    "\<And>t. t \<in> set ?ts \<Longrightarrow> length (dt_samples t) < 2 ^ 32"
    by (rule layout_moov_tree [OF laid wf room]) blast
  have size: "length (disk_data d t) = unat (sample_bytes (tk_demuxed t))" if "t \<in> set tracks" for t
    using data unat_sample_bytes [OF layout(7)] that by simp
  have sizes: "map (unat \<circ> sample_bytes) (take i ?ts) = map (length \<circ> disk_data d) (take i tracks)" for i
    using size by (auto simp: take_map dest: in_set_takeD)
  have total: "map (unat \<circ> sample_bytes) ?ts = map (length \<circ> disk_data d) tracks"
    using size by auto
  have header: "length (build_ftyp @ moov @ mdat) =
      length build_ftyp + length moov + mdat_header_size (payload_bytes ?ts)"
    using mdat_header_length [OF mdat] by simp
  have "take (length (disk_data d (tracks ! i))) (drop (unat (starts ! i)) (snk_bytes out')) =
      disk_data d (tracks ! i)" if i: "i < length tracks" for i
  proof -
    have split: "concat (map (disk_data d) tracks) = concat (map (disk_data d) (take i tracks)) @
        disk_data d (tracks ! i) @ concat (map (disk_data d) (drop (Suc i) tracks))"
      by (metis id_take_nth_drop [OF i] concat.simps(2) concat_append list.simps(9) map_append)
    have "unat (starts ! i) = length ((build_ftyp @ moov @ mdat) @ concat (map (disk_data d) (take i tracks)))"
      using layout(5) [of i] i header sizes [of i] by (simp add: length_concat comp_def)
    moreover have "snk_bytes out' = ((build_ftyp @ moov @ mdat) @ concat (map (disk_data d) (take i tracks))) @
        disk_data d (tracks ! i) @ concat (map (disk_data d) (drop (Suc i) tracks))"
      by (simp add: bytes split)
    ultimately show ?thesis by simp
  qed
  moreover have "unat file_length = length (snk_bytes out')"
    using layout(4) header arg_cong [OF total, of sum_list] by (simp add: bytes length_concat comp_def)
  ultimately show ?thesis
    using stored layout(1,2,3,6) mdat bytes unfolding laid_out_def
    by (intro exI [of _ large] exI [of _ starts] exI [of _ tree] exI [of _ mdat] exI [of _ "snk_bytes out'"]) auto
qed

section \<open>Reading the offsets back\<close>

lemma length_forest_le: "t \<in> set ts \<Longrightarrow> length (tree_bytes t) \<le> length (forest_bytes ts)"
  by (induction ts) auto

lemma fits_children:
  assumes "length (forest_bytes ts) < 2 ^ 32" "\<forall>t\<in>set ts. length (tree_kind t) = 4"
  shows "list_all fits ts"
  unfolding list_all_iff
proof
  fix t assume t: "t \<in> set ts"
  have "8 + length (tree_body t) < 2 ^ 32"
    using length_forest_le [OF t] length_tree_bytes [of t] assms t by simp
  then have "int (8 + length (tree_body t)) < 2 ^ 32" by (simp only: of_nat_less_numeral_power_cancel_iff)
  then show "fits t" using assms(2) t by (simp add: fits_def)
qed

lemma set_leaf_option: "t \<in> set (leaf_option kind body) \<Longrightarrow> tree_kind t = kind"
  by (auto simp: leaf_option_def split: option.splits)

lemma body_shorter: "length (tree_body t) < length (tree_bytes t)"
  by (simp add: tree_bytes_box box_bytes_def)

text \<open>The kinds of the children, and where a path goes among them.\<close>

lemma find_last_child:
  assumes "tree_body u = forest_bytes (before @ [t])" "length (tree_body u) < 2 ^ 32"
    and "tree_kind t = kind" "length kind = 4"
    and "\<forall>b\<in>set before. length (tree_kind b) = 4 \<and> tree_kind b \<noteq> kind"
  shows "find_box [kind] (tree_body u) = Some (tree_body t)"
    and "rest \<noteq> [] \<Longrightarrow> find_box rest (tree_body t) = Some body \<Longrightarrow>
      find_box (kind # rest) (tree_body u) = Some body"
proof -
  have fit: "list_all fits (before @ t # [])" by (rule fits_children) (use assms in auto)
  have other: "\<forall>b\<in>set before. tree_kind b \<noteq> tree_kind t" using assms(3,5) by simp
  show "find_box [kind] (tree_body u) = Some (tree_body t)"
    using find_box_forest(1) [OF fit other] by (simp only: assms(1,3))
  show "find_box (kind # rest) (tree_body u) = Some body"
    if "rest \<noteq> []" "find_box rest (tree_body t) = Some body"
    using find_box_forest(2) [OF fit other that] by (simp only: assms(1,3))
qed

abbreviation offset_kind :: "bool \<Rightarrow> string" where
  "offset_kind large \<equiv> (if large then ''co64'' else ''stco'')"

lemma find_offset_in_trak:
  assumes "known_header t" "length (tree_bytes (trak_tree t large parts chunk)) < 2 ^ 32"
  shows "find_box [''mdia'', ''minf'', ''stbl'', offset_kind large] (tree_body (trak_tree t large parts chunk)) =
    Some ([0, 0, 0, 0] @ be32 1 @ chunk)"
proof -
  obtain tkhd mdhd tables where parts: "parts = (tkhd, mdhd, tables)" by (cases parts)
  let ?leaves = "([Leaf ''stsd'' (dt_stsd t), Leaf ''stts'' (tb_stts tables)] @
       leaf_option ''ctts'' (tb_ctts tables) @
       [Leaf ''stsc'' (tb_stsc tables), Leaf ''stsz'' (tb_stsz tables)] @
       leaf_option ''stss'' (tb_stss tables))"
  let ?stbl = "stbl_tree t tables large chunk" and ?minf = "minf_tree t tables large chunk"
  let ?infs = "[Leaf (fst (dt_media_header t)) (snd (dt_media_header t)), Leaf ''dinf'' (dt_dinf t)]"
  let ?mdias = "[Leaf ''mdhd'' mdhd, Leaf ''hdlr'' (dt_hdlr t)]"
  let ?mdia = "Node ''mdia'' (?mdias @ [?minf])"
  have bodies: "tree_body ?stbl = forest_bytes (?leaves @ [offset_leaf large chunk])"
    "tree_body ?minf = forest_bytes (?infs @ [?stbl])" "tree_body ?mdia = forest_bytes (?mdias @ [?minf])"
    "tree_body (trak_tree t large parts chunk) = forest_bytes ([Leaf ''tkhd'' tkhd] @ [?mdia])"
    by (simp_all add: stbl_tree_def minf_tree_def trak_tree_def parts)
  have kinds: "tree_kind ?stbl = ''stbl''" "tree_kind ?minf = ''minf''" "tree_kind ?mdia = ''mdia''"
    "tree_kind (offset_leaf large chunk) = offset_kind large"
    by (simp_all add: stbl_tree_def minf_tree_def offset_leaf_def)
  have trak: "length (tree_body (trak_tree t large parts chunk)) < 2 ^ 32"
    using assms(2) body_shorter [of "trak_tree t large parts chunk"] by simp
  have mdia: "length (tree_body ?mdia) < 2 ^ 32"
    using trak body_shorter [of ?mdia] bodies(4) by simp
  have minf: "length (tree_body ?minf) < 2 ^ 32"
    using mdia body_shorter [of ?minf] bodies(3) by simp
  have stbl: "length (tree_body ?stbl) < 2 ^ 32"
    using minf body_shorter [of ?stbl] bodies(2) by simp
  have "find_box [offset_kind large] (tree_body ?stbl) = Some (tree_body (offset_leaf large chunk))"
    by (rule find_last_child(1) [OF bodies(1) stbl kinds(4)]) (auto dest: set_leaf_option)
  then have "find_box [''stbl'', offset_kind large] (tree_body ?minf) = Some (tree_body (offset_leaf large chunk))"
    by (rule find_last_child(2) [OF bodies(2) minf kinds(1), rotated -1])
       (use assms(1) in \<open>auto simp: known_header_def\<close>)
  then have "find_box [''minf'', ''stbl'', offset_kind large] (tree_body ?mdia) = Some (tree_body (offset_leaf large chunk))"
    by (rule find_last_child(2) [OF bodies(3) mdia kinds(2), rotated -1]) auto
  then have "find_box [''mdia'', ''minf'', ''stbl'', offset_kind large]
      (tree_body (trak_tree t large parts chunk)) = Some (tree_body (offset_leaf large chunk))"
    by (rule find_last_child(2) [OF bodies(4) trak kinds(3), rotated -1]) auto
  then show ?thesis by (simp only: offset_leaf_def tree_body.simps)
qed

text \<open>The payloads of the track boxes of a movie box.\<close>

definition traks_of :: "u8 list \<Rightarrow> u8 list list" where
  "traks_of moov = map snd (filter (\<lambda>(kind, _). kind = as_bytes ''trak'') (boxes moov))"

definition stored_offset :: "bool \<Rightarrow> u64 \<Rightarrow> u8 list" where
  "stored_offset large start = [0, 0, 0, 0] @ be32 1 @ offset_bytes large start"

lemma find_offsets_in_forest:
  assumes "trak_forest ts large (zip its (map (offset_bytes large) starts)) = Inr traks"
    and "list_all (known_header \<circ> snd) its" "length starts = length its" "length (forest_bytes traks) < 2 ^ 32"
  shows "map (\<lambda>t. find_box [''mdia'', ''minf'', ''stbl'', offset_kind large] (tree_body t)) traks =
      map (Some \<circ> stored_offset large) starts \<and> (\<forall>t\<in>set traks. tree_kind t = ''trak'')"
  using assms
proof (induction its arbitrary: traks starts)
  case Nil
  then show ?case by (simp add: trak_forest_def)
next
  case (Cons it its)
  obtain index t where it: "it = (index, t)" by (cases it)
  obtain start starts' where starts: "starts = start # starts'" using Cons.prems(3) by (cases starts) auto
  obtain parts traks' where traks: "traks = trak_tree t large parts (offset_bytes large start) # traks'"
    and rest: "trak_forest ts large (zip its (map (offset_bytes large) starts')) = Inr traks'"
    using Cons.prems(1) by (auto simp: it starts trak_forest_def result_simps)
  have "tree_kind (trak_tree t large parts (offset_bytes large start)) = ''trak''"
    by (cases parts) (simp add: trak_tree_def)
  moreover have "find_box [''mdia'', ''minf'', ''stbl'', offset_kind large]
      (tree_body (trak_tree t large parts (offset_bytes large start))) = Some (stored_offset large start)"
    unfolding stored_offset_def
    by (rule find_offset_in_trak) (use Cons.prems traks in \<open>auto simp: it\<close>)
  moreover have "map (\<lambda>t. find_box [''mdia'', ''minf'', ''stbl'', offset_kind large] (tree_body t)) traks' =
      map (Some \<circ> stored_offset large) starts' \<and> (\<forall>t\<in>set traks'. tree_kind t = ''trak'')"
    using Cons.IH [OF rest] Cons.prems starts traks by simp
  ultimately show ?case by (simp only: traks starts list.map comp_apply) auto
qed

lemma find_offsets:
  assumes tree: "moov_tree tracks ts duration large (map (offset_bytes large) starts) = Inr tree"
    and "list_all known_header tracks" "length starts = length tracks" "length (tree_bytes tree) < 2 ^ 32"
  shows "map (find_box [''mdia'', ''minf'', ''stbl'', offset_kind large]) (traks_of (tree_body tree)) =
    map (Some \<circ> stored_offset large) starts" and "tree_kind tree = ''moov''"
proof -
  obtain mvhd traks where eq: "tree = Node ''moov'' (Leaf ''mvhd'' mvhd # traks)"
    and traks: "trak_forest ts large (zip (List.enumerate 0 tracks) (map (offset_bytes large) starts)) = Inr traks"
    using tree by (auto simp: moov_tree_def result_simps)
  then show "tree_kind tree = ''moov''" by simp
  have "length (forest_bytes (Leaf ''mvhd'' mvhd # traks)) < 2 ^ 32"
    using assms(4) body_shorter [of tree] by (simp add: eq)
  moreover from this have found: "map (\<lambda>t. find_box [''mdia'', ''minf'', ''stbl'', offset_kind large] (tree_body t)) traks =
      map (Some \<circ> stored_offset large) starts" "\<forall>t\<in>set traks. tree_kind t = ''trak''"
    using find_offsets_in_forest [OF traks list_all_enumerate [OF assms(2)]] assms(3) by auto
  ultimately have "list_all fits (Leaf ''mvhd'' mvhd # traks)"
    by (intro fits_children) auto
  then have "boxes (tree_body tree) =
      map (\<lambda>t. (as_bytes (tree_kind t), tree_body t)) (Leaf ''mvhd'' mvhd # traks)"
    unfolding eq tree_body.simps by (rule boxes_forest)
  then have "traks_of (tree_body tree) = map tree_body traks"
    using found(2) by (simp add: traks_of_def filter_map comp_def split_def)
  then show "map (find_box [''mdia'', ''minf'', ''stbl'', offset_kind large]) (traks_of (tree_body tree)) =
    map (Some \<circ> stored_offset large) starts"
    using found(1) by (simp only: map_map comp_def)
qed

text \<open>
  C26.  The file the muxer reports as written is exactly the file type, the movie box with its
  chunk offsets filled in, the header of the media data and every sample of every track in order;
  it has the length reported, and the chunk offset of each track is the position of its samples.
\<close>
theorem mux_output_layout:
  assumes "write_output output tracks force d = (Inr file_length, d')"
    and "list_all (known_header \<circ> tk_demuxed) tracks" and "short_files d" and "short_files d'"
  shows "\<exists>large starts tree mdat bytes.
    dk_files d' output = Some bytes \<and>
    bytes = build_ftyp @ tree_bytes tree @ mdat @ concat (map (disk_data d) tracks) \<and>
    unat file_length = length bytes \<and>
    moov_tree (map tk_demuxed tracks) movie_timescale (movie_duration (map tk_demuxed tracks)) large
      (map (offset_bytes large) starts) = Inr tree \<and>
    mdat_header (payload_bytes (map tk_demuxed tracks)) = Inr mdat \<and>
    length starts = length tracks \<and> (large \<or> list_all (\<lambda>start. uint start < 2 ^ 32) starts) \<and>
    (\<forall>i<length tracks. take (length (disk_data d (tracks ! i))) (drop (unat (starts ! i)) bytes) =
       disk_data d (tracks ! i))"
  using write_output_laid_out [OF assms] unfolding laid_out_def by blast

text \<open>
  C27.  The offsets a reader finds in the written file are those of the samples, however large the
  file is, as long as what comes before the samples is smaller than 4 GiB, the most a box size can
  say: following the boxes with the program's own iterator, every track box of the movie box holds
  one chunk offset, of 64 bits or of 32 that the offset fits in, and the bytes of the file at that
  offset are the track's samples.
\<close>
theorem mux_output_is_readable:
  assumes "write_output output tracks force d = (Inr file_length, d')"
    and "list_all (known_header \<circ> tk_demuxed) tracks" and "short_files d" and "short_files d'"
    and "dk_files d' output = Some bytes"
    and "length bytes < 2 ^ 32 + sum_list (map (length \<circ> disk_data d) tracks)"
  shows "\<exists>large moov (starts :: u64 list). find_box [''moov''] bytes = Some moov \<and>
    map (find_box [''mdia'', ''minf'', ''stbl'', if large then ''co64'' else ''stco'']) (traks_of moov) =
      map (\<lambda>start. Some ([0, 0, 0, 0] @ be32 1 @
        (if large then to_be_bytes 8 start else be32 (ucast start)))) starts \<and>
    length starts = length tracks \<and> (large \<or> list_all (\<lambda>start. uint start < 2 ^ 32) starts) \<and>
    (\<forall>i<length tracks. take (length (disk_data d (tracks ! i))) (drop (unat (starts ! i)) bytes) =
       disk_data d (tracks ! i))"
proof -
  obtain large starts tree mdat where out: "laid_out d tracks large starts tree mdat bytes"
    using write_output_laid_out [OF assms(1-4)] assms(5) by auto
  let ?ftyp = "Leaf ''ftyp'' (as_bytes ''isom'' @ be32 0x00000200 @
     concat (map as_bytes [''isom'', ''iso2'', ''mp41'', ''mp42'']))"
  have bytes: "bytes = tree_bytes ?ftyp @ tree_bytes tree @ mdat @ concat (map (disk_data d) tracks)"
    using out by (simp only: laid_out_def build_ftyp_tree)
  have small: "length (forest_bytes [?ftyp, tree]) < 2 ^ 32"
    using assms(6) bytes by (simp add: length_concat comp_def)
  moreover have "list_all known_header (map tk_demuxed tracks)" using assms(2) by (simp add: list_all_iff)
  ultimately have offsets: "map (find_box [''mdia'', ''minf'', ''stbl'', offset_kind large]) (traks_of (tree_body tree)) =
      map (Some \<circ> stored_offset large) starts" and kind: "tree_kind tree = ''moov''"
    using find_offsets [of "map tk_demuxed tracks" _ _ large starts tree] out by (auto simp: laid_out_def)
  have fit: "fits ?ftyp" "fits tree"
    using fits_children [of "[?ftyp, tree]"] small kind by auto
  have "find_box [''moov''] bytes = Some (tree_body tree)"
    by (simp only: find_box.simps bytes boxes_Cons [OF fit(1)] boxes_Cons [OF fit(2)]) (simp add: kind)
  then show ?thesis
    using offsets out unfolding laid_out_def stored_offset_def [abs_def] offset_bytes_def [abs_def] comp_def
    by (intro exI [of _ large] exI [of _ "tree_body tree"] exI [of _ starts] conjI) (simp only: | blast)+
qed

section \<open>The timeline of a fragmented track\<close>

definition sample_durations :: "mux_sample list \<Rightarrow> nat" where
  "sample_durations samples = sum_list (map (\<lambda>s. unat (sm_duration s)) samples)"

lemma sample_durations_simps [simp]:
  "sample_durations [] = 0" "sample_durations (s # ss) = unat (sm_duration s) + sample_durations ss"
  "sample_durations (ss @ ts) = sample_durations ss + sample_durations ts"
  by (simp_all add: sample_durations_def)

definition timeline :: "fragments \<Rightarrow> bool" where
  "timeline fr \<longleftrightarrow> unat (fr_decoded fr) = sample_durations (fr_samples fr)"

lemma timeline_default: "timeline fragments_default"
  by (simp add: timeline_def fragments_default_def)

lemma run_sample_timeline:
  assumes "run_sample version flags header first_flags offset fr r = (Inr (offset', fr'), r')" "timeline fr"
  shows "timeline fr'"
  using assms
  by (auto simp: run_sample_def act_simps timeline_def result_simps unat_ucast_up dest!: unat_checked_add)

lemma run_samples_timeline:
  assumes "run_samples n version flags header first_flags offset fr r = (Inr (offset', fr'), r')" "timeline fr"
  shows "timeline fr'"
  using assms
proof (induction n arbitrary: first_flags offset fr r)
  case 0
  then show ?case by (simp add: act_simps)
next
  case (Suc n)
  then obtain offset1 fr1 r1 where
    "run_sample version flags header first_flags offset fr r = (Inr (offset1, fr1), r1)"
    "run_samples n version flags header None offset1 fr1 r1 = (Inr (offset', fr'), r')"
    by (auto simp: act_simps)
  then show ?case using Suc.IH run_sample_timeline Suc.prems(2) by blast
qed

lemma push_run_timeline:
  assumes "push_run run header fragment s = Inr s'" "timeline (snd s)" shows "timeline (snd s')"
proof -
  obtain offset' fr' r' where "run_act header fragment (fst s) (snd s) (reader_new run) = (Inr (offset', fr'), r')"
    "s' = (Some offset', fr')"
    using assms(1) by (cases "run_act header fragment (fst s) (snd s) (reader_new run)")
      (auto simp: push_run_def result_simps)
  then show ?thesis
    using assms(2) unfolding run_act_def Let_def
    by (auto simp: act_simps dest!: run_samples_timeline)
qed

text \<open>The gap a fragment leaves is carried by the sample before it, and never overflows.\<close>

lemma carry_gap_Inr:
  assumes "carry_gap gap fr = Inr fr'"
  obtains duration where "uint gap < 2 ^ 32" "fr_samples fr \<noteq> []"
    "checked_add (sm_duration (List.last (fr_samples fr))) (ucast gap) = Some duration"
    "fr' = fr\<lparr>fr_samples := butlast (fr_samples fr) @ [(List.last (fr_samples fr))\<lparr>sm_duration := duration\<rparr>],
       fr_decoded := fr_decoded fr + gap\<rparr>"
proof -
  have "\<not> 2 ^ 32 \<le> uint gap" "fr_samples fr \<noteq> []"
    using assms by (metis carry_gap_def sum.distinct(1))+
  moreover from this obtain duration where
    "checked_add (sm_duration (List.last (fr_samples fr))) (ucast gap) = Some duration"
    "fr' = fr\<lparr>fr_samples := butlast (fr_samples fr) @ [(List.last (fr_samples fr))\<lparr>sm_duration := duration\<rparr>],
       fr_decoded := fr_decoded fr + gap\<rparr>"
    using assms unfolding carry_gap_def Let_def
    by (cases "checked_add (sm_duration (List.last (fr_samples fr))) (ucast gap)")
       (simp_all only: if_False ok_or_simps rbind_simps sum.simps simp_thms)
  ultimately show thesis using that by (simp only: not_le simp_thms)
qed

lemma align_timeline:
  assumes "align base fr = Inr fr'" "timeline fr" shows "timeline fr'"
proof (cases "fr_origin fr")
  case None
  then show ?thesis using assms by (auto simp: align_def timeline_def)
next
  case (Some origin)
  let ?expected = "saturating_add origin (fr_decoded fr)"
  show ?thesis
  proof (cases "?expected < base")
    case False
    then show ?thesis using assms Some by (auto simp: align_def Let_def split: if_splits)
  next
    case True
    let ?gap = "base - ?expected" and ?final = "List.last (fr_samples fr)"
    have exact: "unat ?expected = unat origin + unat (fr_decoded fr)"
      using True unat_less [of base] by (simp add: word_less_nat_alt unat_saturating_add min_def split: if_splits)
    have gap: "unat ?gap = unat base - unat ?expected"
      using True by (simp add: unat_sub less_imp_le)
    have "carry_gap ?gap fr = Inr fr'"
      using assms(1) True less_imp_neq [OF True] by (simp add: align_def Some Let_def)
    then obtain duration where small: "uint ?gap < 2 ^ 32" and samples: "fr_samples fr \<noteq> []"
      and duration: "checked_add (sm_duration ?final) (ucast ?gap) = Some duration"
      and fr': "fr' = fr\<lparr>fr_samples := butlast (fr_samples fr) @ [?final\<lparr>sm_duration := duration\<rparr>],
        fr_decoded := fr_decoded fr + ?gap\<rparr>"
      by (rule carry_gap_Inr)
    have "unat (fr_decoded fr) + unat ?gap < 2 ^ 64"
      using exact gap unat_less [of base] True by (simp add: word_less_nat_alt)
    then have decoded: "unat (fr_decoded fr + ?gap) = unat (fr_decoded fr) + unat ?gap"
      by (simp add: unat_word_ariths)
    have "int (unat ?gap) < int (2 ^ 32)" using small by (simp only: uint_nat of_nat_power of_nat_numeral)
    then have "unat ?gap < 2 ^ 32" by (simp only: of_nat_less_iff)
    then have "unat (ucast ?gap :: u32) = unat ?gap"
      by (simp add: unsigned_ucast_eq take_bit_nat_eq_self)
    then have "unat duration = unat (sm_duration ?final) + unat ?gap"
      using unat_checked_add [OF duration] by simp
    moreover have "fr_samples fr = butlast (fr_samples fr) @ [?final]" using samples by simp
    then have "sample_durations (fr_samples fr) = sample_durations (butlast (fr_samples fr)) + unat (sm_duration ?final)"
      by (metis sample_durations_simps add_0_right)
    ultimately show ?thesis using assms(2) decoded by (simp add: timeline_def fr')
  qed
qed

lemma push_traf_timeline:
  assumes "push_traf traf fragment fr = Inr fr'" "timeline fr" shows "timeline fr'"
proof -
  obtain header aligned s where aligned: "(case Option.bind (find_box [''tfdt''] traf) read_decode_time of
        None \<Rightarrow> Inr fr | Some base \<Rightarrow> align base fr) = Inr aligned"
    and runs: "each (\<lambda>(kind, run) s. if kind = as_bytes ''trun'' then push_run run header fragment s else Inr s)
        (boxes traf) (None, aligned) = Inr s" and fr': "fr' = snd s"
    using assms(1) unfolding push_traf_def by (auto simp: result_simps split: if_splits)
  have "timeline aligned"
    using aligned assms(2) by (auto split: option.splits dest: align_timeline)
  then have "timeline (snd s)"
    by (intro each_invariant [OF runs, of "timeline \<circ> snd", unfolded comp_def])
       (auto split: if_splits prod.splits dest: push_run_timeline)
  then show ?thesis by (simp add: fr')
qed

lemma push_fragment_timeline:
  "push_fragment moof start fr = Inr fr' \<Longrightarrow> timeline fr \<Longrightarrow> timeline fr'"
  unfolding push_fragment_def
  by (erule each_invariant) (auto split: if_splits prod.splits dest: push_traf_timeline)

lemma demux_top_timeline:
  assumes "demux_top f len position init fr = Inr (init', fr')" "timeline fr" shows "timeline fr'"
  using assms
proof (induction f len position init fr rule: demux_top.induct)
  case (1 f len position init fr)
  show ?case
  proof (cases "saturating_add position 8 \<le> len")
    case False
    then show ?thesis using "1.prems" by (subst (asm) demux_top.simps) simp
  next
    case True
    then obtain h where h: "read_header f position len = Inr h"
      using "1.prems"(1) by (subst (asm) demux_top.simps) (auto simp: result_simps)
    note step = "1.prems"(1) [unfolded demux_top.simps [of f len position]]
    consider (moov) "bh_kind h = as_bytes ''moov''"
      | (moof) "bh_kind h \<noteq> as_bytes ''moov''" "bh_kind h = as_bytes ''moof''"
      | (other) "bh_kind h \<noteq> as_bytes ''moov''" "bh_kind h \<noteq> as_bytes ''moof''" by blast
    then show ?thesis
    proof cases
      case moov
      then show ?thesis using step True h "1.IH"(1) [OF True h] "1.prems"(2) by (auto simp: result_simps)
    next
      case moof
      then obtain body fr1 where "read_body f h = Inr body" "push_fragment body (bh_start h) fr = Inr fr1"
        "demux_top f len (bh_end h) init fr1 = Inr (init', fr')"
        using step True h by (auto simp: result_simps)
      then show ?thesis
        using "1.IH"(2) [OF True h moof] push_fragment_timeline "1.prems"(2) by blast
    next
      case other
      then show ?thesis using step True h "1.IH"(3) [OF True h] "1.prems"(2) by simp
    qed
  qed
qed

text \<open>The fragments of a file in order, with the position of the box they are in.\<close>

function fragments_from :: "source_file \<Rightarrow> u64 \<Rightarrow> u64 \<Rightarrow> (u8 list \<times> u64) list" where
  "fragments_from f len position =
     (if saturating_add position 8 \<le> len then
        (case read_header f position len of
           Inl _ \<Rightarrow> []
         | Inr h \<Rightarrow>
             (if bh_kind h = as_bytes ''moof'' then
                (case read_body f h of
                   Inl _ \<Rightarrow> []
                 | Inr moof \<Rightarrow> map (\<lambda>(_, traf). (traf, bh_start h))
                     (filter (\<lambda>(kind, _). kind = as_bytes ''traf'') (boxes moof)))
              else []) @ fragments_from f len (bh_end h))
      else [])"
  by pat_completeness auto
termination
proof (relation "measure (\<lambda>(f, len, position). 2 ^ 64 - unat position)", goal_cases)
  case (2 f len position h) then show ?case
    using read_header_advances [of f position len h] unat_less [of "bh_end h"]
    by (simp add: word_less_nat_alt)
qed simp

declare fragments_from.simps [simp del]

definition fragments_of :: "source_file \<Rightarrow> (u8 list \<times> u64) list" where
  "fragments_of f = fragments_from f (len64 (src_bytes f)) 0"

definition declared_time :: "u8 list \<Rightarrow> u64 option" where
  "declared_time traf = Option.bind (find_box [''tfdt''] traf) read_decode_time"

fun first_declared :: "u64 option list \<Rightarrow> u64 option" where
  "first_declared [] = None"
| "first_declared (t # ts) = (case t of Some time \<Rightarrow> Some time | None \<Rightarrow> first_declared ts)"

lemma first_declared_snoc:
  "first_declared (ts @ [t]) = (case first_declared ts of Some time \<Rightarrow> Some time | None \<Rightarrow> t)"
  by (induction ts) (auto split: option.splits)

lemma each_append: "each f (xs @ ys) s = rbind (each f xs s) (each f ys)"
proof (induction xs arbitrary: s)
  case (Cons x xs)
  then show ?case by (cases "f x s") simp_all
qed simp

lemma push_fragment_each:
  "push_fragment moof start fr = each (\<lambda>(traf, start). push_traf traf start)
     (map (\<lambda>(_, traf). (traf, start)) (filter (\<lambda>(kind, _). kind = as_bytes ''traf'') (boxes moof))) fr"
proof -
  have "each (\<lambda>(kind, traf) fr. if kind = as_bytes ''traf'' then push_traf traf start fr else Inr fr) bs fr =
      each (\<lambda>(traf, start). push_traf traf start)
        (map (\<lambda>(_, traf). (traf, start)) (filter (\<lambda>(kind, _). kind = as_bytes ''traf'') bs)) fr" for bs
  proof (induction bs arbitrary: fr)
    case (Cons b bs)
    show ?case
    proof (cases "fst b = as_bytes ''traf''")
      case True
      then show ?thesis by (cases b; cases "push_traf (snd b) start fr") (simp_all add: Cons)
    next
      case False
      then show ?thesis by (cases b) (simp add: Cons)
    qed
  qed simp
  then show ?thesis by (simp add: push_fragment_def)
qed

lemma demux_top_fragments:
  assumes "demux_top f len position init fr = Inr (init', fr')"
  shows "each (\<lambda>(traf, start). push_traf traf start) (fragments_from f len position) fr = Inr fr'"
  using assms
proof (induction f len position init fr rule: demux_top.induct)
  case (1 f len position init fr)
  show ?case
  proof (cases "saturating_add position 8 \<le> len")
    case False
    then show ?thesis using "1.prems" by (subst (asm) demux_top.simps, subst fragments_from.simps) simp
  next
    case True
    then obtain h where h: "read_header f position len = Inr h"
      using "1.prems"(1) by (subst (asm) demux_top.simps) (auto simp: result_simps)
    note step = "1.prems"(1) [unfolded demux_top.simps [of f len position]]
      and frs = fragments_from.simps [of f len position]
    have kinds: "as_bytes ''moov'' \<noteq> as_bytes ''moof''" by simp
    consider (moov) "bh_kind h = as_bytes ''moov''"
      | (moof) "bh_kind h \<noteq> as_bytes ''moov''" "bh_kind h = as_bytes ''moof''"
      | (other) "bh_kind h \<noteq> as_bytes ''moov''" "bh_kind h \<noteq> as_bytes ''moof''" by blast
    then show ?thesis
    proof cases
      case moov
      then show ?thesis using step True h "1.IH"(1) [OF True h] kinds by (auto simp: result_simps frs)
    next
      case moof
      then obtain body fr1 where "read_body f h = Inr body" "push_fragment body (bh_start h) fr = Inr fr1"
        "demux_top f len (bh_end h) init fr1 = Inr (init', fr')"
        using step True h by (auto simp: result_simps)
      then show ?thesis
        using "1.IH"(2) [OF True h moof] True h moof
        by (simp add: frs each_append push_fragment_each del: as_bytes_inject)
    next
      case other
      then show ?thesis using step True h "1.IH"(3) [OF True h] by (simp add: frs)
    qed
  qed
qed

text \<open>
  What \<open>fragments\<close> holds after fragments that declared the times \<open>ts\<close> and contributed \<open>counts\<close>
  samples each.
\<close>

definition dated :: "u64 option list \<Rightarrow> nat list \<Rightarrow> fragments \<Rightarrow> bool" where
  "dated ts counts fr \<longleftrightarrow>
     timeline fr \<and> fr_origin fr = first_declared ts \<and>
     length counts = length ts \<and> sum_list counts = length (fr_samples fr) \<and>
     (\<forall>i < length counts. \<forall>origin time.
        0 < counts ! i \<and> ts ! i = Some time \<and> first_declared (take i ts) = Some origin \<longrightarrow>
        time = saturating_add origin
          (of_nat (sample_durations (take (sum_list (take i counts)) (fr_samples fr)))))"

text \<open>The samples a fragment announces: the counts in the heads of its runs.\<close>

definition run_length :: "u8 list \<Rightarrow> nat" where
  "run_length run = unat (from_be_bytes (take 4 (drop 4 run)) :: u32)"

definition runs_length :: "(u8 list \<times> u8 list) list \<Rightarrow> nat" where
  "runs_length bs = sum_list (map (\<lambda>(kind, run). if kind = as_bytes ''trun'' then run_length run else 0) bs)"

definition fragment_samples :: "u8 list \<Rightarrow> nat" where
  "fragment_samples traf = runs_length (boxes traf)"

lemma run_sample_appends:
  "run_sample version flags header first_flags offset fr r = (Inr (offset', fr'), r') \<Longrightarrow>
     (\<exists>s. fr_samples fr' = fr_samples fr @ [s]) \<and> fr_origin fr' = fr_origin fr"
  by (auto simp: run_sample_def act_simps)

lemma run_samples_append:
  "run_samples n version flags header first_flags offset fr r = (Inr (offset', fr'), r') \<Longrightarrow>
     (\<exists>new. fr_samples fr' = fr_samples fr @ new \<and> length new = n) \<and> fr_origin fr' = fr_origin fr"
proof (induction n arbitrary: first_flags offset fr r)
  case 0
  then show ?case by (simp add: act_simps)
next
  case (Suc n)
  then obtain offset1 fr1 r1 where
    "run_sample version flags header first_flags offset fr r = (Inr (offset1, fr1), r1)"
    "run_samples n version flags header None offset1 fr1 r1 = (Inr (offset', fr'), r')"
    by (auto simp: act_simps)
  then obtain s new where "fr_samples fr1 = fr_samples fr @ [s]" "fr_samples fr' = fr_samples fr1 @ new"
    "length new = n" "fr_origin fr' = fr_origin fr"
    using Suc.IH run_sample_appends by metis
  then show ?case by (intro conjI exI [of _ "s # new"]) simp_all
qed

lemma rd_full_position:
  "rd_full r = (Inr vf, r') \<Longrightarrow> rd_bytes r' = rd_bytes r \<and> rd_position r' = rd_position r + 4"
  by (auto simp: rd_full_def rd_u8_def act_simps split: option.splits)

lemma rd_u32_value:
  "rd_u32 r = (Inr count, r') \<Longrightarrow> count = from_be_bytes (take 4 (drop (rd_position r) (rd_bytes r)))"
  by (auto simp: rd_u32_def rd_take_def slice_get_def act_simps Let_def simp del: from_be_bytes.simps
      split: if_splits option.splits)

lemma announced_count:
  assumes "rd_full (reader_new run) = (Inr vf, r)" "rd_u32 r = (Inr count, r')"
  shows "unat count = run_length run"
  using rd_full_position [OF assms(1)] rd_u32_value [OF assms(2)]
  by (simp add: reader_new_def run_length_def del: from_be_bytes.simps)

lemma push_run_appends:
  assumes "push_run run header fragment s = Inr s'"
  shows "(\<exists>new. fr_samples (snd s') = fr_samples (snd s) @ new \<and> length new = run_length run) \<and>
    fr_origin (snd s') = fr_origin (snd s)"
proof -
  obtain offset' fr' r' where "run_act header fragment (fst s) (snd s) (reader_new run) = (Inr (offset', fr'), r')"
    "s' = (Some offset', fr')"
    using assms(1) by (cases "run_act header fragment (fst s) (snd s) (reader_new run)")
      (auto simp: push_run_def result_simps)
  then show ?thesis
    unfolding run_act_def Let_def by (auto simp: act_simps dest!: run_samples_append dest: announced_count)
qed

text \<open>Aligning moves only the end of the last sample, to where the fragment starts.\<close>

lemma align_dates:
  assumes "align base fr = Inr fr'" "timeline fr"
  shows "length (fr_samples fr') = length (fr_samples fr)"
    "n < length (fr_samples fr) \<Longrightarrow> take n (fr_samples fr') = take n (fr_samples fr)"
    "fr_origin fr' = (case fr_origin fr of Some origin \<Rightarrow> Some origin | None \<Rightarrow> Some base)"
    "fr_origin fr = Some origin \<Longrightarrow> base = saturating_add origin (of_nat (sample_durations (fr_samples fr')))"
proof -
  have same: "length (fr_samples fr') = length (fr_samples fr) \<and>
      (n < length (fr_samples fr) \<longrightarrow> take n (fr_samples fr') = take n (fr_samples fr)) \<and>
      fr_origin fr' = fr_origin fr" if "carry_gap gap fr = Inr fr'" for gap
    using that by (rule carry_gap_Inr) (auto simp: take_butlast)
  then show "length (fr_samples fr') = length (fr_samples fr)"
    "n < length (fr_samples fr) \<Longrightarrow> take n (fr_samples fr') = take n (fr_samples fr)"
    "fr_origin fr' = (case fr_origin fr of Some origin \<Rightarrow> Some origin | None \<Rightarrow> Some base)"
    using assms(1) by (auto simp: align_def Let_def split: option.splits if_splits)
  assume origin: "fr_origin fr = Some origin"
  have exact: "of_nat (sample_durations (fr_samples fr')) = fr_decoded fr'"
    using align_timeline [OF assms] by (metis of_nat_unat timeline_def ucast_id)
  let ?expected = "saturating_add origin (fr_decoded fr)"
  consider "base = ?expected" "fr' = fr" | "?expected < base" "carry_gap (base - ?expected) fr = Inr fr'"
    using assms(1) origin by (auto simp: align_def Let_def split: if_splits)
  then have "base = saturating_add origin (fr_decoded fr')"
  proof cases
    case 2
    then have decoded: "fr_decoded fr' = fr_decoded fr + (base - ?expected)"
      by (auto elim: carry_gap_Inr)
    have plain: "unat ?expected = unat origin + unat (fr_decoded fr)"
      using 2(1) unat_less [of base] by (simp add: word_less_nat_alt unat_saturating_add min_def split: if_splits)
    then have "?expected = origin + fr_decoded fr"
      using unat_less [of ?expected] by (intro word_unat_eq_iff [THEN iffD2]) (simp add: unat_word_ariths)
    then have "base = origin + fr_decoded fr'" by (simp add: decoded)
    moreover have "unat (fr_decoded fr') = unat base - unat origin"
    proof -
      have "fr_decoded fr' = base - origin" using \<open>base = origin + fr_decoded fr'\<close> by simp
      moreover have "origin \<le> base" using 2(1) plain by (simp add: word_less_nat_alt word_le_nat_alt)
      ultimately show ?thesis by (simp add: unat_sub)
    qed
    moreover have "unat origin \<le> unat base" using 2(1) plain by (simp add: word_less_nat_alt)
    ultimately show ?thesis
      using unat_less [of base] by (intro word_unat_eq_iff [THEN iffD2]) (simp add: unat_saturating_add)
  qed simp
  then show "base = saturating_add origin (of_nat (sample_durations (fr_samples fr')))"
    by (simp add: exact)
qed

lemma demux_iso_track:
  assumes "demux_iso f = Inr t"
  shows "unat (dt_duration t) = sample_durations (dt_samples t)" "dt_samples t \<noteq> []"
    "dt_timescale t \<noteq> 0" "known_header t"
proof -
  obtain init fr moov where top: "demux_top f (len64 (src_bytes f)) 0 None fragments_default = Inr (init, fr)"
    and init: "read_initialization moov fr = Inr t"
    using assms by (auto simp: demux_iso_def result_simps)
  have "timeline fr" by (rule demux_top_timeline [OF top timeline_default])
  then show "unat (dt_duration t) = sample_durations (dt_samples t)" "dt_samples t \<noteq> []"
    "dt_timescale t \<noteq> 0" "known_header t"
    using init by (auto simp: read_initialization_def Let_def result_simps timeline_def known_header_def
        simp del: find_box.simps find_map.simps split: if_splits dest!: find_map_Some)
qed

lemma demux_iso_fragments:
  assumes "demux_iso f = Inr t"
  obtains fr where "each (\<lambda>(traf, start). push_traf traf start) (fragments_of f) fragments_default = Inr fr"
    "dt_samples t = fr_samples fr" "unat (dt_duration t) = sample_durations (dt_samples t)"
proof -
  obtain init fr moov where top: "demux_top f (len64 (src_bytes f)) 0 None fragments_default = Inr (init, fr)"
    and init: "read_initialization moov fr = Inr t"
    using assms by (auto simp: demux_iso_def result_simps)
  have "dt_samples t = fr_samples fr"
    using init by (auto simp: read_initialization_def Let_def result_simps
        simp del: find_box.simps find_map.simps split: if_splits)
  with demux_top_fragments [OF top] demux_iso_track(1) [OF assms] show thesis
    by (intro that) (simp_all add: fragments_of_def)
qed

lemma sum_list_take_less:
  fixes counts :: "nat list"
  assumes "i < length counts" "0 < counts ! i"
  shows "sum_list (take i counts) < sum_list counts"
proof -
  have "sum_list counts = sum_list (take i counts) + counts ! i + sum_list (drop (Suc i) counts)"
    using arg_cong [OF id_take_nth_drop [OF assms(1)], of sum_list] by simp
  with assms(2) show ?thesis by simp
qed

lemma each_push_run:
  assumes "each (\<lambda>(kind, run) s. if kind = as_bytes ''trun'' then push_run run header fragment s else Inr s) bs s = Inr s'"
  shows "(\<exists>new. fr_samples (snd s') = fr_samples (snd s) @ new \<and> length new = runs_length bs) \<and>
    fr_origin (snd s') = fr_origin (snd s)"
  using assms
proof (induction bs arbitrary: s)
  case (Cons b bs)
  obtain kind run where b: "b = (kind, run)" by force
  from Cons.prems obtain s1 where
    s1: "(if kind = as_bytes ''trun'' then push_run run header fragment s else Inr s) = Inr s1"
    and rest: "each (\<lambda>(kind, run) s. if kind = as_bytes ''trun'' then push_run run header fragment s else Inr s) bs s1 = Inr s'"
    by (auto simp: b result_simps)
  from Cons.IH [OF rest] obtain new where new: "fr_samples (snd s') = fr_samples (snd s1) @ new"
    "length new = runs_length bs" "fr_origin (snd s') = fr_origin (snd s1)" by blast
  from s1 obtain first where "fr_samples (snd s1) = fr_samples (snd s) @ first" "fr_origin (snd s1) = fr_origin (snd s)"
    "length first = (if kind = as_bytes ''trun'' then run_length run else 0)"
    by (cases "kind = as_bytes ''trun''") (auto dest!: push_run_appends)
  with new show ?case
    by (intro conjI exI [of _ "first @ new"]) (simp_all add: b runs_length_def)
qed (simp add: runs_length_def)

lemma push_traf_parts:
  assumes "push_traf traf fragment fr = Inr fr'"
  obtains aligned new where "(case declared_time traf of None \<Rightarrow> Inr fr | Some base \<Rightarrow> align base fr) = Inr aligned"
    "fr_samples fr' = fr_samples aligned @ new" "length new = fragment_samples traf" "fr_origin fr' = fr_origin aligned"
proof -
  obtain header aligned s where aligned: "(case declared_time traf of
        None \<Rightarrow> Inr fr | Some base \<Rightarrow> align base fr) = Inr aligned"
    and runs: "each (\<lambda>(kind, run) s. if kind = as_bytes ''trun'' then push_run run header fragment s else Inr s)
        (boxes traf) (None, aligned) = Inr s" and fr': "fr' = snd s"
    using assms unfolding push_traf_def declared_time_def by (auto simp: result_simps split: if_splits)
  from each_push_run [OF runs] aligned fr' that show thesis by (auto simp: fragment_samples_def)
qed

lemma push_traf_dated:
  assumes "push_traf traf fragment fr = Inr fr'" "dated ts counts fr"
  shows "dated (ts @ [declared_time traf]) (counts @ [fragment_samples traf]) fr'"
proof -
  obtain aligned new where aligned: "(case declared_time traf of None \<Rightarrow> Inr fr | Some base \<Rightarrow> align base fr) = Inr aligned"
    and fr': "fr_samples fr' = fr_samples aligned @ new" "length new = fragment_samples traf"
      "fr_origin fr' = fr_origin aligned"
    by (rule push_traf_parts [OF assms(1)])
  have d: "timeline fr" "fr_origin fr = first_declared ts" "length counts = length ts"
    "sum_list counts = length (fr_samples fr)"
    using assms(2) by (auto simp: dated_def)
  have old: "time = saturating_add origin (of_nat (sample_durations (take (sum_list (take i counts)) (fr_samples fr))))"
    if "i < length counts" "0 < counts ! i" "ts ! i = Some time" "first_declared (take i ts) = Some origin"
    for i origin time
    using assms(2) that by (auto simp: dated_def)
  have same: "length (fr_samples aligned) = length (fr_samples fr)"
    "n < length (fr_samples fr) \<Longrightarrow> take n (fr_samples aligned) = take n (fr_samples fr)"
    "fr_origin aligned = first_declared (ts @ [declared_time traf])" for n
    using aligned align_dates [OF _ d(1)] d(2) by (auto simp: first_declared_snoc split: option.splits)
  have start: "time = saturating_add origin (of_nat (sample_durations (fr_samples aligned)))"
    if "declared_time traf = Some time" "first_declared ts = Some origin" for time origin
    using that aligned align_dates(4) [OF _ d(1)] d(2) by simp
  have "time = saturating_add origin (of_nat (sample_durations
        (take (sum_list (take i (counts @ [fragment_samples traf]))) (fr_samples fr'))))"
    if i: "i < length (counts @ [fragment_samples traf])" "0 < (counts @ [fragment_samples traf]) ! i"
      "(ts @ [declared_time traf]) ! i = Some time"
      "first_declared (take i (ts @ [declared_time traf])) = Some origin" for i origin time
  proof (cases "i < length counts")
    case True
    with i have "sum_list (take i counts) < length (fr_samples fr)"
      using sum_list_take_less [of i counts] d(4) by (simp add: nth_append)
    with True i old [of i time origin] d(3) fr'(1) same(1,2) show ?thesis by (simp add: nth_append)
  next
    case False
    with i start [of time origin] d(3,4) fr'(1) same(1) show ?thesis by (simp add: nth_append)
  qed
  with d fr' same push_traf_timeline [OF assms(1) d(1)] show ?thesis
    unfolding dated_def by auto
qed

lemma each_push_traf:
  assumes "each (\<lambda>(traf, start). push_traf traf start) frs fragments_default = Inr fr"
  shows "dated (map (declared_time \<circ> fst) frs) (map (fragment_samples \<circ> fst) frs) fr"
proof -
  have "dated (ts @ map (declared_time \<circ> fst) frs) (counts @ map (fragment_samples \<circ> fst) frs) fr'"
    if "each (\<lambda>(traf, start). push_traf traf start) frs fr = Inr fr'" "dated ts counts fr"
    for frs ts counts fr fr'
    using that
  proof (induction frs arbitrary: ts counts fr)
    case (Cons tr frs)
    obtain fr1 where fr1: "push_traf (fst tr) (snd tr) fr = Inr fr1"
      "each (\<lambda>(traf, start). push_traf traf start) frs fr1 = Inr fr'"
      using Cons.prems(1) by (cases tr) (auto simp: result_simps)
    from Cons.IH [OF fr1(2) push_traf_dated [OF fr1(1) Cons.prems(2)]] show ?case by simp
  qed auto
  moreover have "dated [] [] fragments_default"
    by (simp add: dated_def timeline_default) (simp add: fragments_default_def)
  ultimately show ?thesis using assms by fastforce
qed

section \<open>The sample tables\<close>

text \<open>What a reader of the tables does: the entries a count announces, and the values they stand for.\<close>

primrec table_entries :: "nat \<Rightarrow> u8 list \<Rightarrow> u32 list" where
  "table_entries 0 bytes = []"
| "table_entries (Suc n) bytes = from_be_bytes (take 4 bytes) # table_entries n (drop 4 bytes)"

fun pairs_of :: "'a list \<Rightarrow> ('a \<times> 'a) list" where
  "pairs_of (a # b # rest) = (a, b) # pairs_of rest"
| "pairs_of _ = []"

definition expand :: "(u32 \<times> 'a) list \<Rightarrow> 'a list" where
  "expand runs = concat (map (\<lambda>(count, v). replicate (unat count) v) runs)"

definition table_count :: "u8 list \<Rightarrow> nat" where
  "table_count body = unat (from_be_bytes (take 4 (drop 4 body)) :: u32)"

definition read_runs :: "u8 list \<Rightarrow> u32 list" where
  "read_runs body = expand (pairs_of (table_entries (2 * table_count body) (drop 8 body)))"

lemma expand_append [simp]: "expand (a @ b) = expand a @ expand b"
  by (simp add: expand_def)

lemma push_value_expand:
  assumes "push_value v runs = Inr runs'" shows "expand runs' = expand runs @ [v]"
proof (cases "runs \<noteq> [] \<and> snd (List.last runs) = v")
  case True
  then obtain count where count: "checked_add (fst (List.last runs)) 1 = Some count"
    and runs': "runs' = butlast runs @ [(count, v)]"
    using assms by (auto simp: push_value_def result_simps)
  have "runs = butlast runs @ [(fst (List.last runs), v)]"
    using True by (metis append_butlast_last_id prod.collapse)
  then have "expand runs = expand (butlast runs) @ replicate (unat (fst (List.last runs))) v"
    by (metis expand_append expand_def concat.simps append_Nil2 case_prod_conv list.simps(8,9))
  moreover have "unat count = Suc (unat (fst (List.last runs)))" using unat_checked_add [OF count] by simp
  ultimately show ?thesis by (simp add: runs' expand_def replicate_append_same)
next
  case False
  then show ?thesis using assms by (auto simp: push_value_def expand_def)
qed

lemma each_push_value_expand: "each push_value vs runs = Inr runs' \<Longrightarrow> expand runs' = expand runs @ vs"
  by (induction vs arbitrary: runs) (auto simp: result_simps dest: push_value_expand)

text \<open>Neighbouring runs differ, so there are as few of them as the values allow.\<close>

definition compressed :: "(u32 \<times> 'a) list \<Rightarrow> bool" where
  "compressed runs \<longleftrightarrow> successively (\<lambda>a b. snd a \<noteq> snd b) runs \<and> list_all (\<lambda>r. fst r \<noteq> 0) runs"

lemma push_value_compressed:
  assumes "push_value v runs = Inr runs'" "compressed runs" shows "compressed runs'"
proof (cases "runs \<noteq> [] \<and> snd (List.last runs) = v")
  case True
  then obtain count where count: "checked_add (fst (List.last runs)) 1 = Some count"
    and runs': "runs' = butlast runs @ [(count, v)]"
    using assms by (auto simp: push_value_def result_simps)
  obtain front final where split: "runs = front @ [final]" using True by (metis append_butlast_last_id)
  have "unat count \<noteq> 0" using unat_checked_add [OF count] by simp
  then have "count \<noteq> 0" by auto
  then show ?thesis
    using assms(2) True by (auto simp: split compressed_def runs' successively_append_iff)
next
  case False
  then show ?thesis
    using assms by (auto simp: push_value_def compressed_def successively_append_iff)
qed

lemma each_push_value_compressed:
  "each push_value vs runs = Inr runs' \<Longrightarrow> compressed runs \<Longrightarrow> compressed runs'"
  by (erule each_invariant) (auto dest: push_value_compressed)

lemma table_entries_concat: "table_entries (length ws) (concat (map be32 ws) @ rest) = ws"
  using from_to_be_bytes [of 4, where 'a = 32] by (induction ws) (simp_all del: from_be_bytes.simps)

lemma pairs_of_concat: "pairs_of (concat (map (\<lambda>(a, b). [a, b]) ps)) = ps"
  by (induction ps) auto

lemma concat_pairs:
  "concat (map (\<lambda>(count, v). be32 count @ be32 v) runs) =
     concat (map be32 (concat (map (\<lambda>(a, b). [a, b]) runs)))"
  by (induction runs) auto

lemma length_pairs: "length (concat (map (\<lambda>(a, b). [a, b]) ps)) = 2 * length ps"
  by (induction ps) auto

lemma table_len_Inr: "table_len xs = Inr len \<Longrightarrow> unat len = length xs"
  by (auto simp: table_len_def result_simps unsigned_of_nat take_bit_nat_eq_self dest!: try_len32_Some)

lemma run_table_reads:
  assumes "run_table version runs = Inr body"
  shows "read_runs body = expand runs" "table_count body = length runs" "hd body = version"
    "length body = 8 + 8 * length runs"
proof -
  obtain len where len: "table_len runs = Inr len"
    and body: "body = [version, 0, 0, 0] @ be32 len @ concat (map (\<lambda>(count, v). be32 count @ be32 v) runs)"
    using assms by (auto simp: run_table_def result_simps)
  show count: "table_count body = length runs"
    using table_len_Inr [OF len] from_to_be_bytes [of 4 len]
    by (simp add: body table_count_def del: from_be_bytes.simps)
  have "table_entries (2 * length runs) (drop 8 body) = concat (map (\<lambda>(a, b). [a, b]) runs)"
    using table_entries_concat [of "concat (map (\<lambda>(a, b). [a, b]) runs)" "[]"]
    by (simp add: body concat_pairs length_pairs)
  then show "read_runs body = expand runs" by (simp add: read_runs_def count pairs_of_concat)
  show "hd body = version" by (simp add: body)
  show "length body = 8 + 8 * length runs"
    by (simp add: body length_concat comp_def split_def sum_list_triv)
qed

lemma sync_numbers_filter:
  "sync_numbers index samples = Inr numbers \<Longrightarrow>
     map unat numbers = map (\<lambda>(i, _). Suc i) (filter (sm_sync \<circ> snd) (List.enumerate index samples))"
proof (induction samples arbitrary: index numbers)
  case (Cons s samples)
  show ?case
  proof (cases "sm_sync s")
    case True
    then obtain numbers' where small: "int index + 1 < 2 ^ 32"
      and rest: "sync_numbers (index + 1) samples = Inr numbers'" and numbers: "numbers = of_nat (index + 1) # numbers'"
      using Cons.prems by (auto simp: result_simps split: if_splits)
    have "int (index + 1) < 2 ^ 32" using small by simp
    then have "index + 1 < 2 ^ 32" by (simp only: of_nat_less_numeral_power_cancel_iff)
    then have "unat (of_nat (index + 1) :: u32) = index + 1"
      by (simp only: unsigned_of_nat) (simp add: take_bit_nat_eq_self)
    then show ?thesis using Cons.IH [OF rest] True by (simp add: numbers del: of_nat_add of_nat_Suc)
  next
    case False
    then show ?thesis using Cons by simp
  qed
qed simp

text \<open>
  C28.  The tables the muxer writes describe the samples it was given: the time-to-sample and
  composition tables expand to every sample's duration and offset in order (the latter is left out
  exactly when no sample is reordered, and signed exactly when an offset is negative), the size
  table lists every size, and the sync table the numbers of the samples that stand on their own.
\<close>
theorem sample_tables_describe_samples:
  assumes "build_tables samples = Inr tables"
  shows "read_runs (tb_stts tables) = map sm_duration samples \<and>
    (case tb_ctts tables of
       None \<Rightarrow> \<forall>s\<in>set samples. sm_composition s = 0
     | Some body \<Rightarrow> read_runs body = map sm_composition samples \<and>
         (hd body = 1) = (\<exists>s\<in>set samples. sint (sm_composition s) < 0)) \<and>
    table_entries (length samples) (drop 12 (tb_stsz tables)) = map sm_size samples \<and>
    (case tb_stss tables of
       None \<Rightarrow> \<forall>s\<in>set samples. sm_sync s
     | Some body \<Rightarrow> map unat (table_entries (table_count body) (drop 8 body)) =
         map (\<lambda>(i, _). Suc i) (filter (sm_sync \<circ> snd) (List.enumerate 0 samples)))"
proof -
  obtain stts ctts stsc stsz stss where parts: "build_stts samples = Inr stts" "build_ctts samples = Inr ctts"
    "build_stsz samples = Inr stsz" "build_stss samples = Inr stss"
    and tables: "tables = \<lparr>tb_stts = stts, tb_ctts = ctts, tb_stsc = stsc, tb_stsz = stsz, tb_stss = stss\<rparr>"
    using assms by (auto simp: build_tables_def result_simps)
  have stts: "read_runs stts = map sm_duration samples"
    using parts(1) by (auto simp: build_stts_def result_simps expand_def dest!: run_table_reads(1) each_push_value_expand)
  have ctts: "case ctts of None \<Rightarrow> \<forall>s\<in>set samples. sm_composition s = 0
     | Some body \<Rightarrow> read_runs body = map sm_composition samples \<and>
         (hd body = 1) = (\<exists>s\<in>set samples. sint (sm_composition s) < 0)"
  proof (cases "list_all (\<lambda>s. sm_composition s = 0) samples")
    case True
    then show ?thesis using parts(2) by (auto simp: build_ctts_def list_all_iff)
  next
    case False
    let ?version = "if list_ex (\<lambda>s. sint (sm_composition s) < 0) samples then 1 else 0 :: u8"
    obtain runs body where runs: "each push_value (map sm_composition samples) [] = Inr runs"
      and body: "run_table ?version runs = Inr body" "ctts = Some body"
      using parts(2) False by (auto simp: build_ctts_def Let_def result_simps)
    show ?thesis
      using each_push_value_expand [OF runs] run_table_reads(1,3) [OF body(1)]
      by (auto simp: body(2) expand_def list_ex_iff)
  qed
  have stsz: "table_entries (length samples) (drop 12 stsz) = map sm_size samples"
    using parts(3) table_entries_concat [of "map sm_size samples" "[]"]
    by (auto simp: build_stsz_def result_simps comp_def)
  have stss: "case stss of None \<Rightarrow> \<forall>s\<in>set samples. sm_sync s
     | Some body \<Rightarrow> map unat (table_entries (table_count body) (drop 8 body)) =
         map (\<lambda>(i, _). Suc i) (filter (sm_sync \<circ> snd) (List.enumerate 0 samples))"
  proof (cases "list_all sm_sync samples")
    case True
    then show ?thesis using parts(4) by (auto simp: build_stss_def list_all_iff)
  next
    case False
    obtain numbers len where numbers: "sync_numbers 0 samples = Inr numbers" and len: "table_len numbers = Inr len"
      and body: "stss = Some ([0, 0, 0, 0] @ be32 len @ concat (map be32 numbers))"
      using parts(4) False by (auto simp: build_stss_def result_simps)
    have "table_count ([0, 0, 0, 0] @ be32 len @ concat (map be32 numbers)) = length numbers"
      using table_len_Inr [OF len] from_to_be_bytes [of 4 len]
      by (simp add: table_count_def del: from_be_bytes.simps)
    then show ?thesis
      using sync_numbers_filter [OF numbers] table_entries_concat [of numbers "[]"] by (simp add: body)
  qed
  show ?thesis using stts ctts stsz stss by (simp add: tables)
qed

definition demo_samples :: "mux_sample list" where
  "demo_samples =
     [\<lparr>sm_offset = 0, sm_size = 5, sm_duration = 3000, sm_composition = 0, sm_sync = True\<rparr>,
      \<lparr>sm_offset = 5, sm_size = 2, sm_duration = 3000, sm_composition = - 3000, sm_sync = False\<rparr>,
      \<lparr>sm_offset = 7, sm_size = 1, sm_duration = 1500, sm_composition = 0, sm_sync = True\<rparr>]"

theorem sample_tables_describe_samples_witness:
  "\<exists>tables. build_tables demo_samples = Inr tables \<and>
    read_runs (tb_stts tables) = [3000, 3000, 1500] \<and>
    table_entries (length demo_samples) (drop 12 (tb_stsz tables)) = [5, 2, 1] \<and>
    (case tb_stss tables of None \<Rightarrow> False
     | Some body \<Rightarrow> map unat (table_entries (table_count body) (drop 8 body)) = [1, 3])"
proof -
  have "is_ok (build_tables demo_samples)" by code_simp
  then obtain tables where tables: "build_tables demo_samples = Inr tables"
    by (cases "build_tables demo_samples") simp_all
  show ?thesis
    using sample_tables_describe_samples [OF tables] tables
    by (intro exI [of _ tables])
       (auto simp: demo_samples_def simp del: table_entries.simps split: option.splits)
qed

section \<open>The files a mux leaves\<close>

definition mux_staged :: "mux_disk \<Rightarrow> string set \<Rightarrow> string \<Rightarrow> mux_disk \<Rightarrow> bool" where
  "mux_staged d0 sources output d \<longleftrightarrow>
     (\<forall>path. path = output \<or> path \<in> set (dk_temporary d) \<or> dk_files d path = dk_files d0 path) \<and>
     set (dk_temporary d) \<subseteq> elementary_path ` sources \<and> dk_remove_error d = dk_remove_error d0"

lemma staged_write:
  assumes "write_file path m d = (r, d')" "mux_staged d0 sources output d"
    and "path = output \<or> path \<in> set (dk_temporary d)"
  shows "mux_staged d0 sources output d'"
  using assms by (auto simp: write_file_def mux_staged_def split: sum.splits prod.splits if_splits)

lemma staged_elementary:
  assumes "elementary_of path m d = (r, d')" "mux_staged d0 sources output d" "path \<in> sources"
  shows "mux_staged d0 sources output d'"
proof -
  let ?d = "d\<lparr>dk_temporary := dk_temporary d @ [elementary_path path]\<rparr>"
  have "mux_staged d0 sources output ?d" using assms(2,3) by (auto simp: mux_staged_def)
  moreover obtain r' where "write_file (elementary_path path) m ?d = (r', d')"
    using assms(1) by (auto simp: elementary_of_def reserve_def act_bind_split ret_apply)
  ultimately show ?thesis using staged_write by fastforce
qed

lemma staged_read_track:
  assumes "read_track path d = (r, d')" "mux_staged d0 sources output d" "path \<in> sources"
  shows "mux_staged d0 sources output d'"
proof (cases "fst (read_track_head path d)")
  case (Inl e)
  then show ?thesis using assms(1,2) by (auto simp: read_track_def act_bind_split read_track_head_def)
next
  case (Inr head)
  let ?iso = "lift_result (rbind (map_err MuxIo (open_source d path)) (\<lambda>f.
      rmap (\<lambda>t. \<lparr>tk_path = path, tk_demuxed = t\<rparr>) (demux_iso f)))"
  have "read_track_head path d = (Inr head, d)" using Inr by (simp add: read_track_head_def)
  then have "(case sniff head False of
       Some CtTs \<Rightarrow> elementary_of path (\<lambda>out. demux (open_source d path) (Inr out))
     | Some CtAac \<Rightarrow>
         elementary_of path (\<lambda>out.
           demux_adts (rmap (\<lambda>f. file_reads (dk_pieces d path) (src_error f) 0 (src_bytes f))
                         (open_source d path)) (Inr out))
     | _ \<Rightarrow> ?iso) d = (r, d')"
    using assms(1) by (simp add: read_track_def act_bind_def get_state_apply)
  moreover have "e' = d" if "?iso d = (x, e')" for x e' using that by (simp add: lift_result_apply)
  ultimately show ?thesis
    using assms(2,3) by (cases "sniff head False"; cases "the (sniff head False)")
      (auto dest: staged_elementary)
qed

lemma remove_files:
  "dk_files (fold (\<lambda>path d. snd (remove_file path d)) paths d) =
     (\<lambda>p. if p \<in> set paths \<and> dk_remove_error d p = None then None else dk_files d p)"
proof (induction paths arbitrary: d)
  case (Cons path paths)
  have "dk_files (snd (remove_file path d)) =
      (\<lambda>p. if p = path \<and> dk_remove_error d p = None then None else dk_files d p)"
    "dk_remove_error (snd (remove_file path d)) = dk_remove_error d"
    by (auto simp: remove_file_def fun_eq_iff split: option.split)
  with Cons.IH [of "snd (remove_file path d)"] show ?case by (auto simp: fun_eq_iff)
qed simp

text \<open>
  C30.  Whatever the outcome of a mux, the only files it can have changed are the output and the two
  elementary files, and a staging file is gone unless the file system refuses to remove it: every
  other path holds what it held before.
\<close>
theorem staging_files_do_not_outlive_the_mux:
  "path = output \<or>
   dk_files (snd (mux_mp4_with_layout video audio output force d)) path = dk_files d path \<or>
   path \<in> {elementary_path video, elementary_path audio} \<and>
     (case dk_remove_error d path of
        None \<Rightarrow> dk_files (snd (mux_mp4_with_layout video audio output force d)) path = None
      | Some _ \<Rightarrow> True)"
proof -
  let ?body = "act_bind (read_track video) (\<lambda>v. act_bind (read_track audio) (\<lambda>a. write_output output [v, a] force))"
  let ?start = "d\<lparr>dk_temporary := []\<rparr>"
  have start: "mux_staged d {video, audio} output ?start" by (simp add: mux_staged_def)
  obtain r d1 where run: "?body ?start = (r, d1)" by (cases "?body ?start")
  have "mux_staged d {video, audio} output e'" if "write_output output tracks force e = (x, e')" "mux_staged d {video, audio} output e"
    for tracks e x e'
    using that by (auto simp: write_output_def write_parts_def split: sum.splits prod.splits dest: staged_write)
  then have "mux_staged d {video, audio} output d1"
    using run start by (auto simp: act_bind_split dest: staged_read_track)
  moreover have "dk_files (snd (mux_mp4_with_layout video audio output force d)) =
      (\<lambda>p. if p \<in> set (dk_temporary d1) \<and> dk_remove_error d1 p = None then None else dk_files d1 p)"
    using run by (simp add: mux_mp4_with_layout_def remove_temporaries_def remove_files)
  ultimately show ?thesis by (auto simp: mux_staged_def split: option.split)
qed

text \<open>
  C29.  A fragmented track has the timeline its fragments declare.  Its samples are as many as the
  runs of the fragments announce, in file order; every fragment that has samples and declares a
  decode time, after an earlier one declared its own, starts that much later than the first declared
  time as the samples before it last, so a gap between fragments is carried by the sample before it;
  and the duration of the track is the sum of the durations, with no overflow.
\<close>
theorem fragmented_track_keeps_its_timeline:
  assumes "demux_iso f = Inr t"
  shows "unat (dt_duration t) = sum_list (map (\<lambda>s. unat (sm_duration s)) (dt_samples t)) \<and>
    (let counts = map (fragment_samples \<circ> fst) (fragments_of f); times = map (declared_time \<circ> fst) (fragments_of f) in
     length (dt_samples t) = sum_list counts \<and>
     (\<forall>i < length counts. \<forall>origin time.
        0 < counts ! i \<and> times ! i = Some time \<and> first_declared (take i times) = Some origin \<longrightarrow>
        time = saturating_add origin
          (of_nat (sum_list (map (\<lambda>s. unat (sm_duration s)) (take (sum_list (take i counts)) (dt_samples t)))))))"
proof -
  obtain fr where fr: "each (\<lambda>(traf, start). push_traf traf start) (fragments_of f) fragments_default = Inr fr"
    and t: "dt_samples t = fr_samples fr" "unat (dt_duration t) = sample_durations (dt_samples t)"
    by (rule demux_iso_fragments [OF assms])
  from each_push_traf [OF fr] t show ?thesis
    unfolding dated_def Let_def by (simp only: sample_durations_def) simp
qed

text \<open>A fragmented file of two samples, with a gap before the second.\<close>

definition demo_fragment :: "u32 \<Rightarrow> u32 \<Rightarrow> u8 list" where
  "demo_fragment time duration =
     boxed ''moof'' (boxed ''traf''
       (boxed ''tfhd'' ([0, 0, 0, 0] @ be32 1) @ boxed ''tfdt'' ([0, 0, 0, 0] @ be32 time) @
        boxed ''trun'' ([0, 0, 3, 1] @ be32 1 @ be32 8 @ be32 duration @ be32 1)))"

definition demo_fragmented :: "u8 list" where
  "demo_fragmented =
     boxed ''moov'' (boxed ''trak'' (boxed ''tkhd'' [] @ boxed ''mdia''
       (boxed ''mdhd'' (zeros 12 @ be32 1000) @ boxed ''hdlr'' [] @ boxed ''minf''
         (boxed ''smhd'' [] @ boxed ''dinf'' [] @ boxed ''stbl'' (boxed ''stsd'' []))))) @
     demo_fragment 50 20 @ demo_fragment 75 10"

definition demo_source :: source_file where
  "demo_source = \<lparr>src_bytes = demo_fragmented, src_error = None\<rparr>"

theorem fragmented_track_keeps_its_timeline_witness:
  "\<exists>t. demux_iso demo_source = Inr t \<and> map sm_duration (dt_samples t) = [25, 10] \<and>
    unat (dt_duration t) = 35 \<and>
    map (declared_time \<circ> fst) (fragments_of demo_source) = [Some 50, Some 75] \<and>
    map (fragment_samples \<circ> fst) (fragments_of demo_source) = [1, 1] \<and> (75 :: u64) = saturating_add 50 25"
proof -
  have "map_sum id (\<lambda>t. map sm_duration (dt_samples t)) (demux_iso demo_source) = Inr [25, 10]"
    by code_simp
  then obtain t where t: "demux_iso demo_source = Inr t" "map sm_duration (dt_samples t) = [25, 10]"
    by (cases "demux_iso demo_source") auto
  have "map (\<lambda>s. unat (sm_duration s)) (dt_samples t) = map (unat :: u32 \<Rightarrow> nat) [25, 10]"
    by (simp flip: t(2) add: comp_def)
  moreover have "map (declared_time \<circ> fst) (fragments_of demo_source) = [Some 50, Some 75]"
    "map (fragment_samples \<circ> fst) (fragments_of demo_source) = [1, 1]"
    "(75 :: u64) = saturating_add 50 25" by code_simp+
  ultimately show ?thesis
    using fragmented_track_keeps_its_timeline [OF t(1)] t by simp
qed

definition demo_track :: demuxed_track where
  "demo_track =
     \<lparr>dt_tkhd = zeros 24, dt_mdhd = zeros 20, dt_hdlr = [], dt_media_header = (''smhd'', []),
      dt_dinf = [], dt_stsd = [], dt_timescale = 1000,
      dt_samples = [\<lparr>sm_offset = 1, sm_size = 2, sm_duration = 5, sm_composition = 0, sm_sync = True\<rparr>],
      dt_duration = 5\<rparr>"

definition plain_sink :: sink where
  "plain_sink = \<lparr>snk_bytes = [], snk_error = (\<lambda>_. None), snk_flush = None\<rparr>"

definition demo_disk :: mux_disk where
  "demo_disk =
     \<lparr>dk_files = [''a'' \<mapsto> [9, 7, 8]], dk_read_error = (\<lambda>_. None), dk_pieces = (\<lambda>_ _. 1),
      dk_create = (\<lambda>_. Inr plain_sink), dk_partial = (\<lambda>_. []), dk_remove_error = (\<lambda>_. None), dk_temporary = []\<rparr>"

definition demo_tracks :: "mux_track list" where
  "demo_tracks = [\<lparr>tk_path = ''a'', tk_demuxed = demo_track\<rparr>]"

text \<open>The layout of one track, from the tree rather than by running the writer.\<close>

lemma write_output_from_tree:
  assumes "list_all known_header (map tk_demuxed tracks)"
    and "moov_tree (map tk_demuxed tracks) movie_timescale (movie_duration (map tk_demuxed tracks)) False
      (replicate (length tracks) (placeholder False)) = Inr tree"
    and "uint (saturating_add (of_nat (length build_ftyp + length (tree_bytes tree) + 8))
      (payload_bytes (map tk_demuxed tracks))) \<le> 2 ^ 32 - 1"
    and "fill_offsets False (map tk_demuxed tracks) (tree_bytes tree) (moov_places False tree) = Inr (n, moov)"
  shows "write_output output tracks False d = write_parts output tracks n moov d"
proof -
  obtain w where w: "build_moov (map tk_demuxed tracks) movie_timescale (movie_duration (map tk_demuxed tracks)) False = Inr w"
    "wr_bytes w = tree_bytes tree" "wr_patch w = moov_places False tree"
    using build_moov_written [OF assms(1), of movie_timescale "movie_duration (map tk_demuxed tracks)" False] assms(2)
    by (cases "build_moov (map tk_demuxed tracks) movie_timescale (movie_duration (map tk_demuxed tracks)) False")
       (auto simp: comp_def)
  then have "layout_moov False (map tk_demuxed tracks) = Inr (n, moov)"
    using assms(3,4) by (simp add: layout_moov_def choose_moov_def Let_def not_less [symmetric] del: not_less)
  then show ?thesis by (simp add: write_output_def)
qed

definition demo_tree :: box_tree where
  "demo_tree =
     (case moov_tree [demo_track] movie_timescale (movie_duration [demo_track]) False [placeholder False] of
        Inr tree \<Rightarrow> tree | Inl _ \<Rightarrow> Leaf [] [])"

definition demo_filled :: "u64 \<times> u8 list" where
  "demo_filled =
     (case fill_offsets False [demo_track] (tree_bytes demo_tree) (moov_places False demo_tree) of
        Inr filled \<Rightarrow> filled | Inl _ \<Rightarrow> (0, []))"

lemma demo_tree: "moov_tree [demo_track] movie_timescale (movie_duration [demo_track]) False [placeholder False] = Inr demo_tree"
proof -
  have "is_ok (moov_tree [demo_track] movie_timescale (movie_duration [demo_track]) False [placeholder False])"
    by code_simp
  then show ?thesis
    unfolding demo_tree_def
    by (cases "moov_tree [demo_track] movie_timescale (movie_duration [demo_track]) False [placeholder False]") simp_all
qed

lemma demo_filled:
  "fill_offsets False [demo_track] (tree_bytes demo_tree) (moov_places False demo_tree) = Inr demo_filled"
proof -
  have "is_ok (fill_offsets False [demo_track] (tree_bytes demo_tree) (moov_places False demo_tree))"
    by code_simp
  then show ?thesis
    unfolding demo_filled_def
    by (cases "fill_offsets False [demo_track] (tree_bytes demo_tree) (moov_places False demo_tree)") simp_all
qed

lemma demo_output: "write_output ''o'' demo_tracks False demo_disk = write_parts ''o'' demo_tracks (fst demo_filled) (snd demo_filled) demo_disk"
proof (rule write_output_from_tree)
  have tracks: "map tk_demuxed demo_tracks = [demo_track]" by (simp add: demo_tracks_def)
  show "list_all known_header (map tk_demuxed demo_tracks)"
    by (simp add: tracks demo_track_def known_header_def)
  show "moov_tree (map tk_demuxed demo_tracks) movie_timescale (movie_duration (map tk_demuxed demo_tracks)) False
      (replicate (length demo_tracks) (placeholder False)) = Inr demo_tree"
    using demo_tree by (simp add: tracks) (simp add: demo_tracks_def)
  have "uint (saturating_add (of_nat (length build_ftyp + length (tree_bytes demo_tree) + 8)) (payload_bytes [demo_track])) \<le> 2 ^ 32 - 1"
    by code_simp
  then show "uint (saturating_add (of_nat (length build_ftyp + length (tree_bytes demo_tree) + 8))
      (payload_bytes (map tk_demuxed demo_tracks))) \<le> 2 ^ 32 - 1" by (simp only: tracks)
  show "fill_offsets False (map tk_demuxed demo_tracks) (tree_bytes demo_tree) (moov_places False demo_tree) =
      Inr (fst demo_filled, snd demo_filled)"
    using demo_filled by (simp add: tracks)
qed

lemma write_parts_others:
  "write_parts output tracks n moov d = (Inr m, d') \<Longrightarrow> path \<noteq> output \<Longrightarrow> dk_files d' path = dk_files d path"
  by (auto simp: write_parts_def write_file_def split: sum.splits prod.splits)

lemma demo_written:
  obtains n d' bytes where "write_output ''o'' demo_tracks False demo_disk = (Inr n, d')"
    "dk_files d' ''o'' = Some bytes" "length bytes = 378" "short_files d'"
proof -
  obtain r d' where run: "write_output ''o'' demo_tracks False demo_disk = (r, d')"
    by (cases "write_output ''o'' demo_tracks False demo_disk")
  have "case write_parts ''o'' demo_tracks (fst demo_filled) (snd demo_filled) demo_disk of
      (r, d) \<Rightarrow> is_ok r \<and> map_option length (dk_files d ''o'') = Some 378"
    by code_simp
  with run have "is_ok r" "map_option length (dk_files d' ''o'') = Some 378"
    by (simp_all add: demo_output)
  then obtain n bytes where r: "r = Inr n" and bytes: "dk_files d' ''o'' = Some bytes" "length bytes = 378"
    by (cases r) auto
  have "dk_files d' path = dk_files demo_disk path" if "path \<noteq> ''o''" for path
    using write_parts_others run that by (auto simp: r demo_output)
  then have "length data < 2 ^ 63" if "dk_files d' path = Some data" for path data
    using that bytes by (cases "path = ''o''") (auto simp: demo_disk_def split: if_splits)
  then show thesis using that run r bytes by (simp add: short_files_def)
qed

lemma demo_hypotheses: "list_all (known_header \<circ> tk_demuxed) demo_tracks" "short_files demo_disk"
  by (simp_all add: demo_tracks_def demo_track_def known_header_def short_files_def demo_disk_def)

lemma demo_data: "map (disk_data demo_disk) demo_tracks = [[7, 8]]"
  by code_simp

theorem mux_output_layout_witness:
  "\<exists>n d' tree mdat. write_output ''o'' demo_tracks False demo_disk = (Inr n, d') \<and>
    dk_files d' ''o'' = Some (build_ftyp @ tree_bytes tree @ mdat @ [7, 8])"
proof -
  obtain n d' bytes where written: "write_output ''o'' demo_tracks False demo_disk = (Inr n, d')" "short_files d'"
    by (rule demo_written)
  show ?thesis
    using mux_output_layout [OF written(1) demo_hypotheses written(2)] written(1)
    by (auto simp: demo_data)
qed

theorem mux_output_is_readable_witness:
  "\<exists>n d' bytes moov start. write_output ''o'' demo_tracks False demo_disk = (Inr n, d') \<and>
    dk_files d' ''o'' = Some bytes \<and> find_box [''moov''] bytes = Some moov \<and>
    length (traks_of moov) = 1 \<and> take 2 (drop (unat (start :: u64)) bytes) = [7, 8]"
proof -
  obtain n d' bytes where written: "write_output ''o'' demo_tracks False demo_disk = (Inr n, d')"
    "dk_files d' ''o'' = Some bytes" "length bytes = 378" "short_files d'"
    by (rule demo_written)
  have small: "length bytes < 2 ^ 32 + sum_list (map (length \<circ> disk_data demo_disk) demo_tracks)"
    using written(3) by simp
  obtain large moov and starts :: "u64 list" where moov: "find_box [''moov''] bytes = Some moov"
    and found: "map (find_box [''mdia'', ''minf'', ''stbl'', if large then ''co64'' else ''stco'']) (traks_of moov) =
      map (\<lambda>start. Some ([0, 0, 0, 0] @ be32 1 @
        (if large then to_be_bytes 8 start else be32 (ucast start)))) starts"
    and len: "length starts = length demo_tracks"
    and at: "\<forall>i<length demo_tracks. take (length (disk_data demo_disk (demo_tracks ! i))) (drop (unat (starts ! i)) bytes) =
      disk_data demo_disk (demo_tracks ! i)"
    using mux_output_is_readable [OF written(1) demo_hypotheses written(4,2) small] by auto
  have one: "length demo_tracks = 1" "disk_data demo_disk (demo_tracks ! 0) = [7, 8]"
    using demo_data by (simp_all add: demo_tracks_def)
  have "length (traks_of moov) = 1" using arg_cong [OF found, of length] len one by simp
  moreover have "take 2 (drop (unat (starts ! 0)) bytes) = [7, 8]" using at one by (simp add: numeral_2_eq_2)
  ultimately show ?thesis using written(1,2) moov by blast
qed

end
