(* ===== verification/Mux_Tracks.thy ===== *)
theory Mux_Tracks
  imports Mux_Correct
begin

text \<open>
  The tracks the muxer reads, whatever container they come in: the sample rate of an audio track is
  one of the table's, so the timescale a duration is divided by is never zero.
\<close>

section \<open>Every track that is read can be written\<close>

definition rate_known :: "audio_track \<Rightarrow> bool" where
  "rate_known a \<longleftrightarrow> at_sample_rate a \<noteq> Some 0"

lemma sample_rates_positive: "nth_get sample_rates i = Some rate \<Longrightarrow> rate \<noteq> 0"
proof -
  assume "nth_get sample_rates i = Some rate"
  then have "rate \<in> set sample_rates" by (auto simp: nth_get_def split: if_splits)
  moreover have "list_all (\<lambda>r. r \<noteq> 0) sample_rates" by (simp add: sample_rates_def)
  ultimately show ?thesis by (auto simp: list_all_iff)
qed

lemma audio_loop_rate:
  assumes "audio_loop a frames = Inr (a', frames')" "rate_known a" shows "rate_known a'"
  using assms
proof (induction a frames rule: audio_loop.induct)
  case (1 a frames)
  note step = "1.prems"(1) [unfolded audio_loop.simps [of a frames] Let_def]
  let ?p = "at_pending a"
  show ?case
  proof (cases "starts_with (as_bytes ''ID3'') ?p")
    case True
    then show ?thesis
      using step "1.prems"(2) "1.IH"(1) [OF refl True]
      by (auto simp: rate_known_def split: if_splits option.splits)
  next
    case id3: False
    show ?thesis
    proof (cases "length ?p < 7 \<or> \<not> adts_sync (?p ! 0) (?p ! 1)")
      case True
      then show ?thesis
        using step "1.prems"(2) "1.IH"(2) [OF refl id3]
        by (auto simp: id3 rate_known_def split: if_splits option.splits)
    next
      case False
      then show ?thesis
        using step "1.prems"(2) "1.IH"(3) [OF refl id3] sample_rates_positive
        by (auto simp: id3 rate_known_def split: if_splits option.splits)
    qed
  qed
qed
lemma audio_push_rate:
  "audio_push payload a = Inr (a', frames) \<Longrightarrow> rate_known a \<Longrightarrow> rate_known a'"
  by (auto simp: audio_push_def result_simps rate_known_def split: if_splits
      dest!: audio_loop_rate [unfolded rate_known_def])

lemma rate_known_default: "rate_known audio_default"
  by (simp add: rate_known_def audio_default_def)

definition audio_known :: "demuxer \<Rightarrow> bool" where
  "audio_known d \<longleftrightarrow> (case dm_audio d of None \<Rightarrow> True | Some a \<Rightarrow> rate_known a)"

lemma write_video_known: "write_video u d = Inr d' \<Longrightarrow> audio_known d \<Longrightarrow> audio_known d'"
  by (auto simp: write_video_def Let_def result_simps audio_known_def)

lemma write_audio_known: "write_audio frame d = Inr d' \<Longrightarrow> audio_known d \<Longrightarrow> audio_known d'"
  by (auto simp: write_audio_def result_simps audio_known_def rate_known_def)

lemma declare_stream_audio [simp]: "dm_audio (declare_stream stream_type pid d) = dm_audio d"
  by (simp add: declare_stream_def)

lemma streams_loop_audio [simp]: "dm_audio (streams_loop entries d) = dm_audio d"
  by (induction entries d rule: streams_loop.induct) (subst streams_loop.simps, simp)

lemma maps_loop_audio [simp]: "dm_audio (maps_loop sections d) = dm_audio d"
  by (induction sections d rule: maps_loop.induct) simp_all

lemma video_payload_known: "video_payload start payload d = Inr d' \<Longrightarrow> audio_known d \<Longrightarrow> audio_known d'"
  unfolding video_payload_def
  by (auto simp: result_simps audio_known_def split: prod.splits
      dest!: each_invariant [where P = audio_known, OF _ _ write_video_known])

lemma audio_payload_known: "audio_payload start payload d = Inr d' \<Longrightarrow> audio_known d \<Longrightarrow> audio_known d'"
proof -
  assume payload: "audio_payload start payload d = Inr d'" and known: "audio_known d"
  obtain began audio frames where push: "audio_push (drop began payload) (unwrap_or audio_default (dm_audio d)) = Inr (audio, frames)"
    and written: "each write_audio frames (d\<lparr>dm_audio := Some audio\<rparr>) = Inr d'"
    using payload by (auto simp: audio_payload_def result_simps split: prod.splits)
  have "rate_known (unwrap_or audio_default (dm_audio d))"
    using known rate_known_default by (auto simp: unwrap_or_def audio_known_def split: option.splits)
  then have "audio_known (d\<lparr>dm_audio := Some audio\<rparr>)"
    using audio_push_rate [OF push] by (simp add: audio_known_def)
  then show "audio_known d'" by (rule each_invariant [OF written]) (rule write_audio_known)
qed

lemma demux_packet_known: "demux_packet packet d = Inr d' \<Longrightarrow> audio_known d \<Longrightarrow> audio_known d'"
  unfolding demux_packet_def Let_def route_payload_def
  by (auto simp: programs_def program_map_def result_simps audio_known_def split: if_splits option.splits prod.splits
      dest: video_payload_known [unfolded audio_known_def] audio_payload_known [unfolded audio_known_def])

lemma demux_loop_known:
  "demux_loop rest e started d = Inr (started', d') \<Longrightarrow> audio_known d \<Longrightarrow> audio_known d'"
proof (induction rest e started d rule: demux_loop.induct)
  case (1 rest e started d)
  note step = "1.prems"(1) [unfolded demux_loop.simps [of rest] Let_def]
  show ?case
  proof (cases "length rest < packet_size \<or> take packet_size rest ! 0 \<noteq> sync_byte")
    case True
    then show ?thesis using step "1.prems"(2) by (auto split: if_splits option.splits)
  next
    case False
    then obtain d1 where d1: "demux_packet (take packet_size rest) d = Inr d1"
      "demux_loop (drop packet_size rest) e True d1 = Inr (started', d')"
      using step by (auto simp: result_simps)
    then show ?thesis
      using "1.IH" [OF _ refl, of d1] False demux_packet_known [OF d1(1) "1.prems"(2)] by simp
  qed
qed

lemma into_track_timescale:
  "video_into_track v = Inr t \<Longrightarrow> et_timescale t \<noteq> 0"
  "audio_into_track a = Inr t \<Longrightarrow> rate_known a \<Longrightarrow> et_timescale t \<noteq> 0"
  by (auto simp: video_into_track_def audio_into_track_def Let_def result_simps video_timescale_def
      rate_known_def split: if_splits prod.splits)

lemma demux_finish_timescale:
  assumes "demux_finish d = Inr (t, out)" "audio_known d" shows "et_timescale t \<noteq> 0"
proof -
  obtain video units where video: "(case dm_video d of None \<Rightarrow> (None, [])
      | Some v \<Rightarrow> map_prod Some id (video_flush v)) = (video, units)" by fastforce
  obtain audio frames where audio: "(case dm_audio d of None \<Rightarrow> (None, [])
      | Some a \<Rightarrow> map_prod Some id (audio_flush a)) = (audio, frames)" by fastforce
  obtain d1 d2 where d1: "each write_video units (d\<lparr>dm_video := video, dm_audio := audio\<rparr>) = Inr d1"
    and d2: "each write_audio frames d1 = Inr d2"
    and track: "(case (dm_video d2, dm_audio d2) of
           (Some v, None) \<Rightarrow> video_into_track v
         | (None, Some a) \<Rightarrow> audio_into_track a
         | (Some _, Some _) \<Rightarrow>
             Inl (MuxUnsupported ''the transport stream already carries both tracks'')
         | (None, None) \<Rightarrow> Inl (missing_track d2)) = Inr t"
    using assms(1) by (auto simp: demux_finish_def video audio Let_def result_simps)
  have "audio_known (d\<lparr>dm_video := video, dm_audio := audio\<rparr>)"
    using assms(2) audio by (auto simp: audio_known_def audio_flush_def rate_known_def Let_def split: option.splits)
  then have "audio_known d1" by (rule each_invariant [OF d1]) (rule write_video_known)
  then have "audio_known d2" by (rule each_invariant [OF d2]) (rule write_audio_known)
  then show ?thesis
    using track by (auto simp: audio_known_def split: option.splits dest: into_track_timescale)
qed

lemma demux_timescale:
  assumes "demux source output = Inr (t, out)" shows "et_timescale t \<noteq> 0"
proof -
  obtain f :: source_file and s :: sink and started d where "demux_loop (src_bytes f) (src_error f) False (demuxer_new (s\<lparr>snk_bytes := []\<rparr>)) = Inr (started, d)"
    and finish: "demux_finish d = Inr (t, out)"
    using assms by (auto simp: demux_def result_simps split: if_splits)
  then have "audio_known d"
    by (rule_tac demux_loop_known) (auto simp: audio_known_def demuxer_new_def)
  with finish show ?thesis by (rule demux_finish_timescale)
qed

lemma adts_loop_rate: "adts_loop reads s = Inr s' \<Longrightarrow> rate_known (ad_audio s) \<Longrightarrow> rate_known (ad_audio s')"
proof (induction reads s rule: adts_loop.induct)
  case (3 piece reads s)
  show ?case
  proof (cases "piece = []")
    case True
    then show ?thesis using 3 by simp
  next
    case False
    then obtain audio frames s1 where push: "audio_push piece (ad_audio s) = Inr (audio, frames)"
      and s1: "write_adts_frames frames (s\<lparr>ad_audio := audio\<rparr>) = Inr s1" "adts_loop reads s1 = Inr s'"
      using 3 by (auto simp: result_simps)
    have "rate_known (ad_audio s1)"
      by (rule each_invariant [OF s1(1) [unfolded write_adts_frames_def], of "rate_known \<circ> ad_audio", unfolded comp_def])
         (use audio_push_rate [OF push] 3 in \<open>auto simp: write_adts_frame_def result_simps\<close>)
    then show ?thesis using "3.IH"(1) [OF False push refl s1(1) s1(2)] by simp
  qed
qed simp_all

lemma demux_adts_timescale:
  assumes "demux_adts source output = Inr (t, out)" shows "et_timescale t \<noteq> 0"
proof -
  obtain reads out0 s where loop: "adts_loop reads \<lparr>ad_output = out0\<lparr>snk_bytes := []\<rparr>, ad_audio = audio_default,
      ad_samples = [], ad_written = 0\<rparr> = Inr s"
    and rest: "(let (audio, frames) = audio_flush (ad_audio s) in
      rbind (write_adts_frames frames (s\<lparr>ad_audio := audio\<rparr>)) (\<lambda>s'.
      rbind (flush_sink (ad_output s')) (\<lambda>_.
      rmap (\<lambda>track. (track, ad_output s')) (audio_into_track ((ad_audio s')\<lparr>at_samples := ad_samples s'\<rparr>))))) =
      Inr (t, out)"
    using assms unfolding demux_adts_def by (simp only: rbind_eq_Inr) blast
  have "rate_known (ad_audio s)"
    by (rule adts_loop_rate [OF loop]) (simp add: rate_known_default)
  then obtain audio frames s' where s': "write_adts_frames frames (s\<lparr>ad_audio := audio\<rparr>) = Inr s'"
    and audio: "rate_known audio"
    and track: "audio_into_track ((ad_audio s')\<lparr>at_samples := ad_samples s'\<rparr>) = Inr t"
    using rest by (auto simp: audio_flush_def Let_def result_simps rate_known_def)
  have "rate_known (ad_audio s')"
    by (rule each_invariant [OF s' [unfolded write_adts_frames_def], of "rate_known \<circ> ad_audio", unfolded comp_def])
       (use audio in \<open>auto simp: write_adts_frame_def result_simps\<close>)
  then show ?thesis using track into_track_timescale(2) by (auto simp: rate_known_def)
qed

lemma from_elementary_track:
  "et_timescale t \<noteq> 0 \<Longrightarrow> dt_timescale (from_elementary t) \<noteq> 0 \<and> known_header (from_elementary t)"
  by (simp add: from_elementary_def known_header_def Let_def split: mux_codec.splits)

lemma elementary_of_track:
  assumes "elementary_of path m d = (Inr t, d')" "\<And>out e out'. m out = Inr (e, out') \<Longrightarrow> et_timescale e \<noteq> 0"
  shows "dt_timescale (tk_demuxed t) \<noteq> 0 \<and> known_header (tk_demuxed t)"
proof -
  obtain e d1 where "write_file (elementary_path path) m d1 = (Inr e, d')" and t: "tk_demuxed t = from_elementary e"
    using assms(1) by (auto simp: elementary_of_def reserve_def act_simps)
  then have "et_timescale e \<noteq> 0"
    using assms(2) by (auto simp: write_file_def split: sum.splits prod.splits)
  then show ?thesis unfolding t by (rule from_elementary_track)
qed

text \<open>
  C31.  Whatever a track is read from - a fragmented file, a transport stream or packed audio - it has
  a timescale its durations can be divided by, and a media header the writer has a four-letter name
  for: the muxer never divides by zero, and never writes a box no reader can name.
\<close>
theorem read_tracks_can_be_written:
  assumes "read_track path d = (Inr t, d')"
  shows "dt_timescale (tk_demuxed t) \<noteq> 0 \<and>
    fst (dt_media_header (tk_demuxed t)) \<in> {''vmhd'', ''smhd'', ''nmhd''}"
proof -
  obtain head where head: "read_track_head path d = (Inr head, d)"
    using assms by (cases "fst (read_track_head path d)") (auto simp: read_track_def act_bind_def read_track_head_def)
  let ?iso = "lift_result (rbind (map_err MuxIo (open_source d path)) (\<lambda>f.
      rmap (\<lambda>t. \<lparr>tk_path = path, tk_demuxed = t\<rparr>) (demux_iso f)))"
  have run: "(case sniff head False of
       Some CtTs \<Rightarrow> elementary_of path (\<lambda>out. demux (open_source d path) (Inr out))
     | Some CtAac \<Rightarrow>
         elementary_of path (\<lambda>out.
           demux_adts (rmap (\<lambda>f. file_reads (dk_pieces d path) (src_error f) 0 (src_bytes f))
                         (open_source d path)) (Inr out))
     | _ \<Rightarrow> ?iso) d = (Inr t, d')"
    using assms head by (simp add: read_track_def act_bind_def get_state_apply)
  have iso: "dt_timescale (tk_demuxed t) \<noteq> 0 \<and> known_header (tk_demuxed t)" if "?iso d = (Inr t, d')"
    using that demux_iso_track(3,4) by (auto simp: lift_result_apply result_simps)
  have "dt_timescale (tk_demuxed t) \<noteq> 0 \<and> known_header (tk_demuxed t)"
    using run iso demux_timescale demux_adts_timescale
    by (cases "sniff head False"; cases "the (sniff head False)") (auto dest: elementary_of_track)
  then show ?thesis by (simp add: known_header_def)
qed

definition demo_input :: mux_disk where
  "demo_input =
     \<lparr>dk_files = [''a'' \<mapsto> demo_fragmented], dk_read_error = (\<lambda>_. None), dk_pieces = (\<lambda>_ _. 100),
      dk_create = (\<lambda>_. Inr plain_sink), dk_partial = (\<lambda>_. []), dk_remove_error = (\<lambda>_. None), dk_temporary = []\<rparr>"

theorem read_tracks_can_be_written_witness:
  "\<exists>t. fst (read_track ''a'' demo_input) = Inr t \<and> dt_timescale (tk_demuxed t) \<noteq> 0"
proof -
  have "is_ok (fst (read_track ''a'' demo_input))" by code_simp
  then obtain t d' where "read_track ''a'' demo_input = (Inr t, d')"
    by (cases "read_track ''a'' demo_input"; cases "fst (read_track ''a'' demo_input)") auto
  then show ?thesis using read_tracks_can_be_written [of "''a''" demo_input t d'] by simp
qed

end
