(* ===== verification/Spec2Isabelle.thy ===== *)
theory Spec2Isabelle
  imports Service Websocket_Correct Pairing Xml_Roundtrip Http_Range Hls_Roundtrip Plan_Correct
    Ts_Correct Sps_Correct Mux Mux_Correct Mux_Tracks
begin

text \<open>
  Gunda is a download manager: a core crate with the life of a download and the manager that runs
  it, an SQLite repository, transfer engines for plain HTTP and for segmented streams, a capture
  channel to a browser extension, and the daemon and desktop applications around them.  This
  library models the parts that decide something and proves what they promise.

  Foundations.  \<open>Prelude\<close> has the machine integers, \<open>Result\<close> as a sum type, options, and the ordered
  map that stands for \<open>BTreeMap\<close> with its interface as the locale \<open>ordered_map\<close>.  \<open>Text\<close> has the string
  operations of the standard library over UTF-8 bytes, \<open>Bytes\<close> byte slices and big-endian words, and
  \<open>Bit_Fields\<close> the fields packed into a byte.  \<open>Action\<close> has stateful fallible code and the
  rules that carry an invariant through it.  \<open>Float64\<close> has the binary64 arithmetic of durations.

  The core (\<open>src/crates/gunda-core\<close>).  \<open>Download\<close> is \<open>download/\<close>: identifiers, states and their
  transition table, progress, requests and the job aggregate with its mutators.  \<open>Application\<close> is
  \<open>application/\<close> without the manager: commands, events, errors, the cancellation handle, and the
  repository and executor traits, a trait being a record of its methods; what the manager relies on
  about a repository is the locale \<open>download_repository\<close>.  \<open>Manager\<close> is \<open>application/manager.rs\<close>: the
  registry, the idle commands and the execution of a job through inspection, transfer with
  checkpoints and publication.  The calls of other clients happen where the code does not hold its
  lock (\<open>yield_point\<close>); the environment says which.  \<open>Manager_Correct\<close> proves that registry and store
  agree after every operation, that what is persisted is reached by public mutators, and that
  reports are true, all over any repository that keeps the contract; a repository with a journal of its
  saves (\<open>journalled\<close>) keeps it too, and properties of what an execution saves are read off the journal.

  Storage (\<open>src/crates/gunda-storage\<close>).  \<open>Storage\<close> is \<open>repository.rs\<close> and \<open>path_codec.rs\<close> over tables
  whose statements may fail; a transaction that does not commit leaves the tables alone.
  \<open>Storage_Refinement\<close> proves that the tables refine a list of jobs and interprets
  \<open>download_repository\<close>; \<open>Service\<close> joins manager and repository.  The properties of the
  composition are in this theory.

  Capture (\<open>src/crates/gunda-capture\<close>).  \<open>Pairing\<close> is \<open>pairing.rs\<close> with its token file.
  \<open>Websocket\<close> is \<open>websocket.rs\<close>: handshake, frames, fragmented messages; \<open>Websocket_Correct\<close> compares it
  with the protocol.

  HTTP (\<open>src/crates/gunda-http\<close>).  \<open>Http_Range\<close> is \<open>range.rs\<close>, \<open>validator.rs\<close>, \<open>resume_state.rs\<close> and
  \<open>error.rs\<close>.

  Streams (\<open>src/crates/gunda-stream\<close>).  \<open>Xml\<close> is the bounded reader \<open>xml.rs\<close>, with its bounds in
  \<open>Xml_Correct\<close> and the inverse of a printer in \<open>Xml_Roundtrip\<close>.  \<open>Container\<close> is
  \<open>container.rs\<close>, the recognition of media formats.  \<open>Hls\<close> is the playlist parser \<open>hls.rs\<close>, a
  step per line over the variables of \<open>parse\<close>; \<open>Hls_Correct\<close> has the invariant of that loop
  and \<open>Hls_Roundtrip\<close> the inverse of a printer.  \<open>Dash\<close> is the manifest parser \<open>dash.rs\<close> over
  the XML nodes, and \<open>Dash_Correct\<close> compares the expansion of timelines with natural numbers.
  \<open>Selection\<close> is \<open>selection.rs\<close>, the selectors stored with a job.  \<open>Plan\<close> is \<open>plan.rs\<close>, from a
  parsed manifest and a selector to the ordered resources; \<open>Plan_Correct\<close> says what a plan guarantees.
  \<open>Ts\<close> is the transport-stream reader \<open>ts.rs\<close>: packets, program tables, PES headers, NAL units, ADTS
  frames and parameter sets, over files that are bytes with the errors of their reads and writes.
  \<open>Ts_Correct\<close> shows that the cutting into packets does not matter and that samples tile the output
  file, and evaluates where the reader loses data at a boundary; \<open>Sps_Correct\<close> inverts an encoder of
  parameter sets.  \<open>Mux\<close> is the muxer \<open>mux.rs\<close>: boxes, fragments, sample tables and the layout of the
  output, over a disk of named files.  \<open>Mux_Correct\<close> shows that the back-patching writer serialises a
  tree of boxes, that the program's own iterator reads it back, and where every sample ends up;
  \<open>Mux_Tracks\<close> that whatever track is read can be written.

  Conventions.  Strings are UTF-8 bytes; a \<open>usize\<close> has 64 bits where it is printed or parsed and is a
  natural number where it is a length.  Wrap-around is written out where the code adds without a
  check, as a release build does.  Every loop is a total function, by structural recursion or by a
  measure on the rest of its input; no model runs on fuel.

  Parameters.  Clocks, random bytes, SHA-1 and base64 (\<open>accept_key\<close>), URL parsing and joining
  (\<open>url_parse\<close>, \<open>url_ops\<close>), the statements a database refuses, the operations a file system
  refuses, the bytes a peer sends, the behaviour of an executor and the calls of other clients are
  arguments of the definitions that use them.

  Not modelled.  Network and file I/O of the engines (\<open>client.rs\<close>, both \<open>executor.rs\<close>), the
  presentation of choices (\<open>presentation.rs\<close>), the capture server and extractor, the resume
  tables, the IPC messages, the daemon and the desktop application.
\<close>

section \<open>A concrete data directory\<close>

text \<open>The inputs the witnesses run on: a database that accepts every statement and a two-tick transfer.\<close>

definition demo_db :: db_env where
  "demo_db = \<lparr>url_parse = Some, time_in_range = (\<lambda>_. True), statement_fails = (\<lambda>_. False)\<rparr>"

definition demo_env :: "database manager_env" where
  "demo_env = \<lparr>env_repo = sqlite_repository demo_db, env_now = (\<lambda>n. int n * 1000000),
     env_control = (\<lambda>_. []), env_calls = (\<lambda>_. [])\<rparr>"

definition demo_download :: new_download where
  "demo_download =
     \<lparr>nd_request = \<lparr>req_url = ''https://a/f'', req_headers = [\<lparr>header_name = ''Accept'',
        header_value = ''a'', header_sensitivity = Public\<rparr>], req_selection = None\<rparr>,
      nd_destination = \<lparr>dest_directory = ''/d'', dest_filename = None, dest_policy = Rename\<rparr>,
      nd_origin = Cli\<rparr>"

definition demo_manager :: "database manager" where
  "demo_manager = \<lparr>mgr_repo = empty_database, mgr_jobs = [], mgr_clock = 0, mgr_points = 0,
     mgr_cancel = cancellation_new, mgr_observed = []\<rparr>"

definition demo_created :: "database manager" where
  "demo_created = run_call demo_env (CallCreate demo_download) demo_manager"

definition demo_executor :: executor where
  "demo_executor = (\<lambda>_. Inr
     \<lparr>prep_resource = \<lparr>resource_kind = KindFile, resource_display_name = None, resource_content_type = None\<rparr>,
      prep_total_bytes = Some 10, prep_total_is_estimated = False, prep_starting_bytes = 0,
      prep_supports_pause = True, prep_may_rewind = False,
      prep_destination = ResolvedDestination ''/d/f'',
      prep_run = \<lparr>run_ticks = [Some 4, None], run_last = Some 10,
        run_result = Inr (Finished \<lparr>staged_written = 10,
          staged_finalize = Inr \<lparr>out_destination = ResolvedDestination ''/d/f'', out_written = 10,
            out_cleanup_pending = False\<rparr>\<rparr>)\<rparr>\<rparr>)"

lemma demo_admissible: "admissible demo_db demo_download"
  by (simp add: admissible_def demo_db_def demo_download_def url_valid_def)

lemma demo_env_fine:
  "env_repo demo_env = sqlite_repository demo_db" "calls_admissible demo_db demo_env"
  "calls_elsewhere demo_env i"
  by (simp_all add: demo_env_def calls_admissible_def calls_elsewhere_def)

lemma demo_manager_ok: "service_ok demo_db demo_manager"
proof -
  have "db_stored demo_db empty_database i = None" for i
    using db_stored_tables_of(1) [of empty_database "[]" 0 demo_db]
    by (simp add: empty_database_def tables_of_def jobs_ok_def)
  then show ?thesis
    by (simp add: service_ok_def coherent_def demo_manager_def bt_ordered_def bt_get_def fun_eq_iff)
qed

lemma demo_created_ok: "service_ok demo_db demo_created"
  unfolding demo_created_def
  by (rule call_keeps_service [OF demo_manager_ok demo_env_fine(1)]) (simp add: demo_admissible)

lemma demo_created_job:
  "db_stored demo_db (mgr_repo demo_created) (DownloadId 1) =
     Some (job_new (DownloadId 1) demo_download 0)"
proof -
  have "manager_job demo_created (DownloadId 1) = Some (job_new (DownloadId 1) demo_download 0)"
    by code_simp
  then show ?thesis by (simp add: registry_is_store [OF demo_created_ok])
qed

section \<open>The manager over its repository\<close>

text \<open>
  C1.  Whatever other clients do while a job is executed, the registry afterwards shows exactly
  the stored jobs; the executed job keeps its identity, request, origin, destination and creation
  time; and a report the execution returns states what is durably stored.
\<close>

theorem execution_keeps_registry_durable:
  assumes "service_ok env w" "env_repo menv = sqlite_repository env" "calls_admissible env menv"
    "execute_controlled_with_updates menv exec handle i w = (res, w')"
  shows "service_ok env w' \<and>
    (case db_stored env (mgr_repo w) i of
       None \<Rightarrow> res = Inl (MeNotFound i)
     | Some j0 \<Rightarrow> \<exists>j. db_stored env (mgr_repo w') i = Some j \<and> same_identity j0 j) \<and>
    (case res of
       Inl _ \<Rightarrow> True
     | Inr r \<Rightarrow> event_download_id (rep_event r) = i \<and>
         event_true (db_stored env (mgr_repo w')) (rep_event r))"
proof (cases "db_stored env (mgr_repo w) i")
  case None
  with assms show ?thesis
    using sqlite_identity.execute_unknown [of env w i menv exec handle] execute_keeps_service
    by (auto simp: service_ok_def)
next
  case (Some j0)
  have coh: "coherent (db_stored env) (db_valid env) w" using assms(1) by (simp add: service_ok_def)
  note run = sqlite_identity.execute_report [OF env_fine_identity [OF assms(2,3)] coh Some
    same_identity_refl assms(4)]
  from run Some show ?thesis by (auto simp: service_ok_def split: sum.split)
qed

lemma execution_keeps_registry_durable_witness:
  "service_ok demo_db (snd (execute_controlled_with_updates demo_env demo_executor cancellation_new
     (DownloadId 1) demo_created)) \<and>
   fst (execute_controlled_with_updates demo_env demo_executor cancellation_new (DownloadId 1)
     demo_created) =
     Inr \<lparr>rep_event = EvCompleted (DownloadId 1) (ResolvedDestination ''/d/f''),
          rep_cleanup_pending = False\<rparr>"
proof
  show "service_ok demo_db (snd (execute_controlled_with_updates demo_env demo_executor
      cancellation_new (DownloadId 1) demo_created))"
    using execution_keeps_registry_durable [OF demo_created_ok demo_env_fine(1,2) prod.collapse [symmetric]]
    by blast
  show "fst (execute_controlled_with_updates demo_env demo_executor cancellation_new (DownloadId 1)
     demo_created) =
     Inr \<lparr>rep_event = EvCompleted (DownloadId 1) (ResolvedDestination ''/d/f''),
          rep_cleanup_pending = False\<rparr>"
    by code_simp
qed

text \<open>
  C2.  Over a store that keeps a journal of its saves, and when no other client touches the executed
  job, the values the execution of a queued job saves form a path from the stored value: each keeps
  the identity of the one before and its state, or moves along one edge of the transition table
  that does not lead back to the queue, and the last one is what is stored.  An execution that
  reports completion has saved the job in exactly the states inspecting, downloading, finalizing
  and completed, in this order.
\<close>

theorem execution_follows_lifecycle:
  assumes "coherent (\<lambda>r. db_stored env (fst r)) (\<lambda>r. db_valid env (fst r)) w"
    "env_repo menv = journalled (sqlite_repository env)" "calls_admissible env menv"
    "calls_elsewhere menv i" "mgr_repo w = (db, [])" "db_stored env db i = Some j0" "job_state j0 = Queued"
    "execute_controlled_with_updates menv exec handle i w = (res, w')"
  shows "let saved = filter (\<lambda>j. job_id j = i) (snd (mgr_repo w')) in
    successively (\<lambda>j k. same_identity j k \<and> (job_state k = job_state j \<or>
      can_transition_to (job_state j) (job_state k) \<and> job_state k \<noteq> Queued)) (j0 # saved) \<and>
    db_stored env (fst (mgr_repo w')) i = Some (last (j0 # saved)) \<and>
    (case res of
       Inr r \<Rightarrow> ev_kind (rep_event r) = EkCompleted \<longrightarrow>
         remdups_adj (map job_state (j0 # saved)) = [Queued, Inspecting, Downloading, Finalizing, Completed]
     | Inl _ \<Rightarrow> True)"
proof -
  let ?saved = "saved_values i (snd (mgr_repo w'))"
  note run = sqlite_steps.execute_report [OF env_fine_steps [OF assms(2-4)] assms(1) _ _ assms(8), of j0]
  from run(2) assms(5,6) have path: "successively next_stage (j0 # ?saved)"
    and stored: "db_stored env (fst (mgr_repo w')) i = Some (last (j0 # ?saved))"
    by (simp_all add: saved_values_def)
  have "remdups_adj (map job_state (j0 # ?saved)) = [Queued, Inspecting, Downloading, Finalizing, Completed]"
    if "res = Inr r" "ev_kind (rep_event r) = EkCompleted" for r
  proof -
    have "event_true (db_stored env (fst (mgr_repo w'))) (rep_event r)" "event_download_id (rep_event r) = i"
      using run(3) [OF _ _ that(1)] assms(5,6) by (simp_all add: saved_values_def)
    with that(2) stored have "job_state (last (j0 # ?saved)) = Completed"
      by (cases "rep_event r") auto
    with execution_stages [OF path assms(7)] show ?thesis by simp
  qed
  with path stored show ?thesis
    by (auto simp: saved_values_def next_stage_def [abs_def] execution_edge_def Let_def
        split: sum.split simp del: remdups_adj.simps successively.simps last.simps list.map)
qed

definition demo_journal :: "(database \<times> download_job list) manager" where
  "demo_journal = \<lparr>mgr_repo = (mgr_repo demo_created, []), mgr_jobs = mgr_jobs demo_created, mgr_clock = 1,
     mgr_points = 0, mgr_cancel = cancellation_new, mgr_observed = []\<rparr>"

definition demo_journal_env :: "(database \<times> download_job list) manager_env" where
  "demo_journal_env = \<lparr>env_repo = journalled (sqlite_repository demo_db), env_now = (\<lambda>n. int n * 1000000),
     env_control = (\<lambda>_. []), env_calls = (\<lambda>_. [])\<rparr>"

lemma execution_follows_lifecycle_witness:
  "let run = execute_controlled_with_updates demo_journal_env demo_executor cancellation_new (DownloadId 1)
       demo_journal;
     saved = filter (\<lambda>j. job_id j = DownloadId 1) (snd (mgr_repo (snd run))) in
   fst run = Inr \<lparr>rep_event = EvCompleted (DownloadId 1) (ResolvedDestination ''/d/f''),
     rep_cleanup_pending = False\<rparr> \<and>
   remdups_adj (Queued # map job_state saved) = [Queued, Inspecting, Downloading, Finalizing, Completed] \<and>
   length saved = 5"
proof -
  let ?run = "execute_controlled_with_updates demo_journal_env demo_executor cancellation_new (DownloadId 1)
     demo_journal"
  have fst: "fst ?run = Inr \<lparr>rep_event = EvCompleted (DownloadId 1) (ResolvedDestination ''/d/f''),
      rep_cleanup_pending = False\<rparr>"
    by code_simp
  have run: "?run = (Inr \<lparr>rep_event = EvCompleted (DownloadId 1) (ResolvedDestination ''/d/f''),
      rep_cleanup_pending = False\<rparr>, snd ?run)"
    by (rule prod_eqI) (simp_all add: fst)
  have coh: "coherent (\<lambda>r. db_stored demo_db (fst r)) (\<lambda>r. db_valid demo_db (fst r)) demo_journal"
    using demo_created_ok by (simp add: service_ok_def coherent_def demo_journal_def)
  have "length (filter (\<lambda>j. job_id j = DownloadId 1) (snd (mgr_repo (snd ?run)))) = 5" by code_simp
  moreover have env: "env_repo demo_journal_env = journalled (sqlite_repository demo_db)"
    "calls_admissible demo_db demo_journal_env" "calls_elsewhere demo_journal_env (DownloadId 1)"
    "mgr_repo demo_journal = (mgr_repo demo_created, [])"
    by (simp_all add: demo_journal_env_def demo_journal_def calls_admissible_def calls_elsewhere_def)
  ultimately show ?thesis
    using execution_follows_lifecycle [OF coh env demo_created_job _ run] fst
    by (simp add: job_new_def Let_def del: remdups_adj.simps)
qed

text \<open>
  C3.  A manager that starts on a valid data directory shows exactly the stored jobs; a job that was
  inspecting, downloading or finalizing is durably interrupted and otherwise unchanged, and every
  other job is as it was stored.
\<close>

theorem start_recovers_executions:
  assumes "db_valid env (mgr_repo w)" "env_repo menv = sqlite_repository env"
    "manager_start menv w = (Inr (), w')"
  shows "service_ok env w' \<and>
    (case db_stored env (mgr_repo w) i of
       None \<Rightarrow> db_stored env (mgr_repo w') i = None
     | Some j \<Rightarrow>
         if requires_recovery_after_restart (job_state j) then
           \<exists>u. db_stored env (mgr_repo w') i = Some (j\<lparr>job_state := Interrupted, job_updated_at := u\<rparr>)
         else db_stored env (mgr_repo w') i = Some j)"
  using download_repository.manager_start_recovers [OF sqlite.download_repository_axioms assms] by (auto simp: service_ok_def split: option.split)

text \<open>An execution whose executor contradicts itself leaves the job downloading.\<close>

definition demo_stuck :: "database manager" where
  "demo_stuck = snd (execute_controlled_with_updates demo_env
     (\<lambda>inp. rmap (\<lambda>p. p\<lparr>prep_run := (prep_run p)\<lparr>run_result := Inr (Stopped 10)\<rparr>\<rparr>) (demo_executor inp))
     cancellation_new (DownloadId 1) demo_created)"

lemma demo_stuck_ok: "service_ok demo_db demo_stuck"
  unfolding demo_stuck_def
  by (rule execute_keeps_service [OF demo_created_ok demo_env_fine(1,2) prod.collapse [symmetric]])

lemma start_recovers_executions_witness:
  "map_option job_state (db_stored demo_db (mgr_repo demo_stuck) (DownloadId 1)) = Some Downloading \<and>
   map_option job_state (db_stored demo_db (mgr_repo (snd (manager_start demo_env demo_stuck))) (DownloadId 1)) =
     Some Interrupted"
proof -
  have before: "map_option job_state (db_stored demo_db (mgr_repo demo_stuck) (DownloadId 1)) = Some Downloading"
    unfolding registry_is_store [OF demo_stuck_ok, symmetric] by code_simp
  have "fst (manager_start demo_env demo_stuck) = Inr ()" by code_simp
  then have run: "manager_start demo_env demo_stuck = (Inr (), snd (manager_start demo_env demo_stuck))"
    by (metis prod.collapse)
  have "db_valid demo_db (mgr_repo demo_stuck)"
    using demo_stuck_ok by (simp add: service_ok_def coherent_def)
  from start_recovers_executions [OF this demo_env_fine(1) run, of "DownloadId 1"] before show ?thesis
    by auto
qed

text \<open>
  C4.  An idle command either fails and leaves every stored job as it was, or moves exactly its
  target, which was not executing, from its previous state to the reported one; the job keeps
  everything else, except that a restart clears progress, resource, destination and failure.
\<close>

theorem idle_command_effect:
  assumes "service_ok env w" "env_repo menv = sqlite_repository env"
    "change_idle_state menv i command w = (res, w')"
  shows "service_ok env w' \<and>
    (case res of
       Inl e \<Rightarrow> db_stored env (mgr_repo w') = db_stored env (mgr_repo w)
     | Inr ev \<Rightarrow> \<exists>current next p t.
         db_stored env (mgr_repo w) i = Some current \<and>
         \<not> requires_recovery_after_restart (job_state current) \<and>
         idle_target command current = Some next \<and> ev = EvStateChanged i (job_state current) next \<and>
         db_stored env (mgr_repo w') = (db_stored env (mgr_repo w))(i \<mapsto> p) \<and>
         p = (if command = CkRestart then
                current\<lparr>job_state := next, job_progress := progress_default, job_resource := None,
                        job_resolved := None, job_failure := None, job_updated_at := t\<rparr>
              else current\<lparr>job_state := next, job_updated_at := t\<rparr>))"
proof -
  have coh: "coherent (db_stored env) (db_valid env) w" using assms(1) by (simp add: service_ok_def)
  note c = sqlite_identity.change_idle_state_cases [OF coh assms(2,3)]
  show ?thesis
  proof (cases res)
    case (Inl e)
    with c show ?thesis by (simp add: service_ok_def)
  next
    case (Inr ev)
    with c obtain current "next" p where
        p: "db_stored env (mgr_repo w) i = Some current" "idle_outcome command current next p"
          "ev = EvStateChanged i (job_state current) next"
          "db_stored env (mgr_repo w') = (db_stored env (mgr_repo w))(i \<mapsto> p)"
      by auto
    from p(2) obtain t where t: "idle_target command current = Some next"
      "p = (if command = CkRestart then
              current\<lparr>job_state := next, job_progress := progress_default, job_resource := None,
                      job_resolved := None, job_failure := None, job_updated_at := t\<rparr>
            else current\<lparr>job_state := next, job_updated_at := t\<rparr>)"
      by (auto simp: idle_outcome_def result_simps idle_target_def split: if_splits)
    with p idle_outcome_idle [OF p(2)] c Inr show ?thesis
      by (simp add: service_ok_def) blast
  qed
qed

lemma idle_command_effect_witness:
  "service_ok demo_db (snd (manager_pause demo_env (DownloadId 1) demo_created)) \<and>
   fst (manager_pause demo_env (DownloadId 1) demo_created) =
     Inr (EvStateChanged (DownloadId 1) Queued Paused) \<and>
   fst (manager_resume demo_env (DownloadId 1) demo_created) =
     Inl (MeInvalidOperation (DownloadId 1) CkResume Queued)"
proof (intro conjI)
  show "service_ok demo_db (snd (manager_pause demo_env (DownloadId 1) demo_created))"
    unfolding manager_pause_def
    using idle_command_effect [OF demo_created_ok demo_env_fine(1) prod.collapse [symmetric]] by blast
qed code_simp+

text \<open>
  C5.  While a transfer runs, what is reported never goes backwards: whether the transfer loop ends
  or fails, the counts its observer was told never decrease, from the job it started with to the
  one it ends with; no report exceeds a known total; and every report carries a job that the
  repository saved, in the order of the saves, whatever repository it is.  The count a stop
  records after the loop may be lower and is no part of this.
\<close>

theorem checkpoints_are_monotone:
  assumes "env_repo env = journalled R" "transfer_loop env est ticks n j w = (res, w')"
  shows "\<exists>obs saved. mgr_observed w' = mgr_observed w @ obs \<and>
    snd (mgr_repo w') = snd (mgr_repo w) @ saved \<and> subseq (map snd obs) saved \<and>
    sorted (map (\<lambda>l. downloaded_bytes (job_progress l))
      (j # map snd obs @ (case res of Inr (k, _) \<Rightarrow> [k] | Inl _ \<Rightarrow> []))) \<and>
    list_all (\<lambda>(ev, l). ev = EvProgressChanged (job_id j) (job_progress l) \<and>
      (case total_bytes (job_progress l) of
         Some t \<Rightarrow> downloaded_bytes (job_progress l) \<le> t | None \<Rightarrow> True)) obs"
proof -
  from transfer_loop_observed [OF assms] obtain obs saved where
    run: "mgr_observed w' = mgr_observed w @ obs" "snd (mgr_repo w') = snd (mgr_repo w) @ saved"
      "subseq (map snd obs) saved"
    and between: "case res of Inr (k, _) \<Rightarrow> observed_between j obs k | Inl _ \<Rightarrow> \<exists>k. observed_between j obs k"
    by (auto simp: observed_run_def split: sum.splits)
  from between obtain k where k: "observed_between j obs k" "case res of Inr (l, _) \<Rightarrow> l = k | Inl _ \<Rightarrow> True"
    by (auto split: sum.splits)
  then have sorted: "sorted (map (\<lambda>l. downloaded_bytes (job_progress l)) ((j # map snd obs) @ [k]))"
    by (simp add: observed_between_def)
  then have "sorted (map (\<lambda>l. downloaded_bytes (job_progress l)) (j # map snd obs))"
    by (simp only: map_append sorted_append)
  with sorted k run show ?thesis
    by (intro exI [of _ obs] exI [of _ saved])
       (auto simp: observed_between_def progress_wf_def split: sum.splits)
qed

lemma checkpoints_are_monotone_witness:
  "\<exists>obs. mgr_observed (snd (transfer_loop demo_journal_env True [Some 3, None, Some 8] 0
       (job_new (DownloadId 1) demo_download 0) demo_journal)) = obs \<and>
    subseq (map snd obs) (snd (mgr_repo (snd (transfer_loop demo_journal_env True [Some 3, None, Some 8] 0
       (job_new (DownloadId 1) demo_download 0) demo_journal)))) \<and>
    sorted (map (\<lambda>l. downloaded_bytes (job_progress l)) (map snd obs)) \<and> length obs = 2"
proof -
  let ?run = "transfer_loop demo_journal_env True [Some 3, None, Some 8] 0
    (job_new (DownloadId 1) demo_download 0) demo_journal"
  have env: "env_repo demo_journal_env = journalled (sqlite_repository demo_db)"
    by (simp add: demo_journal_env_def)
  have start: "mgr_observed demo_journal = []" "snd (mgr_repo demo_journal) = []"
    by (simp_all add: demo_journal_def)
  have len: "length (mgr_observed (snd ?run)) = 2" by code_simp
  from checkpoints_are_monotone [OF env prod.collapse [symmetric, of ?run]] start len
  show ?thesis by (auto simp: sorted_append)
qed

section \<open>Control requests\<close>

text \<open>
  C6.  When a cancellation was requested before an execution begins, the executor is never asked:
  the outcome is the same for every executor, and a report says that the job is cancelled.
\<close>

theorem cancelled_before_start:
  assumes "service_ok env w" "requested handle = Some ReqCancel"
    "execute_controlled_with_updates menv exec handle i w = (res, w')"
  shows "execute_controlled_with_updates menv exec' handle i w = (res, w') \<and>
    (case res of Inl _ \<Rightarrow> True | Inr r \<Rightarrow> rep_event r = EvStateChanged i Queued Cancelled)"
proof
  show "execute_controlled_with_updates menv exec' handle i w = (res, w')"
    using pending_request_stops_start [of handle menv exec i w exec'] assms(2,3) by simp
  show "case res of Inl _ \<Rightarrow> True | Inr r \<Rightarrow> rep_event r = EvStateChanged i Queued Cancelled"
  proof (cases "manager_job w i")
    case None
    with assms(3) show ?thesis
      by (auto simp: execute_controlled_with_updates_def act_bind_Inr [OF modify_state_apply]
          execute_inner_def job_or_def act_bind_def get_state_def lift_result_def manager_job_def)
  next
    case (Some j)
    then have "job_id j = i"
      using assms(1) sqlite.stored_key [of env "mgr_repo w" i j]
      by (auto simp: service_ok_def coherent_def manager_job_def)
    with cancelled_start_report [OF assms(2) _ Some] assms(3) show ?thesis by (cases res) auto
  qed
qed

lemma cancelled_before_start_witness:
  "fst (execute_controlled_with_updates demo_env demo_executor (request_cancel cancellation_new)
      (DownloadId 1) demo_created) =
     Inr \<lparr>rep_event = EvStateChanged (DownloadId 1) Queued Cancelled, rep_cleanup_pending = False\<rparr> \<and>
   execute_controlled_with_updates demo_env (\<lambda>_. Inl undefined) (request_cancel cancellation_new)
      (DownloadId 1) demo_created =
   execute_controlled_with_updates demo_env demo_executor (request_cancel cancellation_new)
      (DownloadId 1) demo_created"
proof
  show "execute_controlled_with_updates demo_env (\<lambda>_. Inl undefined) (request_cancel cancellation_new)
      (DownloadId 1) demo_created =
   execute_controlled_with_updates demo_env demo_executor (request_cancel cancellation_new)
      (DownloadId 1) demo_created"
    using cancelled_before_start [OF demo_created_ok _ prod.collapse [symmetric],
        of "request_cancel cancellation_new" demo_env demo_executor "DownloadId 1" "\<lambda>_. Inl undefined"]
    by (simp add: request_cancel_def)
qed code_simp

text \<open>
  When a cancellation is pending after the transfer was staged, nothing is published: the
  outcome does not depend on what publishing would have done, and a report says that the job is
  cancelled.
\<close>

theorem cancelled_before_publication:
  assumes "requested (mgr_cancel w) = Some ReqCancel"
  shows "execute_staged env i j n tot est staged w =
      execute_staged env i j n tot est (staged\<lparr>staged_finalize := published\<rparr>) w \<and>
    (case fst (execute_staged env i j n tot est staged w) of
       Inl _ \<Rightarrow> True
     | Inr r \<Rightarrow> rep_event r = EvStateChanged (job_id j) (job_state j) Cancelled)"
proof
  show "execute_staged env i j n tot est staged w =
      execute_staged env i j n tot est (staged\<lparr>staged_finalize := published\<rparr>) w"
    by (rule pending_cancel_ignores_output [OF assms])
  obtain res w' where r: "execute_staged env i j n tot est staged w = (res, w')" by fastforce
  with pending_cancel_stops_publication [OF assms] show
    "case fst (execute_staged env i j n tot est staged w) of
       Inl _ \<Rightarrow> True
     | Inr r \<Rightarrow> rep_event r = EvStateChanged (job_id j) (job_state j) Cancelled"
    by (cases res) auto
qed

definition demo_cancelled :: "database manager" where
  "demo_cancelled = demo_created\<lparr>mgr_cancel := request_cancel cancellation_new\<rparr>"

definition demo_staged :: staged_transfer where
  "demo_staged = \<lparr>staged_written = 10, staged_finalize = Inr \<lparr>out_destination = ResolvedDestination ''/d/f'',
     out_written = 10, out_cleanup_pending = False\<rparr>\<rparr>"

definition demo_transferred :: download_job where
  "demo_transferred = (job_new (DownloadId 1) demo_download 0)\<lparr>job_state := Downloading\<rparr>"

lemma cancelled_before_publication_witness:
  "execute_staged demo_env (DownloadId 1) demo_transferred 10 None False demo_staged demo_cancelled =
     execute_staged demo_env (DownloadId 1) demo_transferred 10 None False
       (demo_staged\<lparr>staged_finalize := Inl undefined\<rparr>) demo_cancelled \<and>
   fst (execute_staged demo_env (DownloadId 1) demo_transferred 10 None False demo_staged demo_cancelled) =
     Inr \<lparr>rep_event = EvStateChanged (DownloadId 1) Downloading Cancelled, rep_cleanup_pending = False\<rparr>"
proof
  show "execute_staged demo_env (DownloadId 1) demo_transferred 10 None False demo_staged demo_cancelled =
     execute_staged demo_env (DownloadId 1) demo_transferred 10 None False
       (demo_staged\<lparr>staged_finalize := Inl undefined\<rparr>) demo_cancelled"
    by (rule cancelled_before_publication [THEN conjunct1]) (simp add: demo_cancelled_def request_cancel_def)
qed code_simp

section \<open>The store\<close>

text \<open>
  C7.  Saving a job either fails, and then no table changed, or it replaces exactly the stored job
  with the same identifier and creation metadata, and what later lookups return is the saved job
  with its times cut to milliseconds.
\<close>

theorem save_replaces_one_job:
  assumes "db_valid env s" "job_wf j" "sqlite_save env j s = (res, s')"
  shows "db_valid env s' \<and>
    (case res of
       Inl e \<Rightarrow> db_tables s' = db_tables s
     | Inr p \<Rightarrow>
         p = j\<lparr>job_created_at := job_created_at j div 1000000 * 1000000,
               job_updated_at := job_updated_at j div 1000000 * 1000000\<rparr> \<and>
         db_stored env s' = (db_stored env s)(job_id j \<mapsto> p) \<and>
         (\<exists>old. db_stored env s (job_id j) = Some old \<and> same_identity old p))"
proof (cases res)
  case (Inl e)
  with assms show ?thesis
    using db_stored_tables [OF failed_save_keeps_tables] failed_save_keeps_tables by simp
next
  case (Inr p)
  with assms(3) have run: "sqlite_save env j s = (Inr p, s')" by simp
  note c = sqlite_save_contract [OF assms(1,2) run] and t = sqlite_save_ok(2) [OF run]
  then obtain old where old: "db_stored env s (job_id j) = Some old"
    "p = j\<lparr>job_created_at := job_created_at old, job_updated_at := job_updated_at p\<rparr>"
    "job_request old = job_request j" "job_origin old = job_origin j" "job_destination old = job_destination j"
    by blast
  have "job_id old = job_id j"
    using sqlite.stored_key [OF assms(1) old(1)] by simp
  moreover have "job_created_at p = job_created_at old" by (subst old(2)) simp
  moreover have "job_id p = job_id j" "job_request p = job_request j" "job_origin p = job_origin j"
    "job_destination p = job_destination j" by (subst t, simp)+
  ultimately have "same_identity old p" using old by (simp add: same_identity_def)
  with Inr c t old(1) show ?thesis by simp
qed

lemma save_replaces_one_job_witness:
  "let s = mgr_repo demo_created;
       j = (job_new (DownloadId 1) demo_download 0)\<lparr>job_state := Paused, job_updated_at := 7000999\<rparr>
   in db_stored demo_db (snd (sqlite_save demo_db j s)) (DownloadId 1) = Some (j\<lparr>job_updated_at := 7000000\<rparr>)"
proof -
  let ?s = "mgr_repo demo_created"
  let ?j = "(job_new (DownloadId 1) demo_download 0)\<lparr>job_state := Paused, job_updated_at := 7000999\<rparr>"
  have valid: "db_valid demo_db ?s" using demo_created_ok by (simp add: service_ok_def coherent_def)
  have wf: "job_wf ?j" by (simp add: job_wf_def job_new_def)
  have "fst (sqlite_save demo_db ?j ?s) = Inr (?j\<lparr>job_updated_at := 7000000\<rparr>)" by code_simp
  then have "sqlite_save demo_db ?j ?s = (Inr (?j\<lparr>job_updated_at := 7000000\<rparr>), snd (sqlite_save demo_db ?j ?s))"
    by (metis prod.collapse)
  from save_replaces_one_job [OF valid wf this] show ?thesis by (simp add: job_new_def)
qed

text \<open>
  C8.  Creating a download either fails, and then no table changed, or it stores one new queued
  job under an identifier above every stored one, and keeps all the others.
\<close>

theorem create_adds_one_job:
  assumes "db_valid env s" "admissible env d" "sqlite_create env d t s = (res, s')"
  shows "db_valid env s' \<and>
    (case res of
       Inl e \<Rightarrow> db_tables s' = db_tables s
     | Inr j \<Rightarrow>
         j = job_new (job_id j) d (t div 1000000 * 1000000) \<and>
         db_stored env s' = (db_stored env s)(job_id j \<mapsto> j) \<and>
         (\<forall>i k. db_stored env s i = Some k \<longrightarrow> i < job_id j))"
proof (cases res)
  case (Inl e)
  with assms show ?thesis
    using db_stored_tables [OF failed_create_keeps_tables] failed_create_keeps_tables by simp
next
  case (Inr j)
  with assms(3) have run: "sqlite_create env d t s = (Inr j, s')" by simp
  from assms(1) obtain js n where tb: "db_tables s = tables_of js n" "jobs_ok env js n"
    by (rule db_validE)
  have "i < job_id j" if "db_stored env s i = Some k" for i k
    using that tb(2) create_refines [OF tb assms(2) run]
    by (auto simp: db_stored_tables_of(2) [OF tb] jobs_ok_def list_all_iff less_download_id_def)
  with Inr sqlite_create_contract [OF assms(1,2) run] create_refines [OF tb assms(2) run]
  show ?thesis by simp
qed

lemma create_adds_one_job_witness:
  "db_stored demo_db (snd (sqlite_create demo_db demo_download 5 (mgr_repo demo_created))) (DownloadId 2) =
     Some (job_new (DownloadId 2) demo_download 0)"
proof -
  let ?run = "sqlite_create demo_db demo_download 5 (mgr_repo demo_created)"
  have valid: "db_valid demo_db (mgr_repo demo_created)"
    using demo_created_ok by (simp add: service_ok_def coherent_def)
  have "fst ?run = Inr (job_new (DownloadId 2) demo_download 0)" by code_simp
  then have "?run = (Inr (job_new (DownloadId 2) demo_download 0), snd ?run)" by (metis prod.collapse)
  from create_adds_one_job [OF valid demo_admissible this] show ?thesis by (simp add: job_new_def)
qed

text \<open>
  C9.  A listing that the database answers returns every stored job exactly once in ascending
  identifier order, a lookup that it answers returns the stored job, and neither changes a table.
\<close>

theorem reads_return_stored_jobs:
  assumes "db_valid env s" "sqlite_list env s = (Inr js, s1)" "sqlite_find_by_id env i s = (Inr found, s2)"
  shows "sorted_wrt (<) (map job_id js) \<and> set js = {j. db_stored env s (job_id j) = Some j} \<and>
    found = db_stored env s i \<and> db_tables s1 = db_tables s \<and> db_tables s2 = db_tables s"
  using sqlite.list_ok [of env s js s1] find_returns_stored [OF assms(1,3)] assms
    read_only [OF keeps_list assms(2)] read_only [OF keeps_find assms(3)]
  by (auto simp: sqlite_repository_def)

lemma reads_return_stored_jobs_witness:
  "db_stored demo_db (mgr_repo demo_created) (DownloadId 1) =
     Some (job_new (DownloadId 1) demo_download 0) \<and>
   set [job_new (DownloadId 1) demo_download 0] =
     {j. db_stored demo_db (mgr_repo demo_created) (job_id j) = Some j}"
proof -
  let ?l = "sqlite_list demo_db (mgr_repo demo_created)"
    and ?f = "sqlite_find_by_id demo_db (DownloadId 1) (mgr_repo demo_created)"
  have valid: "db_valid demo_db (mgr_repo demo_created)"
    using demo_created_ok by (simp add: service_ok_def coherent_def)
  have "fst ?l = Inr [job_new (DownloadId 1) demo_download 0]" by code_simp
  then have l: "?l = (Inr [job_new (DownloadId 1) demo_download 0], snd ?l)" by (metis prod.collapse)
  have "fst ?f = Inr (Some (job_new (DownloadId 1) demo_download 0))" by code_simp
  then have f: "?f = (Inr (Some (job_new (DownloadId 1) demo_download 0)), snd ?f)" by (metis prod.collapse)
  from reads_return_stored_jobs [OF valid l f] show ?thesis by simp
qed

text \<open>
  C10.  The Windows path codec is a bijection between paths and byte strings of even length: every
  path decodes to itself, and the bytes that decode are exactly the encodings.
\<close>

theorem windows_paths_roundtrip:
  "rbind (encode_path_windows wide) decode_path_windows = Inr wide \<and>
   (case decode_path_windows bytes of
      Inr w \<Rightarrow> encode_path_windows w = Inr bytes \<and> even (length bytes)
    | Inl e \<Rightarrow> odd (length bytes))"
  using windows_path_codec.dec_enc [of wide] decode_windows_exact [of bytes]
  by (auto simp: encode_path_windows_def split: sum.split)

section \<open>The lifecycle\<close>

text \<open>
  C11.  However the public mutators of a job are used, the job stays well formed and keeps what
  creation fixed, its states follow the transition table or a restart, and a run from a queued job
  has visited every earlier stage of the state it is in, in order.
\<close>

theorem runs_keep_lifecycle:
  assumes "job_run (j # js)" "job_wf j" "milestones (job_state j) = []"
  shows "list_all (\<lambda>k. job_wf k \<and> same_identity j k) js \<and>
    successively (\<lambda>k l. job_state k = job_state l \<or> can_transition_to (job_state k) (job_state l) \<or>
      can_restart (job_state k) \<and> job_state l = Queued) (j # js) \<and>
    subseq (milestones (job_state (last (j # js)))) (map job_state (j # js))"
proof (intro conjI)
  have states: "successively state_step (map job_state (j # js))" by (rule job_run_states [OF assms(1)])
  then show "successively (\<lambda>k l. job_state k = job_state l \<or> can_transition_to (job_state k) (job_state l) \<or>
      can_restart (job_state k) \<and> job_state l = Queued) (j # js)"
    by (simp only: successively_map state_step_def)
  show "subseq (milestones (job_state (last (j # js)))) (map job_state (j # js))"
    using path_milestones [of "job_state j" "map job_state js"] states assms(3)
    by (cases "js = []") (simp_all add: last_map)
qed (rule job_run_wf [OF assms(1,2)])

lemma runs_keep_lifecycle_witness:
  "let j = job_new (DownloadId 1) demo_download 0;
       k = j\<lparr>job_state := Inspecting, job_updated_at := 1\<rparr>;
       l = k\<lparr>job_state := Downloading, job_updated_at := 2\<rparr>
   in subseq [Inspecting, Downloading] (map job_state [j, k, l])"
proof -
  let ?j = "job_new (DownloadId 1) demo_download 0"
  let ?k = "?j\<lparr>job_state := Inspecting, job_updated_at := 1\<rparr>"
  let ?l = "?k\<lparr>job_state := Downloading, job_updated_at := 2\<rparr>"
  have "job_step ?j ?k" "job_step ?k ?l"
    by (rule job_step_transition; simp add: job_new_def)+
  then have "job_run [?j, ?k, ?l]" by (simp add: job_run_def)
  moreover have "job_wf ?j" by (simp add: job_wf_def job_new_def)
  ultimately have "subseq (milestones (job_state (last [?j, ?k, ?l]))) (map job_state [?j, ?k, ?l])"
    using runs_keep_lifecycle [of ?j "[?k, ?l]"] by (simp add: job_new_def)
  then show ?thesis by simp
qed

section \<open>Between two clients\<close>

text \<open>
  An execution reads its job without the write lock: in this run a pause that another client is told
  succeeded comes between the read and the first save of the execution, is overwritten by that
  save, and the paused job runs to completion.
\<close>

definition demo_pause_env :: "database manager_env" where
  "demo_pause_env = demo_env\<lparr>env_calls := (\<lambda>n. if n = 0 then [CallIdle CkPause (DownloadId 1)] else [])\<rparr>"

lemma interleaved_pause_is_lost:
  "fst (manager_pause demo_pause_env (DownloadId 1) demo_created) =
     Inr (EvStateChanged (DownloadId 1) Queued Paused) \<and>
   fst (execute_controlled_with_updates demo_pause_env demo_executor cancellation_new (DownloadId 1)
     demo_created) =
     Inr \<lparr>rep_event = EvCompleted (DownloadId 1) (ResolvedDestination ''/d/f''),
          rep_cleanup_pending = False\<rparr> \<and>
   \<not> can_transition_to Paused Inspecting"
  by (intro conjI; code_simp)

end
